(* ===== verification/Yalnix_Prelude.thy ===== *)
theory Yalnix_Prelude
  imports Main "HOL-Library.Word" "HOL-Library.Multiset"
begin

text \<open>
  Shared base of the development: the names of the model's basic types, the faults that
  stand for undefined behaviour of the C code, the result type of kernel code and its
  sequencing operator, and generic facts on lists and words used by several components.
\<close>

named_theorems kernel_simps \<open>unfolding rules for the small building blocks of kernel code\<close>

type_synonym byte = "8 word"
type_synonym u32 = "32 word"

text \<open>An address handed out by the kernel's malloc; 0-based index of the allocation.\<close>

type_synonym addr = nat

text \<open>
  Undefined behaviour of the C code that has no meaningful continuation ends a run of the
  model with a fault.
\<close>

datatype fault =
    NullDeref       \<comment> \<open>a field of a NULL pointer is read or written\<close>
  | DanglingDeref   \<comment> \<open>a field of a freed or never allocated object is read or written\<close>
  | OutOfBounds     \<comment> \<open>an array is indexed outside its bounds\<close>
  | UninitRead      \<comment> \<open>an indeterminate value is used\<close>
  | KernelPageFault \<comment> \<open>the kernel touches an address no page table maps for that access\<close>
  | KernelMemAccess \<comment> \<open>a pointer taken from the user is followed into region 0\<close>
  | IntOverflow     \<comment> \<open>a C int is incremented beyond INT_MAX\<close>

type_synonym 'a res = "fault + 'a"

text \<open>Sequencing: run the rest of the code unless a fault happened.\<close>

definition res_bind :: "'a res \<Rightarrow> ('a \<Rightarrow> 'b res) \<Rightarrow> 'b res" where
  "res_bind r f = (case r of Inl e \<Rightarrow> Inl e | Inr x \<Rightarrow> f x)"

lemma res_bind_simps [simp]:
  "res_bind (Inl e) f = Inl e"
  "res_bind (Inr x) f = f x"
  by (simp_all add: res_bind_def)

lemma res_bind_Inr_iff: "res_bind r f = Inr y \<longleftrightarrow> (\<exists>x. r = Inr x \<and> f x = Inr y)"
  by (cases r) auto

lemma res_bind_InrE [elim!]:
  assumes "res_bind r f = Inr y"
  obtains x where "r = Inr x" and "f x = Inr y"
  using assms by (auto simp: res_bind_Inr_iff)

lemma res_bind_assoc: "res_bind (res_bind r f) g = res_bind r (\<lambda>x. res_bind (f x) g)"
  by (cases r) auto

text \<open>Reading a pointer into one of the kernel's object stores.\<close>

definition deref :: "(addr \<Rightarrow> 'a option) \<Rightarrow> addr \<Rightarrow> 'a res" where
  "deref m a = (case m a of None \<Rightarrow> Inl DanglingDeref | Some x \<Rightarrow> Inr x)"

lemma deref_Some [simp]: "m a = Some x \<Longrightarrow> deref m a = Inr x"
  by (simp add: deref_def)

lemma deref_Inr_iff: "deref m a = Inr x \<longleftrightarrow> m a = Some x"
  by (simp add: deref_def split: option.splits)

lemma deref_InrD [dest!]: "deref m a = Inr x \<Longrightarrow> m a = Some x"
  by (simp add: deref_Inr_iff)

definition deref_ptr :: "(addr \<Rightarrow> 'a option) \<Rightarrow> addr option \<Rightarrow> 'a res" where
  "deref_ptr m p = (case p of None \<Rightarrow> Inl NullDeref | Some a \<Rightarrow> deref m a)"

lemma deref_ptr_simps [simp]:
  "deref_ptr m None = Inl NullDeref"
  "deref_ptr m (Some a) = deref m a"
  by (simp_all add: deref_ptr_def)

section \<open>Lists\<close>

lemma list_remove_mset:
  "n < length xs \<Longrightarrow> add_mset (xs ! n) (mset (take n xs @ drop (Suc n) xs)) = mset xs"
  by (metis id_take_nth_drop mset.simps(2) mset_append union_mset_add_mset_right)

section \<open>Signed and unsigned readings of 32-bit words\<close>

lemma sint_small: "uint (w :: u32) < 2 ^ 31 \<Longrightarrow> sint w = uint w"
proof -
  have "- 2147483648 \<le> uint w" using uint_ge_0 [of w] by linarith
  then show "uint w < 2 ^ 31 \<Longrightarrow> sint w = uint w"
    by (simp add: sint_uint signed_take_bit_int_eq_self_iff)
qed

lemma uint_minus_le: "(b :: u32) \<le> a \<Longrightarrow> uint (a - b) = uint a - uint b"
  by (simp add: word_le_def uint_sub_lem)

lemma uint_32_less: "uint (w :: u32) < 4294967296"
  using uint_lt2p [of w] by simp

end
