(* ===== verification/Linked_List.thy ===== *)
theory Linked_List
  imports Yalnix_Prelude
begin

text \<open>
  The singly linked list of list.h and list.c on an explicit store of nodes. The list has a
  head node that holds no element; elements are numbered from 1. Positions are reached by
  following next pointers, so every access is a dereference that can fault. The second half
  relates the pointer operations to operations on HOL lists; the kernel components use
  those.
\<close>

definition ERROR :: int where [simp]: "ERROR = -1"

section \<open>The store and the operations of list.c\<close>

record 'a node =
  data :: 'a
  "next" :: "addr option"

record linked_list =
  head :: "addr option"
  len :: int

text \<open>
  The store of nodes. \<open>fails n\<close> says that the n-th call of malloc returns NULL; \<open>brk\<close>
  counts the calls, so an address is never handed out twice.
\<close>

record 'a lheap =
  cells :: "addr \<Rightarrow> 'a node option"
  fails :: "nat \<Rightarrow> bool"
  brk :: nat

definition h_malloc :: "'a lheap \<Rightarrow> addr option \<times> 'a lheap" where
  "h_malloc h =
     (if fails h (brk h) then None else Some (brk h), h\<lparr>brk := Suc (brk h)\<rparr>)"

definition h_free :: "addr option \<Rightarrow> 'a lheap \<Rightarrow> 'a lheap" where
  "h_free p h = (case p of None \<Rightarrow> h | Some a \<Rightarrow> h\<lparr>cells := (cells h)(a := None)\<rparr>)"

text \<open>\<^verbatim>\<open>for (i = 0; i < n; i++) curr = (*curr).next;\<close>\<close>

fun hop :: "(addr \<Rightarrow> 'a node option) \<Rightarrow> nat \<Rightarrow> addr option \<Rightarrow> addr option res" where
  "hop m 0 p = Inr p"
| "hop m (Suc n) p = res_bind (deref_ptr m p) (\<lambda>c. hop m n (next c))"

definition list_insert ::
    "linked_list option \<Rightarrow> int \<Rightarrow> 'a \<Rightarrow> 'a lheap \<Rightarrow> (int \<times> linked_list option \<times> 'a lheap) res" where
  "list_insert lst location d h =
     (case lst of
        None \<Rightarrow> Inr (ERROR, lst, h)
      | Some l \<Rightarrow>
          if location > len l + 1 \<or> location < 1 then Inr (ERROR, lst, h)
          else
            (case h_malloc h of
               (None, h) \<Rightarrow> Inr (ERROR, lst, h)
             | (Some new_node, h) \<Rightarrow>
                 res_bind (hop (cells h) (nat (location - 1)) (head l)) (\<lambda>curr.
                 res_bind (deref_ptr (cells h) curr) (\<lambda>c.
                   let tmp = next c;
                       m = (cells h)(the curr \<mapsto> c\<lparr>next := Some new_node\<rparr>,
                                     new_node \<mapsto> \<lparr>data = d, next = tmp\<rparr>)
                   in Inr (0, Some (l\<lparr>len := len l + 1\<rparr>), h\<lparr>cells := m\<rparr>)))))"

text \<open>The removed node is returned and stays allocated: the caller frees it.\<close>

definition list_remove ::
    "linked_list option \<Rightarrow> int \<Rightarrow> 'a lheap \<Rightarrow> (addr option \<times> linked_list option \<times> 'a lheap) res" where
  "list_remove lst location h =
     (case lst of
        None \<Rightarrow> Inr (None, lst, h)
      | Some l \<Rightarrow>
          if location > len l \<or> location < 1 then Inr (None, lst, h)
          else
            res_bind (hop (cells h) (nat (location - 1)) (head l)) (\<lambda>curr.
            res_bind (deref_ptr (cells h) curr) (\<lambda>c.
            let tmp = next c in
            res_bind (deref_ptr (cells h) tmp) (\<lambda>t.
              Inr (tmp, Some (l\<lparr>len := len l - 1\<rparr>),
                   h\<lparr>cells := (cells h)(the curr \<mapsto> c\<lparr>next := next t\<rparr>)\<rparr>)))))"

definition list_index :: "linked_list option \<Rightarrow> int \<Rightarrow> 'a lheap \<Rightarrow> addr option res" where
  "list_index lst location h =
     (case lst of
        None \<Rightarrow> Inr None
      | Some l \<Rightarrow>
          if location > len l \<or> location < 1 then Inr None
          else hop (cells h) (nat location) (head l))"

fun delete_nodes :: "nat \<Rightarrow> addr option \<Rightarrow> 'a lheap \<Rightarrow> 'a lheap res" where
  "delete_nodes 0 nxt h = Inr h"
| "delete_nodes (Suc n) nxt h =
     res_bind (deref_ptr (cells h) nxt) (\<lambda>c. delete_nodes n (next c) (h_free nxt h))"

definition list_delete :: "linked_list option \<Rightarrow> 'a lheap \<Rightarrow> (int \<times> linked_list option \<times> 'a lheap) res" where
  "list_delete lst h =
     (case lst of
        None \<Rightarrow> Inr (-1, lst, h)
      | Some l \<Rightarrow>
          res_bind (delete_nodes (nat (len l + 1)) (head l) h) (\<lambda>h.
            Inr (0, Some (l\<lparr>len := 0\<rparr>), h)))"

section \<open>Linked segments\<close>

text \<open>
  \<open>lseg m p as xs q\<close>: from \<open>p\<close>, the nodes \<open>as\<close> with the data \<open>xs\<close> lead to the
  pointer \<open>q\<close>.
\<close>

fun lseg ::
    "(addr \<Rightarrow> 'a node option) \<Rightarrow> addr option \<Rightarrow> addr list \<Rightarrow> 'a list \<Rightarrow> addr option \<Rightarrow> bool" where
  "lseg m p [] [] q \<longleftrightarrow> p = q"
| "lseg m p (a # as) (x # xs) q \<longleftrightarrow>
     p = Some a \<and> (case m a of None \<Rightarrow> False | Some c \<Rightarrow> data c = x \<and> lseg m (next c) as xs q)"
| "lseg m p _ _ q \<longleftrightarrow> False"

lemma lseg_length: "lseg m p as xs q \<Longrightarrow> length as = length xs"
  by (induction m p as xs q rule: lseg.induct) (auto split: option.splits)

lemma lseg_append:
  "length as = length xs \<Longrightarrow>
   lseg m p (as @ bs) (xs @ ys) q \<longleftrightarrow> (\<exists>r. lseg m p as xs r \<and> lseg m r bs ys q)"
  by (induction as xs arbitrary: p rule: list_induct2) (auto split: option.splits)

lemma lseg_fun_upd [simp]: "b \<notin> set as \<Longrightarrow> lseg (m(b := v)) p as xs q = lseg m p as xs q"
  by (induction m p as xs q rule: lseg.induct) (auto split: option.splits)

lemma hop_lseg: "lseg m p as xs q \<Longrightarrow> hop m (length as) p = Inr q"
  by (induction m p as xs q rule: lseg.induct) (auto split: option.splits)

lemma lseg_split:
  assumes "lseg m p as xs q" and "n < length xs"
  obtains bs b cs c where
    "as = bs @ b # cs" and "length bs = n" and "lseg m p bs (take n xs) (Some b)"
    and "m b = Some c" and "data c = xs ! n" and "lseg m (next c) cs (drop (Suc n) xs) q"
proof -
  define bs b cs where "bs = take n as" and "b = as ! n" and "cs = drop (Suc n) as"
  have len: "length as = length xs" using assms(1) by (rule lseg_length)
  with assms(2) have as: "as = bs @ b # cs"
    by (simp add: bs_def b_def cs_def id_take_nth_drop [symmetric])
  from len assms(2) have "length bs = n" by (simp add: bs_def)
  have "lseg m p (bs @ b # cs) (take n xs @ xs ! n # drop (Suc n) xs) q"
    using assms as by (simp add: id_take_nth_drop [symmetric])
  then obtain r where "lseg m p bs (take n xs) r"
    and r: "lseg m r (b # cs) (xs ! n # drop (Suc n) xs) q"
    using \<open>length bs = n\<close> assms(2) by (auto simp: lseg_append)
  then show thesis
    using as \<open>length bs = n\<close> that by (auto split: option.splits)
qed

text \<open>
  A list in the store: its head node (with some datum \<open>g\<close>), then one node per element.
  The last next pointer is \<open>t\<close>; nothing in list.c sets it, so it is whatever the head
  node's next pointer was when the list was created.
\<close>

definition linked_rep :: "'a lheap \<Rightarrow> linked_list \<Rightarrow> addr list \<Rightarrow> 'a \<Rightarrow> 'a list \<Rightarrow> addr option \<Rightarrow> bool" where
  "linked_rep h l as g xs t \<longleftrightarrow>
     lseg (cells h) (head l) as (g # xs) t \<and> distinct as \<and> (\<forall>a\<in>set as. a < brk h) \<and>
     len l = int (length xs)"

lemma linked_rep_split:
  assumes "linked_rep h l as g xs t" and "n \<le> length xs"
  obtains bs b cs c where
    "as = bs @ b # cs" and "length bs = n" and "lseg (cells h) (head l) bs (take n (g # xs)) (Some b)"
    and "cells h b = Some c" and "data c = (g # xs) ! n"
    and "lseg (cells h) (next c) cs (drop n xs) t"
    and "distinct (bs @ b # cs)" and "b < brk h"
proof -
  from assms have seg: "lseg (cells h) (head l) as (g # xs) t" and "n < length (g # xs)"
    and d: "distinct as" and bd: "\<forall>a\<in>set as. a < brk h"
    by (auto simp: linked_rep_def)
  from lseg_split [OF seg \<open>n < length (g # xs)\<close>] show thesis
    using d bd that by (metis drop_Suc_Cons in_set_conv_decomp)
qed

section \<open>The pointer operations implement list operations\<close>

definition insert_at :: "int \<Rightarrow> 'a \<Rightarrow> 'a list \<Rightarrow> 'a list" where
  "insert_at location x xs = take (nat (location - 1)) xs @ x # drop (nat (location - 1)) xs"

definition remove_at :: "int \<Rightarrow> 'a list \<Rightarrow> 'a list" where
  "remove_at location xs = take (nat (location - 1)) xs @ drop (nat location) xs"

definition in_range :: "int \<Rightarrow> 'a list \<Rightarrow> bool" where
  "in_range location xs \<longleftrightarrow> 1 \<le> location \<and> location \<le> int (length xs)"

lemma list_insert_rep:
  assumes rep: "linked_rep h l as g xs t"
    and loc: "1 \<le> location" "location \<le> int (length xs) + 1"
    and ok: "\<not> fails h (brk h)"
  shows "\<exists>l' h' as'. list_insert (Some l) location d h = Inr (0, Some l', h') \<and>
           linked_rep h' l' as' g (insert_at location d xs) t"
proof -
  define n where "n = nat (location - 1)"
  have n: "n \<le> length xs" using loc by (simp add: n_def)
  from linked_rep_split [OF rep n] obtain bs b cs c where
    as: "as = bs @ b # cs" and bs: "length bs = n"
    and pre: "lseg (cells h) (head l) bs (take n (g # xs)) (Some b)"
    and c: "cells h b = Some c" "data c = (g # xs) ! n"
    and post: "lseg (cells h) (next c) cs (drop n xs) t"
    and dist: "distinct (bs @ b # cs)" and "b < brk h"
    by blast
  let ?new = "brk h"
  let ?m = "(cells h)(b \<mapsto> c\<lparr>next := Some ?new\<rparr>, ?new \<mapsto> \<lparr>data = d, next = next c\<rparr>)"
  let ?h = "h\<lparr>brk := Suc ?new, cells := ?m\<rparr>"
  let ?l = "l\<lparr>len := len l + 1\<rparr>"
  have fresh: "?new \<notin> set as" using rep by (auto simp: linked_rep_def)
  have run: "list_insert (Some l) location d h = Inr (0, Some ?l, ?h)"
    using rep loc ok hop_lseg [OF pre] c bs
    by (simp add: list_insert_def h_malloc_def linked_rep_def n_def)
  have eq: "g # insert_at location d xs = take n (g # xs) @ (g # xs) ! n # d # drop n xs"
    using n by (cases n)
      (auto simp: insert_at_def n_def [symmetric] take_Suc_conv_app_nth)
  have seg: "lseg ?m (head l) (bs @ b # ?new # cs) (g # insert_at location d xs) t"
    using pre post dist fresh c as bs n unfolding eq by (subst lseg_append) auto
  have "linked_rep ?h ?l (bs @ b # ?new # cs) g (insert_at location d xs) t"
    using seg rep as fresh dist n
    by (simp add: linked_rep_def) (auto simp: insert_at_def n_def [symmetric] less_Suc_eq)
  with run show ?thesis by blast
qed

lemma list_remove_rep:
  assumes rep: "linked_rep h l as g xs t" and loc: "in_range location xs"
  shows "\<exists>p l' h' as' c. list_remove (Some l) location h = Inr (Some p, Some l', h') \<and>
           cells h' p = Some c \<and> data c = xs ! nat (location - 1) \<and> p \<notin> set as' \<and>
           linked_rep h' l' as' g (remove_at location xs) t"
proof -
  define n where "n = nat (location - 1)"
  have n: "n < length xs" and n1: "nat location = Suc n"
    using loc by (auto simp: n_def in_range_def)
  from n have "n \<le> length xs" by simp
  from linked_rep_split [OF rep this] obtain bs b cs c where
    as: "as = bs @ b # cs" and bs: "length bs = n"
    and pre: "lseg (cells h) (head l) bs (take n (g # xs)) (Some b)"
    and c: "cells h b = Some c" "data c = (g # xs) ! n"
    and post: "lseg (cells h) (next c) cs (drop n xs) t"
    and dist: "distinct (bs @ b # cs)" and "b < brk h"
    by blast
  have dn: "drop n xs = xs ! n # drop (Suc n) xs" using n by (simp add: Cons_nth_drop_Suc)
  with post obtain p ds e where cs: "cs = p # ds" "next c = Some p" "cells h p = Some e"
      "data e = xs ! n" "lseg (cells h) (next e) ds (drop (Suc n) xs) t"
    by (cases cs) (auto split: option.splits)
  let ?m = "(cells h)(b \<mapsto> c\<lparr>next := next e\<rparr>)"
  let ?h = "h\<lparr>cells := ?m\<rparr>"
  let ?l = "l\<lparr>len := len l - 1\<rparr>"
  have run: "list_remove (Some l) location h = Inr (Some p, Some ?l, ?h)"
    using rep loc hop_lseg [OF pre] c bs cs
    by (simp add: list_remove_def linked_rep_def n_def in_range_def)
  have eq: "g # remove_at location xs = take n (g # xs) @ (g # xs) ! n # drop (Suc n) xs"
    using n n1 by (cases n)
      (auto simp: remove_at_def n_def [symmetric] take_Suc_conv_app_nth)
  have seg: "lseg ?m (head l) (bs @ b # ds) (g # remove_at location xs) t"
    using pre dist c as bs n cs unfolding eq by (subst lseg_append) auto
  have "linked_rep ?h ?l (bs @ b # ds) g (remove_at location xs) t"
    using seg rep as dist n n1 cs
    by (simp add: linked_rep_def) (auto simp: remove_at_def n_def [symmetric])
  moreover have "p \<notin> set (bs @ b # ds)" "p \<noteq> b" using dist cs by auto
  ultimately show ?thesis
    using run cs by (intro exI [of _ p] exI [of _ ?l] exI [of _ ?h] exI [of _ "bs @ b # ds"]
        exI [of _ e]) (simp add: n_def)
qed

lemma list_index_rep:
  assumes rep: "linked_rep h l as g xs t" and loc: "in_range location xs"
  shows "\<exists>p c. list_index (Some l) location h = Inr (Some p) \<and>
           cells h p = Some c \<and> data c = xs ! nat (location - 1)"
proof -
  define n where "n = nat location"
  have n: "n \<le> length xs" "0 < n" and pred: "nat (location - 1) = n - 1"
    using loc by (auto simp: n_def in_range_def)
  from linked_rep_split [OF rep n(1)] obtain bs b cs c where
    "as = bs @ b # cs" and bs: "length bs = n"
    and pre: "lseg (cells h) (head l) bs (take n (g # xs)) (Some b)"
    and c: "cells h b = Some c" "data c = (g # xs) ! n"
    and "lseg (cells h) (next c) cs (drop n xs) t"
    and "distinct (bs @ b # cs)" and "b < brk h"
    by blast
  have "list_index (Some l) location h = hop (cells h) n (head l)"
    using rep loc by (simp add: list_index_def linked_rep_def in_range_def n_def)
  also have "\<dots> = Inr (Some b)" using hop_lseg [OF pre] bs by simp
  finally have "list_index (Some l) location h = Inr (Some b)" .
  moreover have "data c = xs ! nat (location - 1)"
    unfolding pred using c(2) n(2) by (cases n) auto
  ultimately show ?thesis using c(1) by blast
qed

lemma list_ops_out_of_range:
  assumes "len l = int (length xs)"
  shows "location < 1 \<or> location > int (length xs) + 1 \<Longrightarrow>
           list_insert (Some l) location d h = Inr (ERROR, Some l, h)"
    and "\<not> in_range location xs \<Longrightarrow> list_remove (Some l) location h = Inr (None, Some l, h)"
    and "\<not> in_range location xs \<Longrightarrow> list_index (Some l) location h = Inr None"
  using assms by (auto simp: list_insert_def list_remove_def list_index_def in_range_def)

lemma delete_nodes_lseg:
  "lseg (cells h) p as xs q \<Longrightarrow> distinct as \<Longrightarrow>
   delete_nodes (length as) p h
     = Inr (h\<lparr>cells := (\<lambda>a. if a \<in> set as then None else cells h a)\<rparr>)"
proof (induction as arbitrary: p xs h)
  case Nil
  then show ?case by simp
next
  case (Cons a as)
  then obtain x ys c where xs: "xs = x # ys" and p: "p = Some a" and c: "cells h a = Some c"
    and seg: "lseg (cells h) (next c) as ys q"
    by (cases xs) (auto split: option.splits)
  let ?h = "h\<lparr>cells := (cells h)(a := None)\<rparr>"
  have "delete_nodes (length as) (next c) ?h
      = Inr (?h\<lparr>cells := (\<lambda>b. if b \<in> set as then None else cells ?h b)\<rparr>)"
  proof (rule Cons.IH)
    show "lseg (cells ?h) (next c) as ys q" using seg Cons.prems(2) by simp
    show "distinct as" using Cons.prems(2) by simp
  qed
  moreover have "(\<lambda>b. if b \<in> set as then None else cells ?h b)
      = (\<lambda>b. if b \<in> set (a # as) then None else cells h b)"
    by (auto simp: fun_eq_iff)
  ultimately show ?case using p c by (simp add: h_free_def)
qed

lemma list_delete_rep:
  assumes "linked_rep h l as g xs t"
  shows "list_delete (Some l) h = Inr (0, Some (l\<lparr>len := 0\<rparr>),
           h\<lparr>cells := (\<lambda>a. if a \<in> set as then None else cells h a)\<rparr>)"
proof -
  have "nat (len l + 1) = length as"
    using assms lseg_length [of "cells h" "head l" as "g # xs" t]
    by (simp add: linked_rep_def nat_add_distrib)
  then show ?thesis
    using assms delete_nodes_lseg [of h "head l" as "g # xs" t]
    by (simp add: list_delete_def linked_rep_def)
qed

section \<open>Walking a list by next pointers\<close>

text \<open>
  Most of the kernel's loops start at \<^verbatim>\<open>list_index(&l, 1)\<close> and follow next pointers until
  NULL. The data of the nodes visited, with fuel; \<open>None\<close> when the fuel runs out.
\<close>

fun walk :: "nat \<Rightarrow> (addr \<Rightarrow> 'a node option) \<Rightarrow> addr option \<Rightarrow> 'a list res option" where
  "walk fuel m None = Some (Inr [])"
| "walk 0 m (Some a) = None"
| "walk (Suc fuel) m (Some a) =
     (case m a of
        None \<Rightarrow> Some (Inl DanglingDeref)
      | Some c \<Rightarrow> map_option (\<lambda>r. res_bind r (\<lambda>xs. Inr (data c # xs))) (walk fuel m (next c)))"

definition scan :: "nat \<Rightarrow> linked_list \<Rightarrow> 'a lheap \<Rightarrow> 'a list res option" where
  "scan fuel l h =
     (case list_index (Some l) 1 h of Inl e \<Rightarrow> Some (Inl e) | Inr p \<Rightarrow> walk fuel (cells h) p)"

lemma walk_lseg:
  "lseg m p as xs q \<Longrightarrow>
   walk (length xs + k) m p = map_option (\<lambda>r. res_bind r (\<lambda>ys. Inr (xs @ ys))) (walk k m q)"
proof (induction m p as xs q rule: lseg.induct)
  case (1 m p q)
  then show ?case by (cases "walk k m q") (auto simp: res_bind_def split: sum.splits)
next
  case (2 m p a as x xs q)
  then show ?case
    by (cases "walk k m q") (auto simp: res_bind_def split: option.splits sum.splits)
qed auto

lemma scan_rep:
  assumes rep: "linked_rep h l as g xs t" and "xs \<noteq> []"
  shows "scan (length xs + k) l h
           = map_option (\<lambda>r. res_bind r (\<lambda>ys. Inr (xs @ ys))) (walk k (cells h) t)"
proof -
  have "0 \<le> length xs" by simp
  from linked_rep_split [OF rep this] obtain bs b cs c where
    "as = bs @ b # cs" and bs: "length bs = 0" "lseg (cells h) (head l) bs (take 0 (g # xs)) (Some b)"
    and c: "cells h b = Some c" and "data c = (g # xs) ! 0"
    and post: "lseg (cells h) (next c) cs (drop 0 xs) t"
    and "distinct (bs @ b # cs)" and "b < brk h"
    by blast
  from bs have "head l = Some b" by simp
  moreover have "1 \<le> length xs" using assms(2) by (cases xs) auto
  ultimately have "list_index (Some l) 1 h = Inr (next c)"
    using rep c assms(2) by (simp add: list_index_def linked_rep_def)
  with walk_lseg [OF post] show ?thesis by (simp add: scan_def)
qed

section \<open>The interface the kernel relies on\<close>

text \<open>
  A client's use of a list: insert at a position, take the element at a position out (the
  client reads the datum of the removed node and frees the node), read the element at a
  position.
\<close>

datatype 'a list_op = Insert int 'a | Take int | Read int

datatype 'a list_reply = Rc int | Elem "'a option"

text \<open>The reference: the same operations on HOL lists.\<close>

fun spec_op :: "'a list_op \<Rightarrow> 'a list \<Rightarrow> 'a list_reply \<times> 'a list" where
  "spec_op (Insert i x) xs =
     (if 1 \<le> i \<and> i \<le> int (length xs) + 1 then (Rc 0, insert_at i x xs) else (Rc ERROR, xs))"
| "spec_op (Take i) xs =
     (if in_range i xs then (Elem (Some (xs ! nat (i - 1))), remove_at i xs) else (Elem None, xs))"
| "spec_op (Read i) xs = (Elem (if in_range i xs then Some (xs ! nat (i - 1)) else None), xs)"

fun spec_run :: "'a list_op list \<Rightarrow> 'a list \<Rightarrow> 'a list_reply list \<times> 'a list" where
  "spec_run [] xs = ([], xs)"
| "spec_run (e # es) xs =
     (let (r, ys) = spec_op e xs; (rs, zs) = spec_run es ys in (r # rs, zs))"

text \<open>The implementation: the operations of list.c on a store.\<close>

fun node_data :: "(addr \<Rightarrow> 'a node option) \<Rightarrow> addr option \<Rightarrow> 'a option res" where
  "node_data m None = Inr None"
| "node_data m (Some a) = res_bind (deref m a) (\<lambda>c. Inr (Some (data c)))"

fun impl_op ::
    "'a list_op \<Rightarrow> linked_list \<times> 'a lheap \<Rightarrow> ('a list_reply \<times> linked_list \<times> 'a lheap) res" where
  "impl_op (Insert i x) (l, h) =
     res_bind (list_insert (Some l) i x h) (\<lambda>(rc, l', h'). Inr (Rc rc, the l', h'))"
| "impl_op (Take i) (l, h) =
     res_bind (list_remove (Some l) i h) (\<lambda>(p, l', h').
     res_bind (node_data (cells h') p) (\<lambda>d. Inr (Elem d, the l', h_free p h')))"
| "impl_op (Read i) (l, h) =
     res_bind (list_index (Some l) i h) (\<lambda>p.
     res_bind (node_data (cells h) p) (\<lambda>d. Inr (Elem d, l, h)))"

fun impl_run ::
    "('a list_op \<Rightarrow> 's \<Rightarrow> ('a list_reply \<times> 's) res) \<Rightarrow> 'a list_op list \<Rightarrow> 's \<Rightarrow>
     ('a list_reply list \<times> 's) res" where
  "impl_run f [] s = Inr ([], s)"
| "impl_run f (e # es) s =
     res_bind (f e s) (\<lambda>(r, s). res_bind (impl_run f es s) (\<lambda>(rs, s). Inr (r # rs, s)))"

locale position_list =
  fixes oper :: "'a list_op \<Rightarrow> 's \<Rightarrow> ('a list_reply \<times> 's) res"
    and models :: "'s \<Rightarrow> 'a list \<Rightarrow> bool"
  assumes oper_spec:
    "models s xs \<Longrightarrow>
       \<exists>s'. oper e s = Inr (fst (spec_op e xs), s') \<and> models s' (snd (spec_op e xs))"
begin

lemma run_spec:
  "models s xs \<Longrightarrow>
     \<exists>s'. impl_run oper es s = Inr (fst (spec_run es xs), s') \<and> models s' (snd (spec_run es xs))"
proof (induction es arbitrary: s xs)
  case Nil
  then show ?case by simp
next
  case (Cons e es)
  from oper_spec [OF Cons.prems, of e] obtain s1 where
    s1: "oper e s = Inr (fst (spec_op e xs), s1)" and m1: "models s1 (snd (spec_op e xs))"
    by blast
  from Cons.IH [OF m1] obtain s2 where
    "impl_run oper es s1 = Inr (fst (spec_run es (snd (spec_op e xs))), s2)"
    and "models s2 (snd (spec_run es (snd (spec_op e xs))))"
    by blast
  with s1 show ?case by (simp add: Let_def split_beta)
qed

text \<open>Appending at the end and taking from the front is first in, first out.\<close>

lemma fifo_front:
  assumes "models s (x # xs)"
  shows "\<exists>s'. impl_run oper [Insert (int (length xs) + 2) y, Take 1] s
           = Inr ([Rc 0, Elem (Some x)], s') \<and> models s' (xs @ [y])"
  using run_spec [OF assms, of "[Insert (int (length xs) + 2) y, Take 1]"]
  by (simp add: insert_at_def remove_at_def in_range_def nat_add_distrib)

end

text \<open>
  A list in the store whose allocator does not fail. The terminating pointer is existential:
  none of the three operations depends on it.
\<close>

definition heap_models :: "linked_list \<times> 'a lheap \<Rightarrow> 'a list \<Rightarrow> bool" where
  "heap_models s xs \<longleftrightarrow>
     (\<exists>as g t. linked_rep (snd s) (fst s) as g xs t) \<and> (\<forall>n. \<not> fails (snd s) n)"

lemma linked_rep_free:
  "linked_rep h l as g xs t \<Longrightarrow> p \<notin> set as \<Longrightarrow> linked_rep (h_free (Some p) h) l as g xs t"
  by (simp add: linked_rep_def h_free_def)

lemma fails_frame:
  "list_insert l i x h = Inr (rc, l', h') \<Longrightarrow> fails h' = fails h"
  "list_remove l i h = Inr (p, l', h') \<Longrightarrow> fails h' = fails h"
  "fails (h_free q h) = fails h"
  by (auto simp: list_insert_def list_remove_def h_malloc_def h_free_def Let_def
        split: option.splits if_splits)

lemma impl_insert_models:
  assumes "heap_models (l, h) xs"
  shows "\<exists>s'. impl_op (Insert i x) (l, h) = Inr (fst (spec_op (Insert i x) xs), s') \<and>
           heap_models s' (snd (spec_op (Insert i x) xs))"
proof -
  from assms obtain as g t where rep: "linked_rep h l as g xs t" and ok: "\<And>n. \<not> fails h n"
    by (auto simp: heap_models_def)
  show ?thesis
  proof (cases "1 \<le> i \<and> i \<le> int (length xs) + 1")
    case True
    with list_insert_rep [OF rep _ _ ok, of i x] obtain l' h' as' where
      run: "list_insert (Some l) i x h = Inr (0, Some l', h')"
      and "linked_rep h' l' as' g (insert_at i x xs) t"
      by blast
    moreover have "\<not> fails h' n" for n using fails_frame(1) [OF run] ok by simp
    ultimately show ?thesis using True by (auto simp: heap_models_def)
  next
    case False
    with rep assms list_ops_out_of_range(1) [of l xs i x h] show ?thesis
      by (auto simp: linked_rep_def heap_models_def not_le)
  qed
qed

lemma impl_take_models:
  assumes "heap_models (l, h) xs"
  shows "\<exists>s'. impl_op (Take i) (l, h) = Inr (fst (spec_op (Take i) xs), s') \<and>
           heap_models s' (snd (spec_op (Take i) xs))"
proof -
  from assms obtain as g t where rep: "linked_rep h l as g xs t" and ok: "\<And>n. \<not> fails h n"
    by (auto simp: heap_models_def)
  show ?thesis
  proof (cases "in_range i xs")
    case True
    from list_remove_rep [OF rep True] obtain p l' h' as' c where
      run: "list_remove (Some l) i h = Inr (Some p, Some l', h')"
      and c: "cells h' p = Some c" "data c = xs ! nat (i - 1)" and p: "p \<notin> set as'"
      and rep': "linked_rep h' l' as' g (remove_at i xs) t"
      by blast
    have "\<not> fails (h_free (Some p) h') n" for n
      using fails_frame(2) [OF run] fails_frame(3) ok by metis
    with run c linked_rep_free [OF rep' p] True show ?thesis
      by (auto simp: heap_models_def)
  next
    case False
    with rep assms list_ops_out_of_range(2) [of l xs i h] show ?thesis
      by (simp add: linked_rep_def heap_models_def h_free_def)
  qed
qed

lemma impl_read_models:
  assumes "heap_models (l, h) xs"
  shows "\<exists>s'. impl_op (Read i) (l, h) = Inr (fst (spec_op (Read i) xs), s') \<and>
           heap_models s' (snd (spec_op (Read i) xs))"
proof -
  from assms obtain as g t where rep: "linked_rep h l as g xs t"
    by (auto simp: heap_models_def)
  show ?thesis
  proof (cases "in_range i xs")
    case True
    with list_index_rep [OF rep True] assms show ?thesis by auto
  next
    case False
    with rep assms list_ops_out_of_range(3) [of l xs i h] show ?thesis
      by (simp add: linked_rep_def)
  qed
qed

interpretation list_c: position_list impl_op heap_models
proof
  fix s :: "linked_list \<times> 'a lheap" and xs and e :: "'a list_op"
  assume m: "heap_models s xs"
  obtain l h where s: "s = (l, h)" by (cases s)
  show "\<exists>s'. impl_op e s = Inr (fst (spec_op e xs), s') \<and> heap_models s' (snd (spec_op e xs))"
    using m unfolding s
    by (cases e) (simp_all only: impl_insert_models impl_take_models impl_read_models)
qed

end
