(* ===== verification/List_Properties.thy ===== *)
theory List_Properties
  imports Linked_List
begin

text \<open>
  What holds of list.c: every sequence of operations behaves as on a list value, deletion
  frees every node, and the walk by next pointers ends at the last element only when the
  creator of the list has cleared the head node.
\<close>

text \<open>A list as the kernel creates it: one head node; \<open>t\<close> is what malloc left in its next pointer.\<close>

definition new_list :: "addr option \<Rightarrow> linked_list \<times> nat lheap" where
  "new_list t =
     (\<lparr>head = Some 2, len = 0\<rparr>,
      \<lparr>cells = [2 \<mapsto> \<lparr>data = 0, next = t\<rparr>], fails = (\<lambda>_. False), brk = 3\<rparr>)"

lemma new_list_rep: "linked_rep (snd (new_list t)) (fst (new_list t)) [2] 0 [] t"
  by (simp add: linked_rep_def new_list_def)

lemma new_list_models: "heap_models (new_list t) []"
  unfolding heap_models_def using new_list_rep [of t] by (auto simp: new_list_def)

text \<open>
  C13: list.c implements lists with 1-based positions. From a store that holds the list
  \<open>xs\<close>, any sequence of insertions, removals (with the removed node freed) and index reads
  runs without a memory fault, gives the replies that the same sequence gives on the list
  value, errors for positions out of range included, and ends in a store that holds the
  resulting list. The value left in the last next pointer does not matter.
\<close>

theorem list_c_refines_lists:
  assumes "heap_models s xs"
  shows "\<exists>s'. impl_run impl_op es s = Inr (fst (spec_run es xs), s') \<and>
           heap_models s' (snd (spec_run es xs))"
  using assms by (rule list_c.run_spec)

theorem list_c_refines_lists_witness:
  "\<exists>s'. impl_run impl_op [Insert 1 7, Insert 2 (8::nat), Insert 5 9, Insert 1 6, Take 2, Read 2, Take 3]
          (new_list (Some 99))
        = Inr ([Rc 0, Rc 0, Rc ERROR, Rc 0, Elem (Some 7), Elem (Some 8), Elem None], s') \<and>
        heap_models s' [6, 8]"
  using list_c_refines_lists [OF new_list_models, of
      "[Insert 1 7, Insert 2 (8::nat), Insert 5 9, Insert 1 6, Take 2, Read 2, Take 3]" "Some 99"]
  by (simp add: insert_at_def remove_at_def in_range_def)

text \<open>
  List_delete returns 0, frees exactly the nodes of the list, the head node included,
  and leaves every other node alone.
\<close>

theorem list_delete_frees_nodes:
  assumes "linked_rep h l as g xs t"
  shows "list_delete (Some l) h = Inr (0, Some (l\<lparr>len := 0\<rparr>),
           h\<lparr>cells := (\<lambda>a. if a \<in> set as then None else cells h a)\<rparr>)"
  using assms by (rule list_delete_rep)

theorem list_delete_frees_nodes_witness:
  "list_delete (Some (fst (new_list None))) (snd (new_list None))
     = Inr (0, Some \<lparr>head = Some 2, len = 0\<rparr>,
         \<lparr>cells = Map.empty, fails = (\<lambda>_. False), brk = 3\<rparr>)"
  using list_delete_frees_nodes [OF new_list_rep [of None]]
  by (simp add: new_list_def fun_eq_iff)

text \<open>
  A loop that starts at the first element and follows next pointers until NULL visits
  exactly the elements of the list, in order, when the head node's next pointer was NULL at
  the creation of the list. When that pointer was some address that is not allocated, the
  loop visits the elements and then dereferences it.
\<close>

theorem walk_ends_only_if_head_cleared:
  assumes "linked_rep h l as g xs t" and "xs \<noteq> []"
  shows "(t = None \<longrightarrow> scan (length xs + k) l h = Some (Inr xs)) \<and>
         (t = Some q \<and> cells h q = None \<longrightarrow>
            scan (length xs + Suc k) l h = Some (Inl DanglingDeref))"
  using scan_rep [OF assms, of k] scan_rep [OF assms, of "Suc k"] by simp_all

theorem walk_ends_only_if_head_cleared_witness:
  "(\<exists>s. impl_run impl_op [Insert 1 (7::nat)] (new_list (Some 99)) = Inr ([Rc 0], s) \<and>
      scan 2 (fst s) (snd s) = Some (Inl DanglingDeref)) \<and>
   (\<exists>s. impl_run impl_op [Insert 1 (7::nat)] (new_list None) = Inr ([Rc 0], s) \<and>
      scan 1 (fst s) (snd s) = Some (Inr [7]))"
proof
  let ?l = "\<lparr>head = Some 2, len = 1\<rparr>"
  let ?h = "\<lambda>t. \<lparr>cells = [2 \<mapsto> \<lparr>data = 0, next = Some 3\<rparr>, 3 \<mapsto> \<lparr>data = 7::nat, next = t\<rparr>],
    fails = (\<lambda>_. False), brk = 4\<rparr>"
  have run: "impl_run impl_op [Insert 1 7] (new_list t) = Inr ([Rc 0], ?l, ?h t)" for t
    by (simp add: new_list_def list_insert_def h_malloc_def)
  have rep: "linked_rep (?h t) ?l [2, 3] 0 [7] t" for t by (simp add: linked_rep_def)
  show "\<exists>s. impl_run impl_op [Insert 1 7] (new_list (Some 99)) = Inr ([Rc 0], s) \<and>
      scan 2 (fst s) (snd s) = Some (Inl DanglingDeref)"
    using run [of "Some 99"] walk_ends_only_if_head_cleared [OF rep, of "Some 99" 0 99]
    by (simp add: numeral_2_eq_2)
  show "\<exists>s. impl_run impl_op [Insert 1 7] (new_list None) = Inr ([Rc 0], s) \<and>
      scan 1 (fst s) (snd s) = Some (Inr [7])"
    using run [of None] walk_ends_only_if_head_cleared [OF rep, of None 0] by simp
qed

end
