(* ===== verification/Hardware.thy ===== *)
theory Hardware
  imports Yalnix_Prelude
begin

text \<open>
  The machine the kernel runs on, as hardware.h describes it: page geometry, the two
  virtual memory regions, the rounding macros, page table entries, the user context pushed
  on a trap, trap numbers and terminal limits, with the arithmetic facts about page
  numbers that the memory code relies on. The kernel is built with -m32, so long, int and
  pointers are 32 bits wide.
\<close>

unbundle bit_operations_syntax

section \<open>Page geometry and memory layout\<close>

definition PAGESHIFT :: nat where [simp]: "PAGESHIFT = 13"
definition PAGESIZE :: nat where [simp]: "PAGESIZE = 0x2000"
definition PAGEOFFSET :: u32 where "PAGEOFFSET = 0x1FFF"
definition PAGEMASK :: u32 where "PAGEMASK = NOT PAGEOFFSET"

definition VMEM_REGION_SIZE :: u32 where [simp]: "VMEM_REGION_SIZE = 0x100000"
definition VMEM_0_BASE :: u32 where [simp]: "VMEM_0_BASE = 0"
definition VMEM_0_LIMIT :: u32 where [simp]: "VMEM_0_LIMIT = VMEM_0_BASE + VMEM_REGION_SIZE"
definition VMEM_1_BASE :: u32 where [simp]: "VMEM_1_BASE = VMEM_0_LIMIT"
definition VMEM_1_LIMIT :: u32 where [simp]: "VMEM_1_LIMIT = VMEM_1_BASE + VMEM_REGION_SIZE"
definition MAX_PT_LEN :: nat where [simp]: "MAX_PT_LEN = 128"

definition UP_TO_PAGE :: "u32 \<Rightarrow> u32" where
  "UP_TO_PAGE n = (n + PAGEOFFSET) AND PAGEMASK"

definition DOWN_TO_PAGE :: "u32 \<Rightarrow> u32" where
  "DOWN_TO_PAGE n = n AND PAGEMASK"

definition KERNEL_STACK_LIMIT :: u32 where [simp]: "KERNEL_STACK_LIMIT = VMEM_0_LIMIT"
definition KERNEL_STACK_BASE :: u32 where
  "KERNEL_STACK_BASE = DOWN_TO_PAGE (KERNEL_STACK_LIMIT - 2 * 0x2000)"

text \<open>
  Signed right shift by PAGESHIFT of a 32-bit value, read as an int: the C expressions
  \<^verbatim>\<open>(...) >> PAGESHIFT\<close> on long and int operands.
\<close>

definition page_of :: "u32 \<Rightarrow> int" where
  "page_of w = sint (signed_drop_bit PAGESHIFT w)"

definition TRAP_KERNEL :: int where [simp]: "TRAP_KERNEL = 0"
definition TRAP_CLOCK :: int where [simp]: "TRAP_CLOCK = 1"
definition TRAP_ILLEGAL :: int where [simp]: "TRAP_ILLEGAL = 2"
definition TRAP_MEMORY :: int where [simp]: "TRAP_MEMORY = 3"
definition TRAP_MATH :: int where [simp]: "TRAP_MATH = 4"
definition TRAP_TTY_RECEIVE :: int where [simp]: "TRAP_TTY_RECEIVE = 5"
definition TRAP_TTY_TRANSMIT :: int where [simp]: "TRAP_TTY_TRANSMIT = 6"
definition TRAP_DISK :: int where [simp]: "TRAP_DISK = 7"
definition TRAP_VECTOR_SIZE :: int where [simp]: "TRAP_VECTOR_SIZE = 16"

definition NUM_TERMINALS :: int where [simp]: "NUM_TERMINALS = 4"
definition TERMINAL_MAX_LINE :: int where [simp]: "TERMINAL_MAX_LINE = 1024"

definition PROT_NONE :: nat where [simp]: "PROT_NONE = 0"
definition PROT_READ :: nat where [simp]: "PROT_READ = 1"
definition PROT_WRITE :: nat where [simp]: "PROT_WRITE = 2"
definition PROT_EXEC :: nat where [simp]: "PROT_EXEC = 4"

text \<open>A page table entry; the 1-bit field valid is a bool.\<close>

record pte =
  valid :: bool
  prot :: nat
  pfn :: nat

definition null_pte :: pte where
  "null_pte = \<lparr>valid = False, prot = 0, pfn = 0\<rparr>"

lemma null_pte_simps [simp]: "valid null_pte = False" "prot null_pte = 0" "pfn null_pte = 0"
  by (simp_all add: null_pte_def)

text \<open>The user context pushed by the hardware on a trap; GREGS is 8.\<close>

record user_context =
  uc_vector :: int
  uc_code :: int
  uc_addr :: u32
  uc_pc :: u32
  uc_sp :: u32
  uc_ebp :: u32
  uc_regs :: "u32 list"

definition TLB_FLUSH_ALL :: int where [simp]: "TLB_FLUSH_ALL = -1"
definition TLB_FLUSH_0 :: int where [simp]: "TLB_FLUSH_0 = -2"
definition TLB_FLUSH_1 :: int where [simp]: "TLB_FLUSH_1 = -3"

text \<open>
  What the kernel asks of the hardware: register writes (a page table is named by the
  address of the pcb that holds it) and transmissions to terminals.
\<close>

datatype hwop =
    HW_VECTOR_BASE
  | HW_VM_ENABLE
  | HW_TLB_FLUSH int
  | HW_PTBR0
  | HW_PTLR0 nat
  | HW_PTBR1 addr
  | HW_PTLR1 nat
  | HW_TtyTransmit int "byte list"

section \<open>Facts about page numbers\<close>

lemma PAGEOFFSET_mask: "PAGEOFFSET = mask 13"
  by (simp add: PAGEOFFSET_def mask_eq_exp_minus_1)

lemma DOWN_TO_PAGE_shift: "DOWN_TO_PAGE n = push_bit 13 (drop_bit 13 n)"
  unfolding DOWN_TO_PAGE_def PAGEMASK_def PAGEOFFSET_mask
  by (rule bit_word_eqI) (auto simp: bit_simps)

lemma uint_push_drop: "uint (push_bit 13 (drop_bit 13 (n :: u32))) = uint n div 8192 * 8192"
proof -
  have le: "uint n div 8192 * 8192 \<le> uint n" by presburger
  have self: "take_bit 32 (uint n) = uint n"
    using uint_32_less [of n] by (intro take_bit_int_eq_self) auto
  have "uint (push_bit 13 (drop_bit 13 n)) = take_bit 32 (push_bit 13 (drop_bit 13 (uint n)))"
    by (simp add: unsigned_push_bit_eq unsigned_drop_bit_eq self)
  also have "\<dots> = take_bit 32 (uint n div 8192 * 8192)"
    by (simp add: push_bit_eq_mult drop_bit_eq_div)
  also have "\<dots> = uint n div 8192 * 8192"
    using le uint_32_less [of n] by (intro take_bit_int_eq_self) (auto simp: div_int_pos_iff)
  finally show ?thesis .
qed

lemma uint_DOWN_TO_PAGE: "uint (DOWN_TO_PAGE n) = uint n div 8192 * 8192"
  by (simp add: DOWN_TO_PAGE_shift uint_push_drop)

lemma UP_TO_PAGE_eq: "UP_TO_PAGE n = DOWN_TO_PAGE (n + PAGEOFFSET)"
  by (simp add: UP_TO_PAGE_def DOWN_TO_PAGE_def)

lemma uint_UP_TO_PAGE:
  assumes "uint n < 2 ^ 32 - 8191"
  shows "uint (UP_TO_PAGE n) = (uint n + 8191) div 8192 * 8192"
proof -
  have "uint (n + PAGEOFFSET) = uint n + 8191"
    using assms by (simp add: PAGEOFFSET_def uint_word_ariths)
  then show ?thesis by (simp add: UP_TO_PAGE_eq uint_DOWN_TO_PAGE)
qed

lemma page_of_small: "uint w < 2 ^ 31 \<Longrightarrow> page_of w = uint w div 8192"
  by (simp add: page_of_def sint_signed_drop_bit_eq sint_small drop_bit_eq_div)

text \<open>The page of region 1 that holds a user address.\<close>

definition user_pn :: "u32 \<Rightarrow> int" where
  "user_pn a = page_of (DOWN_TO_PAGE a - VMEM_1_BASE)"

lemma user_pn_region1:
  assumes lo: "0x100000 \<le> uint a" and hi: "uint a < 2 ^ 31"
  shows "user_pn a = (uint a - 0x100000) div 8192"
proof -
  have d: "uint (DOWN_TO_PAGE a) = uint a div 8192 * 8192" by (rule uint_DOWN_TO_PAGE)
  with lo have le: "VMEM_1_BASE \<le> DOWN_TO_PAGE a" by (simp add: word_le_def)
  have u: "uint (DOWN_TO_PAGE a - VMEM_1_BASE) = uint a div 8192 * 8192 - 0x100000"
    using uint_minus_le [OF le] d by simp
  moreover have "uint a div 8192 * 8192 \<le> uint a" by presburger
  ultimately have "page_of (DOWN_TO_PAGE a - VMEM_1_BASE)
      = (uint a div 8192 * 8192 - 0x100000) div 8192"
    using hi page_of_small [of "DOWN_TO_PAGE a - VMEM_1_BASE"] by simp
  also have "\<dots> = (uint a - 0x100000) div 8192" by simp
  finally show ?thesis by (simp add: user_pn_def)
qed

lemma KERNEL_STACK_BASE_eq [simp]: "KERNEL_STACK_BASE = 0xFC000"
  by (simp add: KERNEL_STACK_BASE_def DOWN_TO_PAGE_def PAGEMASK_def PAGEOFFSET_def)

end
