(* ===== verification/Kernel_State.thy ===== *)
theory Kernel_State
  imports Linked_List Hardware
begin

text \<open>
  The kernel's data: the structures of kernel.h and scheduler.h, the kernel's global
  variables as one record, the allocator, the kernel's use of list.c on values, and access
  to user memory through a page table.
\<close>

section \<open>Constants of kernel.h and scheduler.h\<close>

definition KILL :: int where [simp]: "KILL = 2012"
definition KERNEL_PAGETABLE_SIZE :: nat where [simp]: "KERNEL_PAGETABLE_SIZE = 128"
definition USER_PAGETABLE_SIZE :: nat where [simp]: "USER_PAGETABLE_SIZE = 128"
definition KERNEL_STACK_PAGETABLE_SIZE :: nat where [simp]: "KERNEL_STACK_PAGETABLE_SIZE = 2"
definition MAX_PROC :: int where [simp]: "MAX_PROC = 1000"
definition PIPE_BUF_SIZE :: int where [simp]: "PIPE_BUF_SIZE = 4096"

datatype proc_state = RUNNING | READY | WAITING | BLOCKED_W | BLOCKED_R | DELAY | TERMINATED

section \<open>Saved kernel contexts\<close>

text \<open>
  A process that gives up the processor inside the kernel is resumed at that point, on its
  own kernel stack. A saved kernel context is therefore the place in the code and the
  local variables that are still needed there:
  \<^item> \<open>K_Start\<close>: the end of KernelStart, where every new process starts;
  \<^item> \<open>K_Sched\<close>: do_scheduler, called by the clock handler;
  \<^item> \<open>K_Delay\<close>, \<open>K_Exit\<close>, \<open>K_Sem\<close>: after normal_schedule in sys_Delay, sys_Exit, sys_Custom_2;
  \<^item> \<open>K_Wait status_ptr i\<close>: after normal_schedule in sys_Wait;
  \<^item> \<open>K_TtyRead tty_id\<close>; \<open>K_TtyBusy tty_id remain_bytes\<close> and \<open>K_TtyDone tty_id remain_bytes\<close>:
    the two calls of normal_schedule in sys_TtyWrite;
  \<^item> \<open>K_PipeRead p pipe_id buf n exist\<close>; \<open>K_Acquire l lock_id exist\<close>;
  \<^item> \<open>K_CvarWait cvar_id lock_id\<close>: the call in sys_CvarWait itself;
    \<open>K_CvarAcquire l lock_id exist\<close>: in the sys_Acquire called by sys_CvarWait.
\<close>

datatype kcont =
    K_Start
  | K_Sched
  | K_Delay
  | K_Exit
  | K_Sem
  | K_Wait u32 int
  | K_TtyRead int
  | K_TtyBusy int int
  | K_TtyDone int int
  | K_PipeRead addr int u32 int bool
  | K_Acquire addr int bool
  | K_CvarWait int int
  | K_CvarAcquire addr int bool

section \<open>Structures\<close>

record pcb =
  state :: proc_state
  pid :: int
  ppid :: int
  children :: "int list"
  uctxt :: user_context
  kctxt :: kcont
  next_heap_pn :: int
  next_stack_pn :: int
  tty_id :: int
  io_buf :: u32
  io_len :: int
  u_page_table :: "pte list"
  k_stack_pt :: "pte list"

record sleep_info =
  ticks_left :: int
  sleep_pcb :: addr

record dead_info =
  dead_ppid :: int
  dead_pid :: int
  dead_status :: int

text \<open>The buffer of a pipe is its allocated block of PIPE_BUF_SIZE bytes.\<close>

record pipe_info =
  pipeid :: int
  cur_len :: int
  pipe_buffer :: "byte list"
  pipe_wait_list :: "addr list"

record lock_info =
  lockid :: int
  locked :: bool
  lock_pid :: int
  lock_wait_list :: "addr list"

record cvar_info =
  cvarid :: int
  cvar_wait_list :: "addr list"

record reclaim_info =
  reclaim_id :: int
  reclaim_type :: int

record semaphore =
  sem_id :: int
  sem_count :: int
  sem_waiting :: "addr list"

text \<open>
  Undefined behaviour after which execution can be followed further is logged: freeing a
  pointer into the middle of a block, and reading the next pointer of a node that was freed
  just before.
\<close>

datatype ub = FreeInterior | ReadFreedNode

text \<open>
  The line buffer of a terminal, an array of TERMINAL_MAX_LINE bytes, is the function from
  index to byte; the handlers stay within its bounds.
\<close>

record kstate =
  malloc_fails :: "nat \<Rightarrow> bool"
  malloc_cnt :: nat
  fresh_pcb :: "addr \<Rightarrow> pcb"
  pmem :: "nat \<Rightarrow> nat \<Rightarrow> byte"
  hw :: "hwop list"
  ub_log :: "ub list"
  vmem_enabled :: bool
  total_frames :: int
  free_frames :: "nat list"
  kernel_brk :: u32
  data_seg_limit :: u32
  data_seg_base :: u32
  next_pid :: int
  ready_queue :: "addr list"
  sleep_list :: "addr list"
  wait_list :: "addr list"
  io_list :: "addr list"
  dead_list :: "addr list"
  pipe_list :: "addr list"
  lock_list :: "addr list"
  cvar_list :: "addr list"
  reclaim_list :: "addr list"
  sem_list :: "addr list"
  next_sem :: int
  active_proc :: "addr option"
  p_idle :: "addr option"
  p_init :: "addr option"
  pcb_table :: "int \<Rightarrow> addr option"
  initial_kc :: kcont
  initial_ks :: "pte list"
  receive :: "int \<Rightarrow> nat \<Rightarrow> byte"
  busy_terminal :: "int list"
  string_len :: int
  krnl_page_table :: "pte list"
  pcbs :: "addr \<Rightarrow> pcb option"
  sleeps :: "addr \<Rightarrow> sleep_info option"
  deads :: "addr \<Rightarrow> dead_info option"
  pipes :: "addr \<Rightarrow> pipe_info option"
  locks :: "addr \<Rightarrow> lock_info option"
  cvars :: "addr \<Rightarrow> cvar_info option"
  reclaims :: "addr \<Rightarrow> reclaim_info option"
  sems :: "addr \<Rightarrow> semaphore option"

section \<open>Allocation\<close>

text \<open>
  malloc: the n-th call fails when \<open>malloc_fails\<close> says so, and otherwise returns an address
  that was never handed out before.
\<close>

definition malloc :: "kstate \<Rightarrow> addr option \<times> kstate" where
  "malloc s =
     (if malloc_fails s (malloc_cnt s) then None else Some (malloc_cnt s),
      s\<lparr>malloc_cnt := Suc (malloc_cnt s)\<rparr>)"

definition mem_ok :: "kstate \<Rightarrow> bool" where
  "mem_ok s \<longleftrightarrow> malloc_fails s = (\<lambda>_. False)"

lemma malloc_ok: "mem_ok s \<Longrightarrow> malloc s = (Some (malloc_cnt s), s\<lparr>malloc_cnt := Suc (malloc_cnt s)\<rparr>)"
  by (simp add: malloc_def mem_ok_def)

section \<open>The operations of list.c on the kernel's lists\<close>

text \<open>
  The kernel's lists are values here; \<^const>\<open>list_insert\<close> still allocates its node, so it
  can fail. The return code, the list and the state are returned.
\<close>

definition klist_insert :: "'a list \<Rightarrow> int \<Rightarrow> 'a \<Rightarrow> kstate \<Rightarrow> int \<times> 'a list \<times> kstate" where
  "klist_insert xs location x s =
     (if location > int (length xs) + 1 \<or> location < 1 then (ERROR, xs, s)
      else
        (case malloc s of
           (None, s) \<Rightarrow> (ERROR, xs, s)
         | (Some _, s) \<Rightarrow> (0, insert_at location x xs, s)))"

definition klist_append :: "'a list \<Rightarrow> 'a \<Rightarrow> kstate \<Rightarrow> int \<times> 'a list \<times> kstate" where
  "klist_append xs x s = klist_insert xs (int (length xs) + 1) x s"

definition klist_index :: "'a list \<Rightarrow> int \<Rightarrow> 'a option" where
  "klist_index xs location = (if in_range location xs then Some (xs ! nat (location - 1)) else None)"

definition klist_remove :: "'a list \<Rightarrow> int \<Rightarrow> 'a option \<times> 'a list" where
  "klist_remove xs location =
     (if in_range location xs then (Some (xs ! nat (location - 1)), remove_at location xs)
      else (None, xs))"

lemma insert_at_end [simp]: "insert_at (int (length xs) + 1) x xs = xs @ [x]"
  by (simp add: insert_at_def)

lemma klist_append_eq:
  "klist_append xs x s =
     (if malloc_fails s (malloc_cnt s) then (ERROR, xs, s\<lparr>malloc_cnt := Suc (malloc_cnt s)\<rparr>)
      else (0, xs @ [x], s\<lparr>malloc_cnt := Suc (malloc_cnt s)\<rparr>))"
  by (simp add: klist_append_def klist_insert_def malloc_def)

lemma klist_append_ok:
  "mem_ok s \<Longrightarrow> klist_append xs x s = (0, xs @ [x], s\<lparr>malloc_cnt := Suc (malloc_cnt s)\<rparr>)"
  by (simp add: klist_append_eq mem_ok_def)

lemma klist_remove_simps [simp]:
  "klist_remove [] 1 = (None, [])"
  "klist_remove (x # xs) 1 = (Some x, xs)"
  by (simp_all add: klist_remove_def in_range_def remove_at_def)

text \<open>The same contract as the pointer lists of list.c.\<close>

fun klist_op :: "'a list_op \<Rightarrow> 'a list \<times> kstate \<Rightarrow> ('a list_reply \<times> 'a list \<times> kstate) res" where
  "klist_op (Insert i x) (xs, s) = (case klist_insert xs i x s of (rc, ys, s) \<Rightarrow> Inr (Rc rc, ys, s))"
| "klist_op (Take i) (xs, s) = (case klist_remove xs i of (e, ys) \<Rightarrow> Inr (Elem e, ys, s))"
| "klist_op (Read i) (xs, s) = Inr (Elem (klist_index xs i), xs, s)"

definition klist_models :: "'a list \<times> kstate \<Rightarrow> 'a list \<Rightarrow> bool" where
  "klist_models s xs \<longleftrightarrow> fst s = xs \<and> mem_ok (snd s)"

interpretation klist: position_list klist_op klist_models
proof
  fix s :: "'a list \<times> kstate" and xs and e :: "'a list_op"
  assume "klist_models s xs"
  then show "\<exists>s'. klist_op e s = Inr (fst (spec_op e xs), s') \<and> klist_models s' (snd (spec_op e xs))"
    by (cases s; cases e)
      (auto simp: klist_models_def klist_insert_def klist_remove_def klist_index_def malloc_ok
        mem_ok_def)
qed

section \<open>Processes and queues\<close>

definition set_pcb :: "addr \<Rightarrow> (pcb \<Rightarrow> pcb) \<Rightarrow> kstate \<Rightarrow> kstate" where
  "set_pcb a f s = s\<lparr>pcbs := (pcbs s)(a := map_option f (pcbs s a))\<rparr>"

declare set_pcb_def [kernel_simps] malloc_def [kernel_simps] Let_def [kernel_simps]

text \<open>\<^verbatim>\<open>list_insert(&ready_queue, ready_queue.len+1, (void*)p)\<close>\<close>

definition ready_insert :: "addr \<Rightarrow> kstate \<Rightarrow> int \<times> kstate" where
  "ready_insert p s =
     (case klist_append (ready_queue s) p s of (rc, q, s) \<Rightarrow> (rc, s\<lparr>ready_queue := q\<rparr>))"

lemma ready_insert_ok:
  "mem_ok s \<Longrightarrow> ready_insert p s =
     (0, s\<lparr>malloc_cnt := Suc (malloc_cnt s), ready_queue := ready_queue s @ [p]\<rparr>)"
  by (simp add: ready_insert_def klist_append_ok)

text \<open>get_pcb: pcb_table has MAX_PROC entries.\<close>

definition get_pcb :: "int \<Rightarrow> kstate \<Rightarrow> addr option res" where
  "get_pcb p s =
     (if p > MAX_PROC - 1 then Inr None
      else if p < 0 then Inl OutOfBounds
      else Inr (pcb_table s p))"

definition sys_Getpid :: "kstate \<Rightarrow> int res" where
  "sys_Getpid s = res_bind (deref_ptr (pcbs s) (active_proc s)) (\<lambda>p. Inr (pid p))"

section \<open>User memory\<close>

text \<open>
  Translation of a user address by a page table of region 1: frame and offset. The
  protection bits are read as the hardware does, bit 0 for reading and bit 1 for writing.
\<close>

definition translate :: "pte list \<Rightarrow> nat \<Rightarrow> u32 \<Rightarrow> (nat \<times> nat) res" where
  "translate pt need a =
     (let n = unat a in
      if n < 0x100000 then Inl KernelMemAccess
      else if 0x200000 \<le> n then Inl KernelPageFault
      else
        (let i = (n - 0x100000) div PAGESIZE in
         if i < length pt \<and> valid (pt ! i) \<and> odd (prot (pt ! i) div need)
         then Inr (pfn (pt ! i), n mod PAGESIZE) else Inl KernelPageFault))"

fun vm_load :: "(nat \<Rightarrow> nat \<Rightarrow> byte) \<Rightarrow> pte list \<Rightarrow> u32 \<Rightarrow> nat \<Rightarrow> byte list res" where
  "vm_load m pt a 0 = Inr []"
| "vm_load m pt a (Suc n) =
     res_bind (translate pt PROT_READ a) (\<lambda>(f, i).
     res_bind (vm_load m pt (a + 1) n) (\<lambda>bs. Inr (m f i # bs)))"

fun vm_store ::
    "(nat \<Rightarrow> nat \<Rightarrow> byte) \<Rightarrow> pte list \<Rightarrow> u32 \<Rightarrow> byte list \<Rightarrow> (nat \<Rightarrow> nat \<Rightarrow> byte) res" where
  "vm_store m pt a [] = Inr m"
| "vm_store m pt a (b # bs) =
     res_bind (translate pt PROT_WRITE a) (\<lambda>(f, i).
       vm_store (m(f := (m f)(i := b))) pt (a + 1) bs)"

text \<open>A C int in memory: four bytes, least significant first.\<close>

definition int_bytes :: "int \<Rightarrow> byte list" where
  "int_bytes v = map (\<lambda>k. word_of_int (v div 256 ^ k)) [0 ..< 4]"

text \<open>Reads and writes through the page table of the running process.\<close>

definition user_load :: "u32 \<Rightarrow> nat \<Rightarrow> kstate \<Rightarrow> byte list res" where
  "user_load a n s =
     res_bind (deref_ptr (pcbs s) (active_proc s)) (\<lambda>p. vm_load (pmem s) (u_page_table p) a n)"

definition user_store :: "u32 \<Rightarrow> byte list \<Rightarrow> kstate \<Rightarrow> kstate res" where
  "user_store a bs s =
     res_bind (deref_ptr (pcbs s) (active_proc s)) (\<lambda>p.
     res_bind (vm_store (pmem s) (u_page_table p) a bs) (\<lambda>m. Inr (s\<lparr>pmem := m\<rparr>)))"

text \<open>Arguments of a call are in the user context's registers.\<close>

definition reg :: "user_context \<Rightarrow> nat \<Rightarrow> u32" where
  "reg uc i = uc_regs uc ! i"

definition set_ret :: "int \<Rightarrow> user_context \<Rightarrow> user_context" where
  "set_ret r uc = uc\<lparr>uc_regs := (uc_regs uc)[0 := word_of_int r]\<rparr>"

section \<open>How kernel code ends\<close>

text \<open>
  \<open>Done (Some r) s\<close>: the handler returns \<open>r\<close>, which the trap handler puts in register 0.
  \<open>Done None s\<close>: it returns without touching the registers. \<open>Yield k s\<close>: it calls
  normal_schedule, with \<open>k\<close> the rest of the code. \<open>Restart s\<close>: sys_Exec replaced the
  kernel context by the initial one.
\<close>

datatype kres = Done "int option" kstate | Yield kcont kstate | Restart kstate

end
