(* ===== verification/Frames.thy ===== *)
theory Frames
  imports Kernel_State
begin

text \<open>
  Physical frames and page tables: mem.c, the memory part of kernel.c, sys_Brk, stack
  growth and the release of a process's frames. Each frame has one owner (the free list, a
  process, the kernel, the saved initial kernel stack); the second half shows that every
  operation only moves frames between owners.
\<close>

section \<open>The free list\<close>

text \<open>Taking the head of the free list; 0 stands for failure.\<close>

fun grab :: "nat list \<Rightarrow> nat \<times> nat list" where
  "grab [] = (0, [])"
| "grab (f # fs) = (f, fs)"

definition grab_a_frame :: "kstate \<Rightarrow> nat \<times> kstate" where
  "grab_a_frame s =
     (case klist_remove (free_frames s) 1 of
        (None, _) \<Rightarrow> (0, s)
      | (Some f, fs) \<Rightarrow> (f, s\<lparr>free_frames := fs\<rparr>))"

lemma grab_a_frame_grab:
  "grab_a_frame s = (fst (grab (free_frames s)), s\<lparr>free_frames := snd (grab (free_frames s))\<rparr>)"
  by (cases "free_frames s") (simp_all add: grab_a_frame_def)

text \<open>\<^verbatim>\<open>for (i = from; i > stop; i--)\<close>\<close>

function count_down :: "int \<Rightarrow> int \<Rightarrow> int list" where
  "count_down i stop = (if i > stop then i # count_down (i - 1) stop else [])"
  by pat_completeness auto
termination
  by (relation "measure (\<lambda>(i, stop). nat (i - stop))") auto

declare count_down.simps [simp del]

text \<open>Appends frames one by one; stops at the first failing list_insert.\<close>

fun add_frames :: "int list \<Rightarrow> kstate \<Rightarrow> bool \<times> kstate" where
  "add_frames [] s = (True, s)"
| "add_frames (i # is) s =
     (case klist_append (free_frames s) (nat i) s of
        (rc, fs, s) \<Rightarrow>
          let s = s\<lparr>free_frames := fs\<rparr> in if rc \<noteq> 0 then (False, s) else add_frames is s)"

definition gather_free_frames :: "kstate \<Rightarrow> kstate" where
  "gather_free_frames s =
     (let s = s\<lparr>free_frames := []\<rparr> in
      case malloc s of
        (None, s) \<Rightarrow> s
      | (Some _, s) \<Rightarrow>
          (case add_frames (count_down (total_frames s - 1) (page_of VMEM_0_LIMIT - 1)) s of
             (False, s) \<Rightarrow> s
           | (True, s) \<Rightarrow>
               snd (add_frames (count_down (page_of KERNEL_STACK_BASE - 1)
                 (page_of (UP_TO_PAGE (kernel_brk s)) - 1)) s)))"

section \<open>Page tables\<close>

text \<open>
  \<^verbatim>\<open>for (i = from; i < to; i++)\<close> over a page table, with the entry at \<open>i\<close> rewritten.
\<close>

function fill :: "int \<Rightarrow> int \<Rightarrow> (int \<Rightarrow> pte \<Rightarrow> pte) \<Rightarrow> pte list \<Rightarrow> pte list res" where
  "fill i to f t =
     (if i < to then
        if 0 \<le> i \<and> i < int (length t) then fill (i + 1) to f (t[nat i := f i (t ! nat i)])
        else Inl OutOfBounds
      else Inr t)"
  by pat_completeness auto
termination
  by (relation "measure (\<lambda>(i, to, f, t). nat (to - i))") auto

declare fill.simps [simp del]

definition identity_entry :: "nat \<Rightarrow> int \<Rightarrow> pte \<Rightarrow> pte" where
  "identity_entry pr i e = \<lparr>valid = True, prot = pr, pfn = nat i\<rparr>"

definition enable_vmem :: "kstate \<Rightarrow> kstate res" where
  "enable_vmem s =
     res_bind (fill (page_of VMEM_0_BASE) (page_of VMEM_0_LIMIT) (\<lambda>_ e. e\<lparr>valid := False\<rparr>)
       (krnl_page_table s)) (\<lambda>t.
     res_bind (fill (page_of VMEM_0_BASE) (page_of (data_seg_base s))
       (identity_entry (PROT_READ + PROT_EXEC)) t) (\<lambda>t.
     res_bind (fill (page_of (data_seg_base s)) (page_of (data_seg_limit s))
       (identity_entry (PROT_READ + PROT_WRITE)) t) (\<lambda>t.
     res_bind (fill (page_of (data_seg_limit s)) (page_of (kernel_brk s))
       (identity_entry (PROT_READ + PROT_WRITE)) t) (\<lambda>t.
     res_bind (fill (page_of KERNEL_STACK_BASE) (page_of KERNEL_STACK_LIMIT)
       (identity_entry (PROT_READ + PROT_WRITE)) t) (\<lambda>t.
       Inr (s\<lparr>krnl_page_table := t,
              hw := hw s @ [HW_PTBR0, HW_PTLR0 KERNEL_PAGETABLE_SIZE, HW_VM_ENABLE],
              vmem_enabled := True\<rparr>))))))"

definition SetKernelData :: "u32 \<Rightarrow> u32 \<Rightarrow> kstate \<Rightarrow> kstate" where
  "SetKernelData start_addr end_addr s =
     s\<lparr>data_seg_base := start_addr, data_seg_limit := end_addr, kernel_brk := end_addr\<rparr>"

text \<open>
  \<^verbatim>\<open>for (i = from; i < to; i++)\<close>: take a frame, give up with \<open>False\<close> when there is
  none, map it at page \<open>i\<close> readable and writable. The loop of SetKernelBrk, of sys_Brk and
  of the text and data segments of load_program.
\<close>

function map_range ::
    "int \<Rightarrow> int \<Rightarrow> pte list \<Rightarrow> nat list \<Rightarrow> (bool \<times> pte list \<times> nat list) res" where
  "map_range i to t ff =
     (if i < to then
        (let (f, ff) = grab ff in
         if f = 0 then Inr (False, t, ff)
         else if 0 \<le> i \<and> i < int (length t) then
           map_range (i + 1) to
             (t[nat i := \<lparr>valid = True, prot = PROT_READ + PROT_WRITE, pfn = f\<rparr>]) ff
         else Inl OutOfBounds)
      else Inr (True, t, ff))"
  by pat_completeness auto
termination
  by (relation "measure (\<lambda>(i, to, t, ff). nat (to - i))") auto

declare map_range.simps [simp del]

text \<open>The kernel's break: pointers compare unsigned, the limit check casts to int.\<close>

definition SetKernelBrk :: "u32 \<Rightarrow> kstate \<Rightarrow> (int \<times> kstate) res" where
  "SetKernelBrk a s =
     (if \<not> vmem_enabled s then
        Inr (0, if a > kernel_brk s then s\<lparr>kernel_brk := a\<rparr> else s)
      else if a > kernel_brk s then
        if sint a \<ge> sint KERNEL_STACK_BASE then Inr (ERROR, s)
        else
          res_bind (map_range (page_of (kernel_brk s)) (page_of a) (krnl_page_table s) (free_frames s))
            (\<lambda>(ok, t, ff).
              let s = s\<lparr>krnl_page_table := t, free_frames := ff\<rparr> in
              if ok then Inr (0, s\<lparr>kernel_brk := a\<rparr>) else Inr (ERROR, s))
      else Inr (0, s))"

section \<open>User heap and stack\<close>

definition sys_Brk :: "user_context \<Rightarrow> kstate \<Rightarrow> kres res" where
  "sys_Brk uc s =
     res_bind (deref_ptr (pcbs s) (active_proc s)) (\<lambda>p.
     let a = the (active_proc s);
         pn_end = page_of (UP_TO_PAGE (reg uc 0) - VMEM_1_BASE);
         pn_start = next_heap_pn p
     in
     res_bind (map_range pn_start pn_end (u_page_table p) (free_frames s)) (\<lambda>(ok, t, ff).
       let s = set_pcb a (\<lambda>p. p\<lparr>u_page_table := t\<rparr>) (s\<lparr>free_frames := ff\<rparr>) in
       if ok then
         let s = set_pcb a (\<lambda>p. p\<lparr>next_heap_pn := pn_end\<rparr>) s in
         Inr (Done (Some 0) (s\<lparr>hw := hw s @ [HW_TLB_FLUSH TLB_FLUSH_1]\<rparr>))
       else Inr (Done (Some ERROR) s)))"

text \<open>
  The loop of trap_memory_hdl, downwards from the page below the stack. A missing frame is
  only reported: the page is valid all the same, with frame 0.
\<close>

function grow_stack :: "int \<Rightarrow> int \<Rightarrow> pte list \<Rightarrow> nat list \<Rightarrow> (pte list \<times> nat list) res" where
  "grow_stack i pn_end t ff =
     (if i > pn_end then
        if 0 \<le> i \<and> i < int (length t) then
          (let (f, ff) = grab ff in
           grow_stack (i - 1) pn_end
             (t[nat i := \<lparr>valid = True, prot = PROT_WRITE + PROT_READ, pfn = f\<rparr>]) ff)
        else Inl OutOfBounds
      else Inr (t, ff))"
  by pat_completeness auto
termination
  by (relation "measure (\<lambda>(i, pn_end, t, ff). nat (i - pn_end))") auto

declare grow_stack.simps [simp del]

text \<open>
  Giving the frames of a page table back, as sys_Exit and load_program do: every valid
  entry becomes invalid and its frame is put at the front of the free list, unless
  list_insert fails.
\<close>

fun free_table :: "pte list \<Rightarrow> kstate \<Rightarrow> pte list \<times> kstate" where
  "free_table [] s = ([], s)"
| "free_table (e # es) s =
     (if valid e then
        (case klist_insert (free_frames s) 1 (pfn e) s of
           (_, ff, s) \<Rightarrow>
             let (t, s) = free_table es (s\<lparr>free_frames := ff\<rparr>)
             in (e\<lparr>valid := False, prot := 0\<rparr> # t, s))
      else let (t, s) = free_table es s in (e # t, s))"

section \<open>The checks on user pointers\<close>

text \<open>
  The test shared by sys_Exec, sys_Wait, sys_PipeRead and sys_PipeWrite: \<open>True\<close> when the
  call goes on.
\<close>

definition user_addr_ok :: "u32 \<Rightarrow> pcb \<Rightarrow> bool" where
  "user_addr_ok a p \<longleftrightarrow>
     a \<noteq> 0 \<and> \<not> sint a < sint VMEM_1_BASE \<and>
     \<not> (user_pn a \<ge> next_heap_pn p \<and> user_pn a \<le> next_stack_pn p)"

section \<open>Who owns a frame\<close>

definition nonzero :: "nat list \<Rightarrow> nat multiset" where
  "nonzero fs = filter_mset (\<lambda>f. f \<noteq> 0) (mset fs)"

definition used :: "pte list \<Rightarrow> nat multiset" where
  "used t = nonzero (map pfn (filter valid t))"

text \<open>The frames a table maps, in page order.\<close>

definition page_frames :: "pte list \<Rightarrow> nat list" where
  "page_frames t = map pfn (filter valid t)"

lemma page_frames_simps [simp]:
  "page_frames [] = []" "page_frames (e # t) = (if valid e then pfn e # page_frames t else page_frames t)"
  by (simp_all add: page_frames_def)

datatype owner = Free | Proc addr | Kernel | Initial

fun frames_of :: "kstate \<Rightarrow> owner \<Rightarrow> nat multiset" where
  "frames_of s Free = nonzero (free_frames s)"
| "frames_of s (Proc a) =
     (case pcbs s a of None \<Rightarrow> {#} | Some p \<Rightarrow> used (u_page_table p) + used (k_stack_pt p))"
| "frames_of s Kernel = used (krnl_page_table s)"
| "frames_of s Initial = used (initial_ks s)"

definition isolated :: "('o \<Rightarrow> nat multiset) \<Rightarrow> bool" where
  "isolated F \<longleftrightarrow> (\<forall>a f. f \<in># F a \<longrightarrow> count (F a) f = 1 \<and> (\<forall>b. f \<in># F b \<longrightarrow> b = a))"

lemma isolated_transfer:
  assumes iso: "isolated F" and ab: "a \<noteq> b" and sub: "A + B \<subseteq># F a + F b"
    and G: "\<And>c. G c = (if c = a then A else if c = b then B else F c)"
  shows "isolated G"
proof -
  have le: "count A f + count B f \<le> count (F a) f + count (F b) f" for f
    using mset_subset_eq_count [OF sub, of f] by simp
  have one: "count (F a) f + count (F b) f \<le> 1" for f
  proof (cases "f \<in># F a")
    case True
    with iso ab have "count (F a) f = 1" "f \<notin># F b" unfolding isolated_def by blast+
    then show ?thesis by (simp add: not_in_iff)
  next
    case False
    with iso show ?thesis unfolding isolated_def
      by (cases "f \<in># F b") (auto simp: not_in_iff)
  qed
  have from_ab: "f \<in># A \<or> f \<in># B \<Longrightarrow> f \<in># F a \<or> f \<in># F b" for f
    using le [of f] by (auto simp: count_greater_zero_iff [symmetric] simp del: count_greater_zero_iff)
  have other: "f \<in># F c \<Longrightarrow> c \<noteq> a \<Longrightarrow> c \<noteq> b \<Longrightarrow> f \<notin># A \<and> f \<notin># B" for f c
    using iso from_ab [of f] unfolding isolated_def by blast
  have ab_one: "count A f + count B f \<le> 1" for f using le [of f] one [of f] by linarith
  show ?thesis unfolding isolated_def
  proof (intro allI impI conjI)
    fix c f assume f: "f \<in># G c"
    then have pos: "0 < count (G c) f" by simp
    show "count (G c) f = 1"
      using pos ab_one [of f] iso f unfolding G isolated_def
      by (simp add: count_greater_zero_iff [symmetric] split: if_splits del: count_greater_zero_iff)
    fix d assume d: "f \<in># G d"
    have AB: "\<not> (f \<in># A \<and> f \<in># B)"
      using ab_one [of f] by (auto simp: count_greater_zero_iff [symmetric] simp del: count_greater_zero_iff)
    show "d = c"
      using f d other [of f c] other [of f d] AB iso unfolding G isolated_def
      by (auto split: if_splits)
  qed
qed

lemma nonzero_simps [simp]:
  "nonzero [] = {#}"
  "nonzero (f # fs) = (if f = 0 then nonzero fs else add_mset f (nonzero fs))"
  "nonzero (xs @ ys) = nonzero xs + nonzero ys"
  by (simp_all add: nonzero_def)

lemma used_simps [simp]:
  "used [] = {#}"
  "used (e # t) = (if valid e \<and> pfn e \<noteq> 0 then add_mset (pfn e) (used t) else used t)"
  "used (xs @ ys) = used xs + used ys"
  by (simp_all add: used_def)

lemma used_update:
  assumes "i < length t"
  shows "used (t[i := e]) + used [t ! i] = used t + used [e]"
proof -
  have "t = take i t @ t ! i # drop (Suc i) t" using assms by (rule id_take_nth_drop)
  moreover have "t[i := e] = take i t @ e # drop (Suc i) t"
    using assms by (rule upd_conv_take_nth_drop)
  ultimately have "used t = used (take i t) + used [t ! i] + used (drop (Suc i) t)"
    and "used (t[i := e]) = used (take i t) + used [e] + used (drop (Suc i) t)"
    by (metis used_simps(3) append_Cons append_Nil add.assoc)+
  then show ?thesis by simp
qed

lemma used_update_sub: "i < length t \<Longrightarrow> used (t[i := e]) \<subseteq># used t + used [e]"
  using used_update [of i t e] by (metis mset_subset_eq_add_left)

lemma used_update_invalid:
  "i < length t \<Longrightarrow> \<not> valid (t ! i) \<Longrightarrow> used (t[i := e]) = used t + used [e]"
  using used_update [of i t e] by simp

text \<open>In terms of page table entries.\<close>

lemma used_member: "i < length t \<Longrightarrow> valid (t ! i) \<Longrightarrow> pfn (t ! i) = f \<Longrightarrow> f \<noteq> 0 \<Longrightarrow> f \<in># used t"
  by (auto simp: used_def nonzero_def in_set_conv_nth intro!: image_eqI [of _ _ "t ! i"])

lemma used_twice:
  assumes "i < j" and "j < length t" and "valid (t ! i)" "valid (t ! j)" and "pfn (t ! i) = f" "pfn (t ! j) = f" and "f \<noteq> 0"
  shows "2 \<le> count (used t) f"
proof -
  have t: "t = take j t @ t ! j # drop (Suc j) t" using assms(2) by (rule id_take_nth_drop)
  have "f \<in># used (take j t)" using assms by (intro used_member [of i]) simp_all
  then have "0 < count (used (take j t)) f" by (simp only: count_greater_zero_iff)
  moreover have "count (used t) f = count (used (take j t)) f + count (used (t ! j # drop (Suc j) t)) f"
    by (subst t) (simp only: used_simps(3) count_union)
  moreover have "1 \<le> count (used (t ! j # drop (Suc j) t)) f" using assms by simp
  ultimately show ?thesis by linarith
qed

lemma isolated_pages:
  assumes iso: "isolated (frames_of s)" and p: "pcbs s a = Some p" "i < length (u_page_table p)" "valid (u_page_table p ! i)"
    and q: "pcbs s b = Some q" "j < length (u_page_table q)" "valid (u_page_table q ! j)"
    and f: "pfn (u_page_table p ! i) = f" "pfn (u_page_table q ! j) = f" "f \<noteq> 0"
  shows "a = b \<and> i = j \<and> f \<notin> set (free_frames s) \<and> f \<notin># used (krnl_page_table s)"
proof -
  have a: "f \<in># frames_of s (Proc a)" "f \<in># frames_of s (Proc b)"
    using used_member [OF p(2,3) f(1,3)] used_member [OF q(2,3) f(2,3)] p(1) q(1) by simp_all
  have one: "count (frames_of s (Proc a)) f = 1" "a = b" using iso a unfolding isolated_def by blast+
  have "f \<notin># frames_of s Free" "f \<notin># frames_of s Kernel" using iso a(1) unfolding isolated_def by blast+
  moreover have "i = j"
  proof (rule ccontr)
    assume "i \<noteq> j"
    then have "2 \<le> count (used (u_page_table p)) f"
      using used_twice [of i j "u_page_table p" f] used_twice [of j i "u_page_table p" f] p q f one(2)
      by (auto simp: neq_iff)
    with one(1) p(1) show False by simp
  qed
  ultimately show ?thesis using one(2) f(3) by (auto simp: nonzero_def)
qed

lemma nonzero_grab:
  "grab ff = (f, ff') \<Longrightarrow> nonzero ff = nonzero ff' + used [\<lparr>valid = True, prot = p, pfn = f\<rparr>]"
  by (cases ff) auto

lemma map_range_step:
  assumes "grab ff = (f, ff')"
  shows "map_range i to t ff =
     (if i < to then
        if f = 0 then Inr (False, t, ff')
        else if 0 \<le> i \<and> i < int (length t) then
          map_range (i + 1) to (t[nat i := \<lparr>valid = True, prot = PROT_READ + PROT_WRITE, pfn = f\<rparr>]) ff'
        else Inl OutOfBounds
      else Inr (True, t, ff))"
  using assms by (subst map_range.simps) simp

lemma map_range_frames:
  assumes "map_range i to t ff = Inr (ok, t', ff')"
  shows "used t' + nonzero ff' \<subseteq># used t + nonzero ff \<and> length t' = length t"
  using assms
proof (induction i to t ff rule: map_range.induct)
  case (1 i to t ff)
  obtain f ff1 where g: "grab ff = (f, ff1)" by (cases "grab ff")
  let ?e = "\<lparr>valid = True, prot = PROT_READ + PROT_WRITE, pfn = f\<rparr>"
  have nz: "nonzero ff = nonzero ff1 + used [?e]" using g by (rule nonzero_grab)
  show ?case
  proof (cases "i < to \<and> f \<noteq> 0")
    case True
    with "1.prems" map_range_step [OF g, of i to t] have r: "0 \<le> i" "i < int (length t)"
      "map_range (i + 1) to (t[nat i := ?e]) ff1 = Inr (ok, t', ff')"
      by (auto split: if_splits)
    with "1.IH" True g have "used t' + nonzero ff' \<subseteq># used (t[nat i := ?e]) + nonzero ff1"
      and len: "length t' = length t"
      by auto
    moreover have "used (t[nat i := ?e]) + nonzero ff1 \<subseteq># used t + nonzero ff"
      using used_update_sub [of "nat i" t ?e] r nz by (simp add: ac_simps subset_mset.add_mono)
    ultimately show ?thesis by (auto intro: subset_mset.order_trans)
  next
    case False
    with "1.prems" map_range_step [OF g, of i to t] nz show ?thesis by (auto split: if_splits)
  qed
qed


definition rw_entry :: "nat \<Rightarrow> pte" where
  "rw_entry f = \<lparr>valid = True, prot = PROT_READ + PROT_WRITE, pfn = f\<rparr>"

text \<open>With enough frames, \<^const>\<open>map_range\<close> maps the pages of the range to the first frames in order.\<close>

lemma map_range_exact:
  assumes "0 \<le> i" and "i + int n \<le> int (length t)"
    and "n \<le> length ff" and "0 \<notin> set (take n ff)"
  shows "map_range i (i + int n) t ff =
           Inr (True, take (nat i) t @ map rw_entry (take n ff) @ drop (nat i + n) t, drop n ff)"
  using assms
proof (induction n arbitrary: i t ff)
  case 0
  then show ?case by (subst map_range.simps) simp
next
  case (Suc n)
  then obtain f fs where ff: "ff = f # fs" by (cases ff) auto
  with Suc.prems have f: "f \<noteq> 0" "0 \<notin> set (take n fs)" "n \<le> length fs"
    and i: "nat i < length t" "0 \<le> i + 1" "nat (i + 1) = Suc (nat i)"
    by auto
  let ?t = "t[nat i := rw_entry f]"
  have "map_range i (i + int (Suc n)) t ff = map_range (i + 1) (i + 1 + int n) ?t fs"
    using Suc.prems f i ff by (subst map_range.simps) (simp add: rw_entry_def ac_simps)
  also have "\<dots> = Inr (True, take (nat (i + 1)) ?t @ map rw_entry (take n fs) @
      drop (nat (i + 1) + n) ?t, drop n fs)"
    using Suc.prems f i by (intro Suc.IH) auto
  also have "take (nat (i + 1)) ?t = take (nat i) t @ [rw_entry f]"
    using i by (simp add: take_Suc_conv_app_nth)
  finally show ?case using i ff by simp
qed

lemma map_range_short:
  assumes "0 \<le> i" and "i + int n \<le> int (length t)"
    and "length ff < n" and "0 \<notin> set ff"
  shows "\<exists>t'. map_range i (i + int n) t ff = Inr (False, t', [])"
  using assms
proof (induction ff arbitrary: i n t)
  case Nil
  then show ?case by (subst map_range.simps) auto
next
  case (Cons f fs)
  then obtain m where n: "n = Suc m" by (cases n) auto
  let ?t = "t[nat i := rw_entry f]"
  have "map_range i (i + int n) t (f # fs) = map_range (i + 1) (i + 1 + int m) ?t fs"
    using Cons.prems n by (subst map_range.simps) (simp add: rw_entry_def ac_simps)
  moreover have "\<exists>t'. map_range (i + 1) (i + 1 + int m) ?t fs = Inr (False, t', [])"
    using Cons.prems n by (intro Cons.IH) auto
  ultimately show ?case by simp
qed

lemma grow_stack_step:
  assumes "grab ff = (f, ff')"
  shows "grow_stack i pn_end t ff =
     (if i > pn_end then
        if 0 \<le> i \<and> i < int (length t) then
          grow_stack (i - 1) pn_end (t[nat i := \<lparr>valid = True, prot = PROT_WRITE + PROT_READ, pfn = f\<rparr>]) ff'
        else Inl OutOfBounds
      else Inr (t, ff))"
  using assms by (subst grow_stack.simps) simp

lemma grow_stack_frames:
  assumes "grow_stack i pn_end t ff = Inr (t', ff')"
  shows "used t' + nonzero ff' \<subseteq># used t + nonzero ff \<and> length t' = length t"
  using assms
proof (induction i pn_end t ff rule: grow_stack.induct)
  case (1 i pn_end t ff)
  obtain f ff1 where g: "grab ff = (f, ff1)" by (cases "grab ff")
  let ?e = "\<lparr>valid = True, prot = PROT_WRITE + PROT_READ, pfn = f\<rparr>"
  have nz: "nonzero ff = nonzero ff1 + used [?e]" using g by (rule nonzero_grab)
  show ?case
  proof (cases "i > pn_end")
    case True
    with "1.prems" grow_stack_step [OF g, of i pn_end t] have r: "0 \<le> i" "i < int (length t)"
      "grow_stack (i - 1) pn_end (t[nat i := ?e]) ff1 = Inr (t', ff')"
      by (auto split: if_splits)
    with "1.IH" True g have "used t' + nonzero ff' \<subseteq># used (t[nat i := ?e]) + nonzero ff1"
      and "length t' = length t"
      by auto
    moreover have "used (t[nat i := ?e]) + nonzero ff1 \<subseteq># used t + nonzero ff"
      using used_update_sub [of "nat i" t ?e] r nz by (simp add: ac_simps subset_mset.add_mono)
    ultimately show ?thesis by (auto intro: subset_mset.order_trans)
  next
    case False
    with "1.prems" grow_stack_step [OF g, of i pn_end t] show ?thesis by (auto split: if_splits)
  qed
qed

definition invalidate :: "pte \<Rightarrow> pte" where
  "invalidate e = (if valid e then e\<lparr>valid := False, prot := 0\<rparr> else e)"

lemma insert_at_front [simp]: "insert_at 1 x xs = x # xs"
  by (simp add: insert_at_def)

lemma klist_insert_front:
  "klist_insert xs 1 x s =
     (if malloc_fails s (malloc_cnt s) then (ERROR, xs, s\<lparr>malloc_cnt := Suc (malloc_cnt s)\<rparr>)
      else (0, x # xs, s\<lparr>malloc_cnt := Suc (malloc_cnt s)\<rparr>))"
  by (simp add: klist_insert_def malloc_def)

lemma free_table_ok:
  assumes "mem_ok s"
  shows "free_table t s = (map invalidate t,
           s\<lparr>malloc_cnt := malloc_cnt s + length (filter valid t),
             free_frames := rev (map pfn (filter valid t)) @ free_frames s\<rparr>)"
  using assms
  by (induction t arbitrary: s)
    (simp_all add: klist_insert_front mem_ok_def invalidate_def Let_def)

lemma free_table_frames:
  "free_table t s = (t', s') \<Longrightarrow>
     used t' = {#} \<and> nonzero (free_frames s') \<subseteq># used t + nonzero (free_frames s)"
proof (induction t arbitrary: s t' s')
  case Nil
  then show ?case by simp
next
  case (Cons e t)
  show ?case
  proof (cases "valid e")
    case True
    define s1 where "s1 = s\<lparr>malloc_cnt := Suc (malloc_cnt s),
      free_frames := (if malloc_fails s (malloc_cnt s) then free_frames s else pfn e # free_frames s)\<rparr>"
    obtain t1 s2 where r: "free_table t s1 = (t1, s2)" by (cases "free_table t s1")
    with Cons.prems True have "t' = e\<lparr>valid := False, prot := 0\<rparr> # t1" "s' = s2"
      by (auto simp: klist_insert_front s1_def split: if_splits)
    moreover have "used t1 = {#} \<and> nonzero (free_frames s2) \<subseteq># used t + nonzero (free_frames s1)"
      by (rule Cons.IH [OF r])
    moreover have "used t + nonzero (free_frames s1) \<subseteq># used (e # t) + nonzero (free_frames s)"
      using True by (auto simp: s1_def)
    ultimately show ?thesis by (auto intro: subset_mset.order_trans)
  next
    case False
    obtain t1 s2 where r: "free_table t s = (t1, s2)" by (cases "free_table t s")
    with Cons.prems False Cons.IH [OF r] show ?thesis by auto
  qed
qed

lemma count_down_upto: "count_down i stop = rev [stop + 1..i]"
proof (induction i stop rule: count_down.induct)
  case (1 i stop)
  show ?case
  proof (cases "i > stop")
    case True
    then have "[stop + 1..i] = [stop + 1..i - 1] @ [i]" by (simp add: upto_rec2)
    with True "1.IH" show ?thesis by (subst count_down.simps) simp
  next
    case False
    then show ?thesis by (subst count_down.simps) simp
  qed
qed

lemma add_frames_ok:
  "mem_ok s \<Longrightarrow> add_frames is s =
     (True, s\<lparr>malloc_cnt := malloc_cnt s + length is, free_frames := free_frames s @ map nat is\<rparr>)"
  by (induction "is" arbitrary: s) (simp_all add: klist_append_eq mem_ok_def)

lemma gather_free_frames_eq:
  assumes "mem_ok s" and "uint (kernel_brk s) \<le> 0xFC000"
  shows "free_frames (gather_free_frames s) =
           rev (map nat [128..total_frames s - 1]) @
           rev (map nat [(uint (kernel_brk s) + 8191) div 8192..125])"
proof -
  have "uint (UP_TO_PAGE (kernel_brk s)) = (uint (kernel_brk s) + 8191) div 8192 * 8192"
    using assms(2) by (intro uint_UP_TO_PAGE) simp
  moreover from this have "page_of (UP_TO_PAGE (kernel_brk s)) = (uint (kernel_brk s) + 8191) div 8192"
    using assms(2) by (subst page_of_small) auto
  moreover have "page_of VMEM_0_LIMIT = 128" "page_of KERNEL_STACK_BASE = 126"
    by (simp_all add: page_of_small)
  ultimately show ?thesis
    using assms(1)
    by (simp add: gather_free_frames_def malloc_ok add_frames_ok mem_ok_def count_down_upto rev_map)
qed

lemma gather_free_frames_set:
  assumes "mem_ok s" and "uint (kernel_brk s) \<le> 0xFC000" and "128 \<le> total_frames s"
  shows "distinct (free_frames (gather_free_frames s))"
    and "set (free_frames (gather_free_frames s)) =
           {f. f < nat (total_frames s) \<and> uint (kernel_brk s) \<le> 8192 * int f \<and> f \<noteq> 126 \<and> f \<noteq> 127}"
proof -
  let ?b = "(uint (kernel_brk s) + 8191) div 8192"
  have b: "0 \<le> ?b" "?b \<le> 126" using assms(2) by (simp_all add: div_int_pos_iff)
  have "distinct (map nat [128..total_frames s - 1])" "distinct (map nat [?b..125])"
    using b by (auto simp: distinct_map inj_on_def)
  moreover have "set (map nat [128..total_frames s - 1]) = {f. 128 \<le> f \<and> f < nat (total_frames s)}"
  proof (intro equalityI subsetI)
    fix f assume "f \<in> {f. 128 \<le> f \<and> f < nat (total_frames s)}"
    then have "int f \<in> {128..total_frames s - 1}" "f = nat (int f)" by auto
    then show "f \<in> set (map nat [128..total_frames s - 1])" by (metis image_eqI set_map set_upto)
  qed auto
  moreover have "set (map nat [?b..125]) = {f. f < 126 \<and> uint (kernel_brk s) \<le> 8192 * int f}"
  proof (intro equalityI subsetI)
    fix f assume "f \<in> {f. f < 126 \<and> uint (kernel_brk s) \<le> 8192 * int f}"
    then have "int f \<in> {?b..125}" "f = nat (int f)" by auto
    then show "f \<in> set (map nat [?b..125])" by (metis image_eqI set_map set_upto)
  qed (use b in auto)
  ultimately show "distinct (free_frames (gather_free_frames s))"
    and "set (free_frames (gather_free_frames s)) =
           {f. f < nat (total_frames s) \<and> uint (kernel_brk s) \<le> 8192 * int f \<and> f \<noteq> 126 \<and> f \<noteq> 127}"
    using assms(2,3) unfolding gather_free_frames_eq [OF assms(1,2)] by auto
qed

lemma gather_free_frames_effect: "mem_ok s \<Longrightarrow> \<exists>n ff. gather_free_frames s = s\<lparr>malloc_cnt := n, free_frames := ff\<rparr>"
  by (auto simp: gather_free_frames_def malloc_ok add_frames_ok mem_ok_def)

text \<open>What \<^const>\<open>fill\<close> does to the table when the range is within bounds.\<close>

lemma fill_exact:
  "0 \<le> i \<Longrightarrow> to \<le> int (length t) \<Longrightarrow> \<exists>t'. fill i to f t = Inr t' \<and> length t' = length t \<and>
     (\<forall>j<length t. t' ! j = (if i \<le> int j \<and> int j < to then f (int j) (t ! j) else t ! j))"
proof (induction i to f t rule: fill.induct)
  case (1 i to f t)
  show ?case
  proof (cases "i < to")
    case True
    let ?t = "t[nat i := f i (t ! nat i)]"
    from "1.IH" [OF True] "1.prems" True obtain t' where t': "fill (i + 1) to f ?t = Inr t'" "length t' = length t"
      "\<forall>j<length t. t' ! j = (if i + 1 \<le> int j \<and> int j < to then f (int j) (?t ! j) else ?t ! j)"
      by auto
    have "t' ! j = (if i \<le> int j \<and> int j < to then f (int j) (t ! j) else t ! j)" if "j < length t" for j
      using t'(3) [rule_format, OF that] that True "1.prems" by (cases "j = nat i") (auto simp: nat_eq_iff)
    moreover have "fill i to f t = Inr t'" using t'(1) True "1.prems" by (simp add: fill.simps [of i])
    ultimately show ?thesis using t'(2) by blast
  next
    case False
    then show ?thesis by (auto simp: fill.simps [of i])
  qed
qed

section \<open>The contract of every operation on frames\<close>

text \<open>
  An operation on behalf of one owner (its peer) may exchange frames between the free list
  and that owner and lose some; it touches no other owner. Such operations keep all owners
  apart.
\<close>

locale frame_client =
  fixes oper :: "kstate \<Rightarrow> kstate \<Rightarrow> bool"
    and peer :: "kstate \<Rightarrow> owner"
  assumes peer_not_Free: "oper s s' \<Longrightarrow> peer s \<noteq> Free"
    and exchange: "oper s s' \<Longrightarrow>
      frames_of s' Free + frames_of s' (peer s) \<subseteq># frames_of s Free + frames_of s (peer s)"
    and others: "oper s s' \<Longrightarrow> c \<noteq> Free \<Longrightarrow> c \<noteq> peer s \<Longrightarrow> frames_of s' c = frames_of s c"
begin

lemma keeps_isolation:
  assumes "oper s s'" and "isolated (frames_of s)"
  shows "isolated (frames_of s')"
proof (rule isolated_transfer)
  show "isolated (frames_of s)" by (rule assms(2))
  show "Free \<noteq> peer s" using peer_not_Free [OF assms(1)] by simp
  show "frames_of s' Free + frames_of s' (peer s) \<subseteq># frames_of s Free + frames_of s (peer s)"
    by (rule exchange [OF assms(1)])
  show "frames_of s' c = (if c = Free then frames_of s' Free
      else if c = peer s then frames_of s' (peer s) else frames_of s c)" for c
    using others [OF assms(1), of c] by simp
qed

text \<open>A new frame of the peer comes from the free list, and no other owner has it.\<close>

lemma new_frame_was_free:
  assumes "oper s s'" and "f \<in># frames_of s' (peer s)" and "f \<notin># frames_of s (peer s)"
  shows "f \<in># frames_of s Free"
  using mset_subset_eqD [OF exchange [OF assms(1)], of f] assms(2,3) by auto

end

lemma set_pcb_Some: "pcbs s a = Some p \<Longrightarrow> set_pcb a f s = s\<lparr>pcbs := (pcbs s)(a \<mapsto> f p)\<rparr>"
  by (simp add: set_pcb_def)

section \<open>sys_Brk and SetKernelBrk\<close>

definition brk_step :: "kstate \<Rightarrow> kstate \<Rightarrow> bool" where
  "brk_step s s' \<longleftrightarrow> (\<exists>uc r. sys_Brk uc s = Inr (Done r s'))"

definition running :: "kstate \<Rightarrow> owner" where
  "running s = Proc (the (active_proc s))"

lemma sys_Brk_eq:
  assumes "active_proc s = Some a" and "pcbs s a = Some p"
    and "map_range (next_heap_pn p) (page_of (UP_TO_PAGE (reg uc 0) - VMEM_1_BASE))
           (u_page_table p) (free_frames s) = Inr (ok, t, ff)"
  shows "sys_Brk uc s =
     (if ok then
        Inr (Done (Some 0) (s\<lparr>free_frames := ff, hw := hw s @ [HW_TLB_FLUSH TLB_FLUSH_1],
          pcbs := (pcbs s)(a \<mapsto> p\<lparr>u_page_table := t,
            next_heap_pn := page_of (UP_TO_PAGE (reg uc 0) - VMEM_1_BASE)\<rparr>)\<rparr>))
      else
        Inr (Done (Some ERROR) (s\<lparr>free_frames := ff,
          pcbs := (pcbs s)(a \<mapsto> p\<lparr>u_page_table := t\<rparr>)\<rparr>)))"
  using assms by (simp add: sys_Brk_def set_pcb_Some Let_def del: VMEM_1_BASE_def)

lemma sys_Brk_result:
  assumes "sys_Brk uc s = Inr (Done r s')"
  obtains a p ok t ff where "active_proc s = Some a" and "pcbs s a = Some p"
    and "map_range (next_heap_pn p) (page_of (UP_TO_PAGE (reg uc 0) - VMEM_1_BASE))
           (u_page_table p) (free_frames s) = Inr (ok, t, ff)"
proof -
  obtain a where a: "active_proc s = Some a"
    using assms by (cases "active_proc s") (auto simp: sys_Brk_def)
  with assms obtain p where p: "pcbs s a = Some p"
    by (auto simp: sys_Brk_def)
  from assms a p that show thesis
    by (auto simp: sys_Brk_def Let_def simp del: VMEM_1_BASE_def)
qed

interpretation brk: frame_client brk_step running
proof
  fix s s' assume "brk_step s s'"
  then obtain uc r where run: "sys_Brk uc s = Inr (Done r s')" by (auto simp: brk_step_def)
  then obtain a p ok t ff where a: "active_proc s = Some a" "pcbs s a = Some p"
    and m: "map_range (next_heap_pn p) (page_of (UP_TO_PAGE (reg uc 0) - VMEM_1_BASE))
           (u_page_table p) (free_frames s) = Inr (ok, t, ff)"
    by (rule sys_Brk_result)
  note eq = run [unfolded sys_Brk_eq [OF a m]]
  show "running s \<noteq> Free" by (simp add: running_def)
  have "frames_of s' Free = nonzero ff"
    and "frames_of s' (running s) = used t + used (k_stack_pt p)"
    using eq a by (auto simp: running_def split: if_splits)
  then show "frames_of s' Free + frames_of s' (running s) \<subseteq># frames_of s Free + frames_of s (running s)"
    using map_range_frames [OF m] a by (simp add: running_def ac_simps subset_mset.add_mono)
  show "c \<noteq> Free \<Longrightarrow> c \<noteq> running s \<Longrightarrow> frames_of s' c = frames_of s c" for c
    using eq a by (cases c) (auto simp: running_def split: if_splits)
qed

definition kernel_brk_step :: "kstate \<Rightarrow> kstate \<Rightarrow> bool" where
  "kernel_brk_step s s' \<longleftrightarrow> (\<exists>x r. SetKernelBrk x s = Inr (r, s'))"

interpretation kbrk: frame_client kernel_brk_step "\<lambda>_. Kernel"
proof
  fix s s' assume "kernel_brk_step s s'"
  then obtain x r where r: "SetKernelBrk x s = Inr (r, s')" by (auto simp: kernel_brk_step_def)
  then have "used (krnl_page_table s') + nonzero (free_frames s')
      \<subseteq># used (krnl_page_table s) + nonzero (free_frames s)"
    using map_range_frames
    by (fastforce simp: SetKernelBrk_def Let_def split: if_splits)
  then show "frames_of s' Free + frames_of s' Kernel \<subseteq># frames_of s Free + frames_of s Kernel"
    by (simp add: ac_simps)
  show "c \<noteq> Free \<Longrightarrow> c \<noteq> Kernel \<Longrightarrow> frames_of s' c = frames_of s c" for c
    using r by (cases c) (auto simp: SetKernelBrk_def Let_def split: if_splits)
qed simp

end
