(* ===== verification/Samples.thy ===== *)
theory Samples
  imports Frames
begin

text \<open>
  A small concrete machine on which the properties of the components are instantiated:
  three processes (pid 0 is running, pid 1 is idle, pid 2 is ready), their kernel stacks,
  and a few free frames. One heap page of process 0 is mapped.
\<close>

definition sample_uc :: user_context where
  "sample_uc = \<lparr>uc_vector = 0, uc_code = 0, uc_addr = 0, uc_pc = 0, uc_sp = 0, uc_ebp = 0,
     uc_regs = [0, 0, 0, 0, 0, 0, 0, 0]\<rparr>"

definition args :: "u32 \<Rightarrow> u32 \<Rightarrow> u32 \<Rightarrow> user_context" where
  "args x y z = sample_uc\<lparr>uc_regs := [x, y, z, 0, 0, 0, 0, 0]\<rparr>"

lemma reg_args [simp]: "reg (args x y z) 0 = x" "reg (args x y z) (Suc 0) = y" "reg (args x y z) 2 = z"
  by (simp_all add: reg_def args_def)

definition sample_pcb :: "int \<Rightarrow> nat \<Rightarrow> pcb" where
  "sample_pcb i f = \<lparr>state = READY, pid = i, ppid = -1, children = [], uctxt = sample_uc,
     kctxt = K_Start, next_heap_pn = 4, next_stack_pn = 126, tty_id = 0, io_buf = 0, io_len = 0,
     u_page_table = replicate 128 null_pte, k_stack_pt = [rw_entry f, rw_entry (f + 1)]\<rparr>"

definition sample_table :: "pte list" where
  "sample_table = (replicate 128 null_pte)[3 := rw_entry 300]"

definition sample :: kstate where
  "sample = \<lparr>malloc_fails = (\<lambda>_. False), malloc_cnt = 100, fresh_pcb = (\<lambda>_. sample_pcb 0 0),
     pmem = (\<lambda>_ _. 0), hw = [], ub_log = [], vmem_enabled = True, total_frames = 512,
     free_frames = [400, 401, 402, 403, 404], kernel_brk = 0x20000, data_seg_limit = 0x10000,
     data_seg_base = 0x8000, next_pid = 3, ready_queue = [20, 30], sleep_list = [], wait_list = [],
     io_list = [], dead_list = [], pipe_list = [], lock_list = [], cvar_list = [],
     reclaim_list = [], sem_list = [], next_sem = 0, active_proc = Some 10, p_idle = Some 20,
     p_init = Some 10, pcb_table = [0 \<mapsto> 10, 1 \<mapsto> 20, 2 \<mapsto> 30], initial_kc = K_Start,
     initial_ks = [rw_entry 206, rw_entry 207], receive = (\<lambda>_ _. 0), busy_terminal = [0, 0, 0, 0],
     string_len = 0,
     krnl_page_table = (replicate 128 null_pte)[126 := rw_entry 126, 127 := rw_entry 127],
     pcbs = [10 \<mapsto> (sample_pcb 0 200)\<lparr>u_page_table := sample_table\<rparr>,
             20 \<mapsto> sample_pcb 1 202, 30 \<mapsto> sample_pcb 2 204],
     sleeps = Map.empty, deads = Map.empty, pipes = Map.empty, locks = Map.empty,
     cvars = Map.empty, reclaims = Map.empty, sems = Map.empty\<rparr>"

lemma used_replicate [simp]: "used (replicate n null_pte) = {#}"
  by (induction n) simp_all

lemma used_sample_table [simp]: "used sample_table = {#300#}"
  unfolding sample_table_def
  by (subst used_update_invalid) (simp_all add: rw_entry_def)

lemma sample_frames:
  "frames_of sample Free = {#400, 401, 402, 403, 404#}"
  "frames_of sample Kernel = {#126, 127#}"
  "frames_of sample Initial = {#206, 207#}"
  "frames_of sample (Proc a) =
     (if a = 10 then {#300, 200, 201#} else if a = 20 then {#202, 203#}
      else if a = 30 then {#204, 205#} else {#})"
proof -
  have "used ((replicate 128 null_pte)[126 := rw_entry 126, 127 := rw_entry 127]) = {#126, 127#}"
    by (subst used_update_invalid, simp, simp, subst used_update_invalid)
      (simp_all add: rw_entry_def)
  then show "frames_of sample Kernel = {#126, 127#}" by (simp add: sample_def)
qed (simp_all add: sample_def sample_pcb_def rw_entry_def)

lemma sample_isolated: "isolated (frames_of sample)"
  unfolding isolated_def
proof (intro allI impI conjI)
  fix a f assume f: "f \<in># frames_of sample a"
  then show "count (frames_of sample a) f = 1"
    by (cases a) (auto simp: sample_frames simp del: frames_of.simps split: if_splits)
  fix b assume "f \<in># frames_of sample b"
  with f show "b = a"
    by (cases a; cases b) (auto simp: sample_frames simp del: frames_of.simps split: if_splits)
qed

lemma sample_mem_ok [simp]: "mem_ok sample"
  by (simp add: mem_ok_def sample_def)


lemma sample_fields [simp]:
  "ready_queue sample = [20, 30]" "active_proc sample = Some 10"
  "free_frames sample = [400, 401, 402, 403, 404]" "malloc_cnt sample = 100"
  "malloc_fails sample = (\<lambda>_. False)" "sleep_list sample = []" "wait_list sample = []"
  "io_list sample = []" "dead_list sample = []" "pipe_list sample = []" "lock_list sample = []"
  "cvar_list sample = []" "reclaim_list sample = []" "sem_list sample = []"
  "next_sem sample = 0" "next_pid sample = 3" "busy_terminal sample = [0, 0, 0, 0]"
  "pcb_table sample = [0 \<mapsto> 10, 1 \<mapsto> 20, 2 \<mapsto> 30]" "hw sample = []" "ub_log sample = []"
  "pcbs sample 10 = Some ((sample_pcb 0 200)\<lparr>u_page_table := sample_table\<rparr>)"
  "pcbs sample 20 = Some (sample_pcb 1 202)" "pcbs sample 30 = Some (sample_pcb 2 204)"
  "locks sample = Map.empty" "sems sample = Map.empty" "pipes sample = Map.empty"
  "cvars sample = Map.empty" "reclaims sample = Map.empty" "sleeps sample = Map.empty"
  "deads sample = Map.empty"
  by (simp_all add: sample_def)

lemma sample_pcb_fields [simp]:
  "pid (sample_pcb i f) = i" "ppid (sample_pcb i f) = -1" "children (sample_pcb i f) = []"
  "k_stack_pt (sample_pcb i f) = [rw_entry f, rw_entry (f + 1)]" "kctxt (sample_pcb i f) = K_Start"
  "uctxt (sample_pcb i f) = sample_uc" "next_heap_pn (sample_pcb i f) = 4"
  "next_stack_pn (sample_pcb i f) = 126"
  by (simp_all add: sample_pcb_def)

lemma rw_entry_fields [simp]: "valid (rw_entry f)" "pfn (rw_entry f) = f" "prot (rw_entry f) = 3"
  by (simp_all add: rw_entry_def)

end
