(* ===== verification/Frame_Properties.thy ===== *)
theory Frame_Properties
  imports Samples
begin

text \<open>What holds of the frame and page table code: the free list at boot, sys_Brk, SetKernelBrk.\<close>

lemma page_of_UP_TO_PAGE:
  assumes "uint a \<le> 0x7FFFE000"
  shows "page_of (UP_TO_PAGE a - VMEM_1_BASE) = (uint a - 0x100000 + 8191) div 8192"
proof -
  have u: "uint (UP_TO_PAGE a) = (uint a + 8191) div 8192 * 8192"
    using assms by (intro uint_UP_TO_PAGE) simp
  also have "\<dots> < 2 ^ 31" using assms zdiv_mono1 [of "uint a + 8191" 2147483647 8192] by simp
  finally have s: "sint (UP_TO_PAGE a) = (uint a + 8191) div 8192 * 8192" using u by (simp add: sint_small)
  have b: "sint VMEM_1_BASE = 0x100000" by simp
  have "0 \<le> (uint a + 8191) div 8192" by (simp add: pos_imp_zdiv_nonneg_iff)
  moreover have "(uint a + 8191) div 8192 \<le> 262143" using assms zdiv_mono1 [of "uint a + 8191" 2147483647 8192] by simp
  ultimately have "sint (UP_TO_PAGE a - VMEM_1_BASE) = (uint a + 8191) div 8192 * 8192 - 0x100000"
    unfolding sint_word_ariths(2) s b u by (subst signed_take_bit_int_eq_self_iff) simp
  then have "page_of (UP_TO_PAGE a - VMEM_1_BASE) = ((uint a + 8191) div 8192 * 8192 - 0x100000) div 8192"
    by (simp add: page_of_def sint_signed_drop_bit_eq drop_bit_eq_div del: VMEM_1_BASE_def)
  also have "\<dots> = (uint a - 0x100000 + 8191) div 8192" by simp
  finally show ?thesis .
qed

lemma brk_sample_page: "page_of (UP_TO_PAGE 0x10B000 - VMEM_1_BASE) = 6"
  by (subst page_of_UP_TO_PAGE) simp_all

section \<open>Isolation\<close>

text \<open>
  Sys_Brk, whether it succeeds or runs out of frames, keeps every frame in the hands of
  at most one owner: no two processes, nor a process and the kernel, ever map the same
  (nonzero) frame as a result of growing the heap.
\<close>

theorem brk_isolation:
  assumes "isolated (frames_of s)" and "sys_Brk uc s = Inr (Done r s')"
  shows "isolated (frames_of s')"
proof (rule brk.keeps_isolation)
  show "brk_step s s'" using assms(2) unfolding brk_step_def by blast
qed (rule assms(1))

lemma brk_sample: "\<exists>r s'. sys_Brk (args 0x10B000 0 0) sample = Inr (Done r s')"
proof -
  let ?p = "(sample_pcb 0 200)\<lparr>u_page_table := sample_table\<rparr>"
  have "map_range 4 (4 + int 2) sample_table (free_frames sample) =
      Inr (True, take (nat 4) sample_table @ map rw_entry (take 2 (free_frames sample)) @
        drop (nat 4 + 2) sample_table, drop 2 (free_frames sample))"
    by (rule map_range_exact) (simp_all add: sample_table_def sample_def)
  then have "map_range (next_heap_pn ?p) (page_of (UP_TO_PAGE (reg (args 0x10B000 0 0) 0) - VMEM_1_BASE))
      (u_page_table ?p) (free_frames sample) = Inr (True, take (nat 4) sample_table @
        map rw_entry (take 2 (free_frames sample)) @ drop (nat 4 + 2) sample_table,
        drop 2 (free_frames sample))"
    by (simp add: brk_sample_page sample_pcb_def del: VMEM_1_BASE_def)
  from sys_Brk_eq [OF _ _ this, of 10] show ?thesis by (simp add: sample_def)
qed

theorem brk_isolation_witness:
  "isolated (frames_of sample) \<and>
   (\<exists>r s'. sys_Brk (args 0x10B000 0 0) sample = Inr (Done r s') \<and> isolated (frames_of s'))"
  using sample_isolated brk_isolation [OF sample_isolated] brk_sample by blast

section \<open>sys_Brk\<close>

text \<open>
  C32: with enough free frames, and when next_heap_pn is not negative, sys_Brk to an address of
  region 1 above the current break succeeds: exactly the pages from the old break to the new one are mapped, readable and
  writable, to the first frames of the free list in order; every other page table entry
  keeps its value, the frames leave the free list, and next_heap_pn is the page number of
  the new break.
\<close>

theorem brk_maps_exact:
  assumes "active_proc s = Some a" and "pcbs s a = Some p" and "length (u_page_table p) = 128"
    and "0x100000 \<le> uint (reg uc 0)" and "uint (reg uc 0) \<le> 0x200000"
    and "0 \<le> next_heap_pn p"
    and "next_heap_pn p + int n = (uint (reg uc 0) - 0x100000 + 8191) div 8192"
    and "n \<le> length (free_frames s)" and "0 \<notin> set (take n (free_frames s))"
  shows "\<exists>s'. sys_Brk uc s = Inr (Done (Some 0) s') \<and>
           free_frames s' = drop n (free_frames s) \<and>
           pcbs s' = (pcbs s)(a \<mapsto> p\<lparr>
             u_page_table := take (nat (next_heap_pn p)) (u_page_table p) @
               map rw_entry (take n (free_frames s)) @
               drop (nat (next_heap_pn p) + n) (u_page_table p),
             next_heap_pn := next_heap_pn p + int n\<rparr>)"
proof -
  have page: "page_of (UP_TO_PAGE (reg uc 0) - VMEM_1_BASE) = next_heap_pn p + int n"
    using assms(4,5,7) by (simp add: page_of_UP_TO_PAGE del: VMEM_1_BASE_def)
  have "next_heap_pn p + int n \<le> int (length (u_page_table p))"
    using assms(3,5,7) by simp
  from map_range_exact [OF assms(6) this assms(8,9)]
  have "map_range (next_heap_pn p) (page_of (UP_TO_PAGE (reg uc 0) - VMEM_1_BASE)) (u_page_table p)
      (free_frames s) = Inr (True, take (nat (next_heap_pn p)) (u_page_table p) @
        map rw_entry (take n (free_frames s)) @ drop (nat (next_heap_pn p) + n) (u_page_table p),
        drop n (free_frames s))"
    unfolding page .
  from sys_Brk_eq [OF assms(1,2) this] show ?thesis using page by simp
qed

theorem brk_maps_exact_witness:
  "\<exists>s'. sys_Brk (args 0x10B000 0 0) sample = Inr (Done (Some 0) s') \<and>
     free_frames s' = [402, 403, 404]"
  using brk_maps_exact [of sample 10 "(sample_pcb 0 200)\<lparr>u_page_table := sample_table\<rparr>"
      "args 0x10B000 0 0" 2]
  by (auto simp: sample_def sample_pcb_def sample_table_def)

text \<open>
  Sys_Brk to an address below the current break returns 0 and lowers next_heap_pn, but
  leaves the page table and the free list as they are: the pages stay mapped and their
  frames are not returned.
\<close>

theorem brk_shrink_keeps_pages:
  assumes "active_proc s = Some a" and "pcbs s a = Some p"
    and "0x100000 \<le> uint (reg uc 0)" and "uint (reg uc 0) \<le> 0x200000"
    and "(uint (reg uc 0) - 0x100000 + 8191) div 8192 < next_heap_pn p"
  shows "\<exists>s'. sys_Brk uc s = Inr (Done (Some 0) s') \<and> free_frames s' = free_frames s \<and>
           pcbs s' = (pcbs s)(a \<mapsto>
             p\<lparr>next_heap_pn := (uint (reg uc 0) - 0x100000 + 8191) div 8192\<rparr>)"
proof -
  have page: "page_of (UP_TO_PAGE (reg uc 0) - VMEM_1_BASE)
      = (uint (reg uc 0) - 0x100000 + 8191) div 8192"
    using assms(4) by (intro page_of_UP_TO_PAGE) simp
  have "map_range (next_heap_pn p) (page_of (UP_TO_PAGE (reg uc 0) - VMEM_1_BASE)) (u_page_table p)
      (free_frames s) = Inr (True, u_page_table p, free_frames s)"
    using assms(5) unfolding page by (subst map_range.simps) simp
  from sys_Brk_eq [OF assms(1,2) this] show ?thesis using page by simp
qed

theorem brk_shrink_keeps_pages_witness:
  "\<exists>s' p'. sys_Brk (args 0x104000 0 0) sample = Inr (Done (Some 0) s') \<and>
     free_frames s' = free_frames sample \<and> pcbs s' 10 = Some p' \<and>
     next_heap_pn p' = 2 \<and> valid (u_page_table p' ! 3)"
  using brk_shrink_keeps_pages [of sample 10 "(sample_pcb 0 200)\<lparr>u_page_table := sample_table\<rparr>"
      "args 0x104000 0 0"]
  by (auto simp: sample_def sample_pcb_def sample_table_def rw_entry_def)

text \<open>
  C33: when the free list is too short for the request (with next_heap_pn not negative), sys_Brk returns ERROR after taking
  every frame that was left: the free list is empty and the break has not moved.
\<close>

theorem brk_out_of_frames:
  assumes "active_proc s = Some a" and "pcbs s a = Some p" and "length (u_page_table p) = 128"
    and "0x100000 \<le> uint (reg uc 0)" and "uint (reg uc 0) \<le> 0x200000"
    and "0 \<le> next_heap_pn p"
    and "next_heap_pn p + int n = (uint (reg uc 0) - 0x100000 + 8191) div 8192"
    and "length (free_frames s) < n" and "0 \<notin> set (free_frames s)"
  shows "\<exists>s' p'. sys_Brk uc s = Inr (Done (Some ERROR) s') \<and> free_frames s' = [] \<and>
           pcbs s' a = Some p' \<and> next_heap_pn p' = next_heap_pn p"
proof -
  have page: "page_of (UP_TO_PAGE (reg uc 0) - VMEM_1_BASE) = next_heap_pn p + int n"
    using assms(4,5,7) by (simp add: page_of_UP_TO_PAGE del: VMEM_1_BASE_def)
  have "next_heap_pn p + int n \<le> int (length (u_page_table p))"
    using assms(3,5,7) by simp
  from map_range_short [OF assms(6) this assms(8,9)] obtain t where
    "map_range (next_heap_pn p) (page_of (UP_TO_PAGE (reg uc 0) - VMEM_1_BASE)) (u_page_table p)
      (free_frames s) = Inr (False, t, [])"
    unfolding page by blast
  from sys_Brk_eq [OF assms(1,2) this] show ?thesis by simp
qed

theorem brk_out_of_frames_witness:
  "\<exists>s'. sys_Brk (args 0x114000 0 0) sample = Inr (Done (Some ERROR) s') \<and> free_frames s' = []"
  using brk_out_of_frames [of sample 10 "(sample_pcb 0 200)\<lparr>u_page_table := sample_table\<rparr>"
      "args 0x114000 0 0" 6]
  by (auto simp: sample_def sample_pcb_def sample_table_def)




section \<open>The kernel's break and the free list at boot\<close>

text \<open>
  Once virtual memory is on, raising the kernel break to a page boundary below the
  kernel stack maps every page between the old and the new break, with frames taken from
  the free list, and returns 0 with the new break; the user processes' frames are not
  touched.
\<close>

theorem kernel_brk_maps:
  assumes "vmem_enabled s" and "kernel_brk s < x" and "uint x < 0xFC000"
    and "length (krnl_page_table s) = 128"
    and "uint (kernel_brk s) div 8192 + int n = uint x div 8192"
    and "n \<le> length (free_frames s)" and "0 \<notin> set (take n (free_frames s))"
  shows "\<exists>s'. SetKernelBrk x s = Inr (0, s') \<and> kernel_brk s' = x \<and>
           free_frames s' = drop n (free_frames s) \<and> pcbs s' = pcbs s \<and>
           krnl_page_table s' =
             take (nat (uint (kernel_brk s) div 8192)) (krnl_page_table s) @
             map rw_entry (take n (free_frames s)) @
             drop (nat (uint (kernel_brk s) div 8192) + n) (krnl_page_table s)"
proof -
  have lt: "uint (kernel_brk s) < uint x" using assms(2) by (simp add: word_less_def)
  then have pages: "page_of (kernel_brk s) = uint (kernel_brk s) div 8192"
    "page_of x = uint (kernel_brk s) div 8192 + int n"
    using assms(3,5) by (simp_all add: page_of_small)
  have "sint x = uint x" using assms(3) by (simp add: sint_small)
  then have "\<not> sint x \<ge> sint KERNEL_STACK_BASE" using assms(3) by simp
  moreover have "map_range (page_of (kernel_brk s)) (page_of x) (krnl_page_table s) (free_frames s) =
      Inr (True, take (nat (uint (kernel_brk s) div 8192)) (krnl_page_table s) @
        map rw_entry (take n (free_frames s)) @
        drop (nat (uint (kernel_brk s) div 8192) + n) (krnl_page_table s), drop n (free_frames s))"
    unfolding pages using assms(3-7) by (intro map_range_exact) (auto simp: div_int_pos_iff)
  ultimately show ?thesis using assms(1,2) by (simp add: SetKernelBrk_def)
qed

theorem kernel_brk_maps_witness:
  "\<exists>s'. SetKernelBrk 0x24000 sample = Inr (0, s') \<and> kernel_brk s' = 0x24000 \<and>
     free_frames s' = [402, 403, 404]"
  using kernel_brk_maps [of sample "0x24000" 2] by (auto simp: sample_def)

text \<open>
  The limit check casts the new break to int, and so do the page numbers: an address from 2^31 on is
  negative, passes the check and asks for no page. SetKernelBrk returns 0 with a break that nothing
  is mapped below.
\<close>

theorem kernel_brk_huge:
  assumes "vmem_enabled s" and "kernel_brk s < a" and "sint a < 0" and "0 \<le> page_of (kernel_brk s)"
  shows "SetKernelBrk a s = Inr (0, s\<lparr>kernel_brk := a\<rparr>)"
proof -
  have "page_of a = sint a div 2 ^ 13" by (simp add: page_of_def sint_signed_drop_bit_eq drop_bit_eq_div)
  then have "page_of a < 0" using assms(3) by (simp add: div_neg_pos_less0)
  then have "map_range (page_of (kernel_brk s)) (page_of a) (krnl_page_table s) (free_frames s)
      = Inr (True, krnl_page_table s, free_frames s)"
    using assms(4) by (subst map_range.simps) simp
  moreover have "\<not> sint KERNEL_STACK_BASE \<le> sint a" using assms(3) by simp
  ultimately show ?thesis using assms(1,2) by (simp add: SetKernelBrk_def Let_def)
qed

theorem kernel_brk_huge_witness: "SetKernelBrk 0x80000000 sample = Inr (0, sample\<lparr>kernel_brk := 0x80000000\<rparr>)"
proof (rule kernel_brk_huge)
  have "page_of (kernel_brk sample) = 16" by (simp add: sample_def page_of_small)
  then show "0 \<le> page_of (kernel_brk sample)" by simp
qed (simp_all add: sample_def)

text \<open>
  At boot the free list holds every frame of physical memory exactly once, except the
  frames below the kernel break (text, data and heap) and the two frames of the kernel
  stack.
\<close>

theorem gather_free_frames_exact:
  assumes "mem_ok s" and "uint (kernel_brk s) \<le> 0xFC000" and "128 \<le> total_frames s"
  shows "distinct (free_frames (gather_free_frames s)) \<and>
         set (free_frames (gather_free_frames s)) =
           {f. f < nat (total_frames s) \<and> uint (kernel_brk s) \<le> 8192 * int f \<and> f \<noteq> 126 \<and> f \<noteq> 127}"
  using gather_free_frames_set [OF assms] by blast

theorem gather_free_frames_exact_witness:
  "mem_ok sample \<and> set (free_frames (gather_free_frames sample)) =
     {f. f < 512 \<and> 0x20000 \<le> 8192 * int f \<and> f \<noteq> 126 \<and> f \<noteq> 127}"
  using gather_free_frames_exact [of sample] by (simp add: sample_def mem_ok_def)

end
