(* ===== verification/Scheduler.thy ===== *)
theory Scheduler
  imports Frames
begin

text \<open>
  scheduler.c and normal_schedule of syscall.c: kernel stacks and contexts, the switch from
  one process to another, the two scheduling functions, the sleep list and the dead list,
  and sys_Delay.
\<close>

section \<open>Kernel stacks\<close>

text \<open>
  The code names a frame by its physical address \<^verbatim>\<open>pfn << PAGESHIFT\<close>; memcpy of
  PAGESIZE bytes between two such addresses copies a frame.
\<close>

definition copy_frame :: "nat \<Rightarrow> nat \<Rightarrow> kstate \<Rightarrow> kstate" where
  "copy_frame dst src s = s\<lparr>pmem := (pmem s)(dst := pmem s src)\<rparr>"

text \<open>The frame of kernel stack page \<open>i\<close>: \<^verbatim>\<open>krnl_page_table[126+i].pfn\<close>.\<close>

definition stack_frame :: "nat \<Rightarrow> kstate \<Rightarrow> nat" where
  "stack_frame i s = pfn (krnl_page_table s ! (126 + i))"

definition save_stack :: "pcb \<Rightarrow> kstate \<Rightarrow> kstate" where
  "save_stack p s =
     copy_frame (pfn (k_stack_pt p ! 1)) (stack_frame 1 s)
       (copy_frame (pfn (k_stack_pt p ! 0)) (stack_frame 0 s) s)"

definition restore_stack :: "pcb \<Rightarrow> kstate \<Rightarrow> kstate" where
  "restore_stack p s =
     copy_frame (stack_frame 1 s) (pfn (k_stack_pt p ! 1))
       (copy_frame (stack_frame 0 s) (pfn (k_stack_pt p ! 0)) s)"

text \<open>
  switch_kernel_context, run by KernelContextSwitch. \<open>k\<close> is the kernel context passed in;
  the context returned is the one saved in the new process's pcb. With no new process the
  context passed in is returned.
\<close>

definition switch_kernel_context ::
    "kcont \<Rightarrow> addr option \<Rightarrow> addr option \<Rightarrow> kstate \<Rightarrow> (kcont \<times> kstate) res" where
  "switch_kernel_context k old new s =
     res_bind (case old of
         None \<Rightarrow> Inr s
       | Some a \<Rightarrow>
           res_bind (deref (pcbs s) a) (\<lambda>p.
             Inr (save_stack p (set_pcb a (\<lambda>p. p\<lparr>kctxt := k\<rparr>) s)))) (\<lambda>s.
     case new of
       None \<Rightarrow> Inr (k, s)
     | Some a \<Rightarrow>
         res_bind (deref (pcbs s) a) (\<lambda>p.
           let s = restore_stack p s in
           Inr (kctxt p, s\<lparr>hw := hw s @ [HW_TLB_FLUSH TLB_FLUSH_ALL]\<rparr>)))"

definition fresh_entry :: "nat \<Rightarrow> pte" where
  "fresh_entry f = \<lparr>valid = True, prot = PROT_READ + PROT_WRITE, pfn = f\<rparr>"

text \<open>
  save_initial_kernel keeps a copy of the kernel context and stack at the end of
  KernelStart. Without a frame it returns NULL to KernelContextSwitch, which then reports
  an error and goes on with the old context.
\<close>

fun save_initial_pages :: "nat list \<Rightarrow> kstate \<Rightarrow> bool \<times> kstate" where
  "save_initial_pages [] s = (True, s)"
| "save_initial_pages (i # is) s =
     (case grab_a_frame s of
        (f, s) \<Rightarrow>
          if f = 0 then
            (False, s\<lparr>initial_ks := (initial_ks s)[i := (initial_ks s ! i)\<lparr>valid := True, prot := PROT_READ + PROT_WRITE\<rparr>]\<rparr>)
          else
            let s = s\<lparr>initial_ks := (initial_ks s)[i := fresh_entry f]\<rparr>
            in save_initial_pages is (copy_frame f (stack_frame i s) s))"

definition save_initial_kernel :: "kcont \<Rightarrow> kstate \<Rightarrow> bool \<times> kstate" where
  "save_initial_kernel k s = save_initial_pages [0, 1] (s\<lparr>initial_kc := k\<rparr>)"

text \<open>
  init_proc_kernel gives a process the initial kernel context and a copy of the initial
  kernel stack. Without a frame it returns no value, although its caller uses the result.
\<close>

fun init_stack_pages :: "nat list \<Rightarrow> addr \<Rightarrow> kstate \<Rightarrow> kstate res" where
  "init_stack_pages [] a s = Inr s"
| "init_stack_pages (i # is) a s =
     (case grab_a_frame s of
        (f, s) \<Rightarrow>
          if f = 0 then Inl UninitRead
          else
            let s = set_pcb a (\<lambda>p. p\<lparr>k_stack_pt := (k_stack_pt p)[i := fresh_entry f]\<rparr>) s
            in init_stack_pages is a (copy_frame f (pfn (initial_ks s ! i)) s))"

definition init_proc_kernel :: "addr \<Rightarrow> kstate \<Rightarrow> kstate res" where
  "init_proc_kernel a s =
     res_bind (deref (pcbs s) a) (\<lambda>_.
       init_stack_pages [0, 1] a (set_pcb a (\<lambda>p. p\<lparr>kctxt := initial_kc s\<rparr>) s))"

text \<open>return_initial_state, for sys_Exec: the initial stack and context.\<close>

definition return_initial_state :: "kstate \<Rightarrow> kcont \<times> kstate" where
  "return_initial_state s =
     (let s = copy_frame (stack_frame 0 s) (pfn (initial_ks s ! 0)) s;
          s = copy_frame (stack_frame 1 s) (pfn (initial_ks s ! 1)) s
      in (initial_kc s, s\<lparr>hw := hw s @ [HW_TLB_FLUSH TLB_FLUSH_0]\<rparr>))"

section \<open>Switching processes\<close>

text \<open>
  context_switch up to the point where the new process runs: the kernel context it
  continues with and the state. \<open>k\<close> is the rest of the old process's kernel code.
\<close>

definition context_switch ::
    "user_context \<Rightarrow> addr option \<Rightarrow> addr \<Rightarrow> kcont \<Rightarrow> kstate \<Rightarrow> (kcont \<times> kstate) res" where
  "context_switch uc old new k s =
     (let s = s\<lparr>active_proc := Some new\<rparr> in
      res_bind (case old of
          None \<Rightarrow> Inr s
        | Some a \<Rightarrow>
            res_bind (deref (pcbs s) a) (\<lambda>_. Inr (set_pcb a (\<lambda>p. p\<lparr>uctxt := uc\<rparr>) s))) (\<lambda>s.
      res_bind (deref (pcbs s) new) (\<lambda>p.
      res_bind (if pfn (k_stack_pt p ! 0) = 0 then init_proc_kernel new s else Inr s) (\<lambda>s.
        switch_kernel_context k old (Some new) s))))"

text \<open>
  What the process that was switched in does first: back in its own call of context_switch,
  or at the end of KernelStart for a new process, it installs its page table and its saved
  user context.
\<close>

definition switched_in :: "kstate \<Rightarrow> (user_context \<times> kstate) res" where
  "switched_in s =
     res_bind (deref_ptr (pcbs s) (active_proc s)) (\<lambda>p.
       Inr (uctxt p, s\<lparr>hw := hw s @ [HW_PTBR1 (the (active_proc s)), HW_PTLR1 USER_PAGETABLE_SIZE,
              HW_TLB_FLUSH TLB_FLUSH_1]\<rparr>))"

text \<open>
  Result of a scheduling function: it failed, it did not switch, or another process runs
  and goes on with the given kernel context.
\<close>

datatype sched = SchedErr kstate | NoSwitch kstate | Switched kcont kstate

definition normal_schedule :: "user_context \<Rightarrow> kcont \<Rightarrow> kstate \<Rightarrow> sched res" where
  "normal_schedule uc k s =
     (if ready_queue s \<noteq> [] then
        (case klist_remove (ready_queue s) 1 of
           (None, _) \<Rightarrow> Inr (SchedErr s)
         | (Some nxt, q) \<Rightarrow>
             let s = s\<lparr>ready_queue := q\<rparr> in
             res_bind (deref (pcbs s) nxt) (\<lambda>p.
             if pid p = 1 then
               (case ready_insert nxt s of
                  (_, s) \<Rightarrow>
                    (case klist_remove (ready_queue s) 1 of
                       (None, _) \<Rightarrow> Inr (SchedErr s)
                     | (Some nxt, q) \<Rightarrow>
                         let s = s\<lparr>ready_queue := q\<rparr> in
                         res_bind (context_switch uc (active_proc s) nxt k s) (\<lambda>(k, s).
                           Inr (Switched k s))))
             else
               res_bind (context_switch uc (active_proc s) nxt k s) (\<lambda>(k, s).
                 Inr (Switched k s))))
      else Inr (NoSwitch s))"

text \<open>The round robin of the clock handler; its caller ignores the return code.\<close>

definition do_scheduler :: "user_context \<Rightarrow> kstate \<Rightarrow> sched res" where
  "do_scheduler uc s =
     (if ready_queue s \<noteq> [] then
        (case active_proc s of
           None \<Rightarrow> Inl NullDeref
         | Some old \<Rightarrow>
             (case ready_insert old s of
                (_, s) \<Rightarrow>
                  (case klist_remove (ready_queue s) 1 of
                     (None, _) \<Rightarrow> Inr (SchedErr s)
                   | (Some nxt, q) \<Rightarrow>
                       let s = s\<lparr>ready_queue := q\<rparr> in
                       res_bind (deref (pcbs s) nxt) (\<lambda>p.
                       if pid p = 1 then
                         (case ready_insert nxt s of
                            (_, s) \<Rightarrow>
                              (case klist_remove (ready_queue s) 1 of
                                 (None, _) \<Rightarrow> Inr (SchedErr s)
                               | (Some nxt, q) \<Rightarrow>
                                   res_bind (context_switch uc (Some old) nxt K_Sched
                                       (s\<lparr>ready_queue := q\<rparr>)) (\<lambda>(k, s). Inr (Switched k s))))
                       else
                         res_bind (context_switch uc (Some old) nxt K_Sched s) (\<lambda>(k, s).
                           Inr (Switched k s))))))
      else Inr (NoSwitch s))"

section \<open>Sleeping processes and dead processes\<close>

definition insert_sleep_list :: "addr \<Rightarrow> int \<Rightarrow> kstate \<Rightarrow> int \<times> kstate" where
  "insert_sleep_list p clock_ticks s =
     (case malloc s of
        (None, s) \<Rightarrow> (ERROR, s)
      | (Some a, s) \<Rightarrow>
          let s = set_pcb p (\<lambda>p. p\<lparr>state := DELAY\<rparr>) s;
              s = s\<lparr>sleeps := (sleeps s)(a \<mapsto> \<lparr>ticks_left = clock_ticks, sleep_pcb = p\<rparr>)\<rparr>
          in
          (case klist_append (sleep_list s) a s of
             (rc, l, s) \<Rightarrow>
               if rc \<noteq> 0 then (ERROR, s\<lparr>sleeps := (sleeps s)(a := None)\<rparr>)
               else (0, s\<lparr>sleep_list := l\<rparr>)))"

definition insert_dead_list :: "int \<Rightarrow> int \<Rightarrow> int \<Rightarrow> kstate \<Rightarrow> int \<times> kstate" where
  "insert_dead_list pp p st s =
     (case malloc s of
        (None, s) \<Rightarrow> (ERROR, s)
      | (Some a, s) \<Rightarrow>
          let s = s\<lparr>deads := (deads s)(a \<mapsto> \<lparr>dead_ppid = pp, dead_pid = p, dead_status = st\<rparr>)\<rparr> in
          (case klist_append (dead_list s) a s of
             (rc, l, s) \<Rightarrow>
               if rc \<noteq> 0 then (ERROR, s\<lparr>deads := (deads s)(a := None)\<rparr>)
               else (0, s\<lparr>dead_list := l\<rparr>)))"

text \<open>
  One round of the clock over the sleep list. The first argument is what is left to visit,
  \<open>i\<close> the position counted by the code. The node of a process that wakes up is freed before
  its next pointer is read, which is logged.
\<close>

fun update_sleep :: "addr list \<Rightarrow> int \<Rightarrow> kstate \<Rightarrow> (int \<times> kstate) res" where
  "update_sleep [] i s = Inr (0, s)"
| "update_sleep (a # rest) i s =
     res_bind (deref (sleeps s) a) (\<lambda>si.
     let t = ticks_left si - 1;
         s = s\<lparr>sleeps := (sleeps s)(a \<mapsto> si\<lparr>ticks_left := t\<rparr>)\<rparr>
     in
     if t \<le> 0 then
       res_bind (deref (pcbs s) (sleep_pcb si)) (\<lambda>_.
       let s = set_pcb (sleep_pcb si) (\<lambda>p. p\<lparr>state := READY\<rparr>) s in
       (case ready_insert (sleep_pcb si) s of
          (_, s) \<Rightarrow>
            (case klist_remove (sleep_list s) i of
               (None, _) \<Rightarrow> Inr (ERROR, s)
             | (Some _, l) \<Rightarrow>
                 update_sleep rest i
                   (s\<lparr>sleep_list := l, sleeps := (sleeps s)(a := None),
                      ub_log := ub_log s @ [ReadFreedNode]\<rparr>))))
     else update_sleep rest (i + 1) s)"

definition update_sleep_list :: "kstate \<Rightarrow> (int \<times> kstate) res" where
  "update_sleep_list s = update_sleep (sleep_list s) 1 s"

definition sys_Delay :: "user_context \<Rightarrow> kstate \<Rightarrow> kres res" where
  "sys_Delay uc s =
     (let clock_ticks = sint (reg uc 0) in
      if clock_ticks < 0 then Inr (Done (Some ERROR) s)
      else if clock_ticks = 0 then Inr (Done (Some 0) s)
      else
        (case active_proc s of
           None \<Rightarrow> Inl NullDeref
         | Some a \<Rightarrow>
             res_bind (deref (pcbs s) a) (\<lambda>_.
             case insert_sleep_list a clock_ticks s of
               (rc, s) \<Rightarrow>
                 if rc \<noteq> 0 then Inr (Done (Some ERROR) s) else Inr (Yield K_Delay s))))"

end
