(* ===== verification/Scheduler_Properties.thy ===== *)
theory Scheduler_Properties
  imports Samples Scheduler
begin

text \<open>
  What holds of scheduler.c: the effect of a context switch, round robin and its fairness,
  kernel stacks across switches, and the sleep list.
\<close>

section \<open>The effect of a context switch\<close>

text \<open>A process that has run before has its own kernel stack.\<close>

definition started :: "kstate \<Rightarrow> addr \<Rightarrow> bool" where
  "started s a \<longleftrightarrow> (case pcbs s a of None \<Rightarrow> False | Some p \<Rightarrow> pfn (k_stack_pt p ! 0) \<noteq> 0)"

lemma copy_frame_simps [simp]:
  "pcbs (copy_frame d f s) = pcbs s" "krnl_page_table (copy_frame d f s) = krnl_page_table s"
  "hw (copy_frame d f s) = hw s" "ready_queue (copy_frame d f s) = ready_queue s"
  "active_proc (copy_frame d f s) = active_proc s"
  by (simp_all add: copy_frame_def)

lemma save_stack_eq: "save_stack p s = s\<lparr>pmem := pmem (save_stack p s)\<rparr>"
  by (simp add: save_stack_def copy_frame_def)

lemma restore_stack_eq: "restore_stack p s = s\<lparr>pmem := pmem (restore_stack p s)\<rparr>"
  by (simp add: restore_stack_def copy_frame_def)

lemma save_stack_frame [simp]:
  "pcbs (save_stack p s) = pcbs s" "hw (save_stack p s) = hw s"
  "krnl_page_table (save_stack p s) = krnl_page_table s"
  by (simp_all add: save_stack_def)

lemma restore_stack_frame [simp]: "hw (restore_stack p s) = hw s" "pcbs (restore_stack p s) = pcbs s"
  by (simp_all add: restore_stack_def)

definition outgoing :: "user_context \<Rightarrow> kcont \<Rightarrow> pcb \<Rightarrow> pcb" where
  "outgoing uc k p = p\<lparr>uctxt := uc, kctxt := k\<rparr>"

lemma context_switch_started:
  assumes "pcbs s a = Some pa" and "started s b"
  obtains p m where "((pcbs s)(a \<mapsto> outgoing uc k pa)) b = Some p"
    and "m = pmem (restore_stack p (save_stack pa s))"
    and "context_switch uc (Some a) b k s =
           Inr (kctxt p, s\<lparr>active_proc := Some b, pcbs := (pcbs s)(a \<mapsto> outgoing uc k pa),
             pmem := m, hw := hw s @ [HW_TLB_FLUSH TLB_FLUSH_ALL]\<rparr>)"
proof -
  from assms(2) obtain pb where pb: "pcbs s b = Some pb" "pfn (k_stack_pt pb ! 0) \<noteq> 0"
    by (auto simp: started_def split: option.splits)
  define p where "p = (if b = a then outgoing uc k pa else pb)"
  let ?s = "s\<lparr>active_proc := Some b, pcbs := (pcbs s)(a \<mapsto> outgoing uc k pa)\<rparr>"
  have p: "((pcbs s)(a \<mapsto> outgoing uc k pa)) b = Some p" using pb by (simp add: p_def)
  have nz: "pfn (k_stack_pt p ! 0) \<noteq> 0" using pb assms(1) by (auto simp: p_def outgoing_def)
  have "context_switch uc (Some a) b k s =
      Inr (kctxt p, (restore_stack p (save_stack (pa\<lparr>uctxt := uc\<rparr>) ?s))\<lparr>hw := hw s @ [HW_TLB_FLUSH TLB_FLUSH_ALL]\<rparr>)"
    using assms(1) pb nz
    by (auto simp: context_switch_def switch_kernel_context_def set_pcb_def Let_def outgoing_def p_def)
  also have "\<dots> = Inr (kctxt p, ?s\<lparr>pmem := pmem (restore_stack p (save_stack (pa\<lparr>uctxt := uc\<rparr>) ?s)),
      hw := hw s @ [HW_TLB_FLUSH TLB_FLUSH_ALL]\<rparr>)"
    by (subst restore_stack_eq, subst save_stack_eq) simp
  also have "pmem (restore_stack p (save_stack (pa\<lparr>uctxt := uc\<rparr>) ?s)) = pmem (restore_stack p (save_stack pa s))"
    by (simp add: restore_stack_def save_stack_def copy_frame_def stack_frame_def)
  finally show thesis by (intro that [OF p refl]) (simp add: fun_upd_def)
qed

section \<open>Round robin\<close>

text \<open>
  The abstract scheduler: the running process and the queue of the others. The idle process
  is passed over once when it comes up.
\<close>

fun rr :: "(addr \<Rightarrow> bool) \<Rightarrow> addr \<times> addr list \<Rightarrow> addr \<times> addr list" where
  "rr idle (a, []) = (a, [])"
| "rr idle (a, q # qs) =
     (if idle q then (hd (qs @ [a]), tl (qs @ [a]) @ [q]) else (q, qs @ [a]))"

definition is_idle :: "kstate \<Rightarrow> addr \<Rightarrow> bool" where
  "is_idle s a \<longleftrightarrow> (case pcbs s a of None \<Rightarrow> False | Some p \<Rightarrow> pid p = 1)"

definition sched_view :: "kstate \<Rightarrow> addr \<times> addr list" where
  "sched_view s = (the (active_proc s), ready_queue s)"

text \<open>Every runnable process has a kernel stack, and the allocator works.\<close>

definition sched_ok :: "kstate \<Rightarrow> bool" where
  "sched_ok s \<longleftrightarrow> mem_ok s \<and> active_proc s \<noteq> None \<and>
     (\<forall>a\<in>set (the (active_proc s) # ready_queue s). started s a)"

lemma context_switch_sched:
  assumes "started s a" and "\<forall>x\<in>set (b # qs). started s x" and "mem_ok s"
  shows "\<exists>k s'. context_switch uc (Some a) b K_Sched (s\<lparr>ready_queue := qs\<rparr>) = Inr (k, s') \<and>
           sched_view s' = (b, qs) \<and> active_proc s' = Some b \<and> sched_ok s' \<and> is_idle s' = is_idle s"
proof -
  obtain pa where pa: "pcbs s a = Some pa" "pfn (k_stack_pt pa ! 0) \<noteq> 0"
    using assms(1) by (auto simp: started_def split: option.splits)
  let ?r = "s\<lparr>ready_queue := qs\<rparr>"
  have "pcbs ?r a = Some pa" "started ?r b" using assms(2) pa by (simp_all add: started_def)
  then obtain p m where "((pcbs ?r)(a \<mapsto> outgoing uc K_Sched pa)) b = Some p"
    and "m = pmem (restore_stack p (save_stack pa ?r))"
    and run: "context_switch uc (Some a) b K_Sched ?r =
      Inr (kctxt p, ?r\<lparr>active_proc := Some b, pcbs := (pcbs ?r)(a \<mapsto> outgoing uc K_Sched pa),
        pmem := m, hw := hw ?r @ [HW_TLB_FLUSH TLB_FLUSH_ALL]\<rparr>)" (is "_ = Inr (_, ?s)")
    by (rule context_switch_started [where uc = uc and k = K_Sched])
  have "sched_view ?s = (b, qs)" "active_proc ?s = Some b"
    by (simp_all add: sched_view_def)
  moreover have "sched_ok ?s"
    using assms pa by (auto simp: sched_ok_def started_def mem_ok_def outgoing_def)
  moreover have "is_idle ?s = is_idle s"
    using pa by (auto simp: is_idle_def outgoing_def fun_eq_iff)
  ultimately show ?thesis using run by blast
qed


lemma do_scheduler_rr:
  assumes "sched_ok s" and "ready_queue s \<noteq> []"
  shows "\<exists>k s'. do_scheduler uc s = Inr (Switched k s') \<and> sched_ok s' \<and>
           sched_view s' = rr (is_idle s) (sched_view s) \<and> is_idle s' = is_idle s"
proof -
  from assms obtain a q qs where a: "active_proc s = Some a" and q: "ready_queue s = q # qs"
    by (cases "ready_queue s") (auto simp: sched_ok_def)
  with assms have st: "started s a" "\<forall>x\<in>set (a # q # qs). started s x" and ok: "mem_ok s"
    by (auto simp: sched_ok_def)
  from st(2) obtain p where p: "pcbs s q = Some p" by (auto simp: started_def split: option.splits)
  let ?t = "s\<lparr>malloc_cnt := Suc (malloc_cnt s), ready_queue := qs @ [a]\<rparr>"
  let ?u = "s\<lparr>malloc_cnt := Suc (Suc (malloc_cnt s)), ready_queue := (qs @ [a]) @ [q]\<rparr>"
  have ok': "mem_ok ?t" "mem_ok ?u" using ok by (simp_all add: mem_ok_def)
  have st': "started ?t = started s" "started ?u = started s" "is_idle ?t = is_idle s" "is_idle ?u = is_idle s"
    by (simp_all add: started_def is_idle_def fun_eq_iff)
  show ?thesis
  proof (cases "pid p = 1")
    case True
    obtain b bs where b: "qs @ [a] = b # bs" by (cases "qs @ [a]") auto
    then have set_b: "set (b # bs @ [q]) = set (a # q # qs)" by (metis append_Cons set_append
          inf_sup_aci(5) list.simps(15) Un_insert_left append.right_neutral rotate1.simps(2) set_rotate1)
    from True a q p b ok ok'(1) have "do_scheduler uc s =
        res_bind (context_switch uc (Some a) b K_Sched (?u\<lparr>ready_queue := bs @ [q]\<rparr>))
          (\<lambda>(k, s). Inr (Switched k s))"
      by (simp add: do_scheduler_def ready_insert_ok Let_def)
    moreover have "\<exists>k s'. context_switch uc (Some a) b K_Sched (?u\<lparr>ready_queue := bs @ [q]\<rparr>) = Inr (k, s') \<and>
           sched_view s' = (b, bs @ [q]) \<and> active_proc s' = Some b \<and> sched_ok s' \<and> is_idle s' = is_idle ?u"
      using st set_b ok' st' by (intro context_switch_sched) auto
    moreover have "rr (is_idle s) (sched_view s) = (b, bs @ [q])"
      using True a q p b by (simp add: sched_view_def is_idle_def)
    ultimately show ?thesis using st' by auto
  next
    case False
    from False a q p ok have "do_scheduler uc s =
        res_bind (context_switch uc (Some a) q K_Sched (?t\<lparr>ready_queue := qs @ [a]\<rparr>))
          (\<lambda>(k, s). Inr (Switched k s))"
      by (simp add: do_scheduler_def ready_insert_ok Let_def)
    moreover have "\<exists>k s'. context_switch uc (Some a) q K_Sched (?t\<lparr>ready_queue := qs @ [a]\<rparr>) = Inr (k, s') \<and>
           sched_view s' = (q, qs @ [a]) \<and> active_proc s' = Some q \<and> sched_ok s' \<and> is_idle s' = is_idle ?t"
      using st ok' st' by (intro context_switch_sched) auto
    moreover have "rr (is_idle s) (sched_view s) = (q, qs @ [a])"
      using False a q p by (simp add: sched_view_def is_idle_def)
    ultimately show ?thesis using st' by auto
  qed
qed


lemma rr_conserves: "mset (snd (rr idle v)) + {#fst (rr idle v)#} = mset (snd v) + {#fst v#}"
proof (cases "(idle, v)" rule: rr.cases)
  case (2 i a q qs)
  then show ?thesis by (cases qs) auto
qed auto

text \<open>A process moves forward in the queue with every pass.\<close>

lemma rr_moves:
  assumes "i < length qs" and "\<not> idle (qs ! i)"
  shows "fst (rr idle (a, qs)) = qs ! i \<or>
         (\<exists>i'<i. i' < length (snd (rr idle (a, qs))) \<and> snd (rr idle (a, qs)) ! i' = qs ! i)"
proof -
  obtain q qs' where qs: "qs = q # qs'" using assms(1) by (cases qs) auto
  show ?thesis
  proof (cases "idle q")
    case True
    with assms qs obtain j where i: "i = Suc j" "j < length qs'" by (cases i) auto
    then obtain b bs where b: "qs' = b # bs" by (cases qs') auto
    show ?thesis
    proof (cases j)
      case 0
      then show ?thesis using True qs i b by simp
    next
      case (Suc j')
      then show ?thesis using True qs i b by (intro disjI2 exI [of _ j']) (simp add: nth_append)
    qed
  next
    case False
    then show ?thesis using qs assms(1)
      by (cases i) (auto simp: nth_append intro!: exI [of _ "i - 1"])
  qed
qed

lemma rr_fair:
  assumes "i < length (snd v)" and "\<not> idle (snd v ! i)"
  shows "\<exists>j\<le>Suc i. 0 < j \<and> fst ((rr idle ^^ j) v) = snd v ! i"
  using assms
proof (induction i arbitrary: v rule: less_induct)
  case (less i)
  obtain a qs where v: "v = (a, qs)" by (cases v)
  from rr_moves [of i qs idle a] less.prems v
  consider "fst (rr idle v) = snd v ! i"
    | i' where "i' < i" "i' < length (snd (rr idle v))" "snd (rr idle v) ! i' = snd v ! i"
    by auto
  then show ?case
  proof cases
    case 1
    then show ?thesis by (intro exI [of _ 1]) simp
  next
    case 2
    with less.IH [of i' "rr idle v"] less.prems obtain j where
      "j \<le> Suc i'" "fst ((rr idle ^^ j) (rr idle v)) = snd v ! i"
      by auto
    with 2 show ?thesis by (intro exI [of _ "Suc j"]) (simp add: funpow_swap1)
  qed
qed

text \<open>\<open>n\<close> passes of the scheduler, with the user contexts found at each clock interrupt.\<close>

fun after_sched :: "sched \<Rightarrow> kstate" where
  "after_sched (SchedErr s) = s"
| "after_sched (NoSwitch s) = s"
| "after_sched (Switched k s) = s"

fun passes :: "(nat \<Rightarrow> user_context) \<Rightarrow> nat \<Rightarrow> kstate \<Rightarrow> kstate res" where
  "passes ucs 0 s = Inr s"
| "passes ucs (Suc n) s =
     res_bind (passes ucs n s) (\<lambda>s. res_bind (do_scheduler (ucs n) s) (\<lambda>r. Inr (after_sched r)))"

lemma do_scheduler_pass:
  assumes "sched_ok s"
  shows "\<exists>r. do_scheduler uc s = Inr r \<and> sched_ok (after_sched r) \<and>
           sched_view (after_sched r) = rr (is_idle s) (sched_view s) \<and>
           is_idle (after_sched r) = is_idle s"
proof (cases "ready_queue s = []")
  case True
  then show ?thesis using assms by (simp add: do_scheduler_def sched_view_def)
next
  case False
  with do_scheduler_rr [OF assms, of uc] show ?thesis by auto
qed

lemma passes_rr:
  assumes "sched_ok s"
  shows "\<exists>s'. passes ucs n s = Inr s' \<and> sched_ok s' \<and>
           sched_view s' = (rr (is_idle s) ^^ n) (sched_view s) \<and> is_idle s' = is_idle s"
proof (induction n)
  case (Suc n)
  then obtain s1 where s1: "passes ucs n s = Inr s1" "sched_ok s1" "is_idle s1 = is_idle s"
    "sched_view s1 = (rr (is_idle s) ^^ n) (sched_view s)"
    by blast
  with do_scheduler_pass [OF s1(2), of "ucs n"] show ?case by auto
qed (use assms in simp)


lemma sample_sched_ok: "sched_ok sample"
  by (simp add: sched_ok_def started_def)

text \<open>
  C8: do_scheduler implements round robin: with every runnable process started and the
  allocator working, it switches to the process at the head of the ready queue and puts the
  running one at the end; the idle process is passed over once and goes to the end. No
  process is lost or duplicated, and the state reached can be scheduled again.
\<close>

theorem do_scheduler_round_robin:
  assumes "sched_ok s" and "ready_queue s \<noteq> []"
  shows "\<exists>k s'. do_scheduler uc s = Inr (Switched k s') \<and> sched_ok s' \<and>
           sched_view s' = rr (is_idle s) (sched_view s) \<and>
           mset (ready_queue s') + {#the (active_proc s')#}
             = mset (ready_queue s) + {#the (active_proc s)#}"
proof -
  obtain k s' where s': "do_scheduler uc s = Inr (Switched k s')" "sched_ok s'"
    "sched_view s' = rr (is_idle s) (sched_view s)" "is_idle s' = is_idle s"
    using do_scheduler_rr [OF assms, of uc] by blast
  have "mset (ready_queue s') + {#the (active_proc s')#}
      = mset (ready_queue s) + {#the (active_proc s)#}"
    using rr_conserves [of "is_idle s" "sched_view s", folded s'(3)] by (simp add: sched_view_def)
  with s' show ?thesis by blast
qed

theorem do_scheduler_round_robin_witness:
  "\<exists>k s'. do_scheduler sample_uc sample = Inr (Switched k s') \<and> active_proc s' = Some 30 \<and>
     ready_queue s' = [10, 20]"
proof -
  obtain k s' where s': "do_scheduler sample_uc sample = Inr (Switched k s')" "sched_ok s'"
    "sched_view s' = rr (is_idle sample) (sched_view sample)"
    using do_scheduler_round_robin [OF sample_sched_ok, of sample_uc] by auto
  then have "sched_view s' = (30, [10, 20])"
    by (simp add: sched_view_def is_idle_def)
  with s' show ?thesis by (auto simp: sched_view_def sched_ok_def)
qed

text \<open>
  Preemption without memory: when the list node for the running process cannot be allocated, the clock's
  scheduler switches to the first ready process (other than idle) all the same, and the process that
  ran is in the ready queue no more than it was before, so a process that was not there, idle for
  example, is lost.
\<close>

theorem preempted_without_memory:
  assumes "malloc_fails s (malloc_cnt s)" and "active_proc s = Some a" and "ready_queue s = b # qs"
    and "started s a" and "started s b" and "\<not> is_idle s b"
  shows "\<exists>k s'. do_scheduler uc s = Inr (Switched k s') \<and> active_proc s' = Some b \<and> ready_queue s' = qs"
proof -
  obtain pa where pa: "pcbs s a = Some pa" using assms(4) by (auto simp: started_def split: option.splits)
  obtain pb where pb: "pcbs s b = Some pb" "pid pb \<noteq> 1" using assms(5,6) by (auto simp: started_def is_idle_def split: option.splits)
  let ?r = "s\<lparr>malloc_cnt := Suc (malloc_cnt s), ready_queue := qs\<rparr>"
  have "pcbs ?r a = Some pa" "started ?r b" using pa assms(5) by (simp_all add: started_def)
  then obtain p m where "((pcbs ?r)(a \<mapsto> outgoing uc K_Sched pa)) b = Some p"
    and "m = pmem (restore_stack p (save_stack pa ?r))"
    and "context_switch uc (Some a) b K_Sched ?r =
      Inr (kctxt p, ?r\<lparr>active_proc := Some b, pcbs := (pcbs ?r)(a \<mapsto> outgoing uc K_Sched pa),
        pmem := m, hw := hw ?r @ [HW_TLB_FLUSH TLB_FLUSH_ALL]\<rparr>)"
    by (rule context_switch_started [where uc = uc and k = K_Sched])
  then show ?thesis using assms(1-3) pb
    by (simp add: do_scheduler_def ready_insert_def klist_append_eq Let_def)
qed

theorem preempted_without_memory_witness:
  "\<exists>k s'. do_scheduler sample_uc (sample\<lparr>malloc_fails := \<lambda>_. True, active_proc := Some 20, ready_queue := [10]\<rparr>) = Inr (Switched k s') \<and>
     active_proc s' = Some 10 \<and> ready_queue s' = []"
  by (rule preempted_without_memory [of _ 20 10]) (simp_all add: started_def is_idle_def)

text \<open>
  C9: round robin is fair: a process other than idle at position \<open>i\<close> of the ready queue
  (counted from 0) runs within \<open>i + 1\<close> passes of the clock's scheduler, whatever the other
  processes are, and none of these passes faults.
\<close>

theorem scheduler_fair:
  assumes "sched_ok s" and "i < length (ready_queue s)" and "\<not> is_idle s (ready_queue s ! i)"
  shows "\<exists>j s'. 0 < j \<and> j \<le> Suc i \<and> passes ucs j s = Inr s' \<and>
           active_proc s' = Some (ready_queue s ! i)"
proof -
  from rr_fair [of i "sched_view s" "is_idle s"] assms obtain j where j: "j \<le> Suc i" "0 < j"
    "fst ((rr (is_idle s) ^^ j) (sched_view s)) = ready_queue s ! i"
    by (auto simp: sched_view_def)
  from passes_rr [OF assms(1), of ucs j] obtain s' where s': "passes ucs j s = Inr s'"
    "sched_ok s'" "sched_view s' = (rr (is_idle s) ^^ j) (sched_view s)"
    by blast
  from s'(2) obtain b where b: "active_proc s' = Some b" by (auto simp: sched_ok_def)
  with s'(3) have "fst ((rr (is_idle s) ^^ j) (sched_view s)) = b"
    by (metis fst_conv option.sel sched_view_def)
  with b j s'(1) show ?thesis by (intro exI [of _ j] exI [of _ s']) simp
qed

theorem scheduler_fair_witness:
  "\<exists>j s'. 0 < j \<and> j \<le> 2 \<and> passes (\<lambda>_. sample_uc) j sample = Inr s' \<and> active_proc s' = Some 30"
proof -
  have "ready_queue sample = [20, 30]" "\<not> is_idle sample 30"
    by (simp_all add: is_idle_def)
  then show ?thesis
    using scheduler_fair [OF sample_sched_ok, of 1 "\<lambda>_. sample_uc"] by (simp add: numeral_2_eq_2)
qed

end
