(* ===== verification/Stack_Properties.thy ===== *)
theory Stack_Properties
  imports Scheduler_Properties
begin

text \<open>
  Kernel stacks. The kernel stack of the running process lives in the two frames mapped at
  the top of region 0; a switch copies it out to the frames of the old process and copies
  the frames of the new process in. A process that was switched out and is switched in
  later finds its stack and its kernel context as they were.
\<close>

section \<open>Frames that differ\<close>

lemma used_mem:
  "i < length t \<Longrightarrow> valid (t ! i) \<Longrightarrow> pfn (t ! i) \<noteq> 0 \<Longrightarrow> pfn (t ! i) \<in># used t"
  using used_update [of i t null_pte] by (metis add_mset_add_single null_pte_simps(1) used_simps(1,2) add_0_right union_single_eq_member)

lemma used_distinct:
  assumes "i < length t" "j < length t" "i \<noteq> j" "valid (t ! i)" "valid (t ! j)" "pfn (t ! i) \<noteq> 0"
    and one: "count (used t) (pfn (t ! i)) = 1"
  shows "pfn (t ! i) \<noteq> pfn (t ! j)"
proof
  assume eq: "pfn (t ! i) = pfn (t ! j)"
  let ?t = "t[i := null_pte]"
  have t: "used ?t + {#pfn (t ! i)#} = used t" using used_update [of i t null_pte] assms by simp
  have "pfn (?t ! j) \<in># used ?t" using assms eq by (intro used_mem) auto
  then have "pfn (t ! i) \<in># used ?t" using assms eq by simp
  then have "0 < count (used ?t) (pfn (t ! i))" by simp
  moreover have "count (used ?t + {#pfn (t ! i)#}) (pfn (t ! i)) = 1" using one t by simp
  ultimately show False by (simp add: not_in_iff [symmetric])
qed

lemma isolated_differ:
  "isolated F \<Longrightarrow> f \<in># F a \<Longrightarrow> g \<in># F b \<Longrightarrow> a \<noteq> b \<Longrightarrow> f \<noteq> g"
  unfolding isolated_def by blast

definition kstack_ok :: "pcb \<Rightarrow> bool" where
  "kstack_ok p \<longleftrightarrow> length (k_stack_pt p) = 2 \<and>
     valid (k_stack_pt p ! 0) \<and> valid (k_stack_pt p ! 1) \<and>
     pfn (k_stack_pt p ! 0) \<noteq> 0 \<and> pfn (k_stack_pt p ! 1) \<noteq> 0"

definition region0_stack_ok :: "kstate \<Rightarrow> bool" where
  "region0_stack_ok s \<longleftrightarrow> length (krnl_page_table s) = 128 \<and>
     valid (krnl_page_table s ! 126) \<and> valid (krnl_page_table s ! 127) \<and>
     stack_frame 0 s \<noteq> 0 \<and> stack_frame 1 s \<noteq> 0"

lemma kstack_frames:
  assumes "isolated (frames_of s)" and "pcbs s a = Some p" and "kstack_ok p"
  shows "pfn (k_stack_pt p ! 0) \<in># frames_of s (Proc a)"
    and "pfn (k_stack_pt p ! 1) \<in># frames_of s (Proc a)"
    and "pfn (k_stack_pt p ! 0) \<noteq> pfn (k_stack_pt p ! 1)"
proof -
  have m: "pfn (k_stack_pt p ! 0) \<in># used (k_stack_pt p)" "pfn (k_stack_pt p ! 1) \<in># used (k_stack_pt p)"
    using assms(3) by (auto simp: kstack_ok_def intro!: used_mem)
  then show in0: "pfn (k_stack_pt p ! 0) \<in># frames_of s (Proc a)"
    and "pfn (k_stack_pt p ! 1) \<in># frames_of s (Proc a)"
    using assms(2) by auto
  have "count (frames_of s (Proc a)) (pfn (k_stack_pt p ! 0)) = 1"
    using assms(1) in0 unfolding isolated_def by blast
  then have "count (used (k_stack_pt p)) (pfn (k_stack_pt p ! 0)) \<le> 1" using assms(2) by simp
  with m(1) have "count (used (k_stack_pt p)) (pfn (k_stack_pt p ! 0)) = 1"
    using count_greater_zero_iff [of "used (k_stack_pt p)"] by (metis less_one nat_less_le not_less)
  then show "pfn (k_stack_pt p ! 0) \<noteq> pfn (k_stack_pt p ! 1)"
    using assms(3) by (intro used_distinct) (auto simp: kstack_ok_def)
qed

lemma region0_frames:
  assumes "isolated (frames_of s)" and "region0_stack_ok s"
  shows "stack_frame 0 s \<in># frames_of s Kernel" and "stack_frame 1 s \<in># frames_of s Kernel"
    and "stack_frame 0 s \<noteq> stack_frame 1 s"
proof -
  show in0: "stack_frame 0 s \<in># frames_of s Kernel" and "stack_frame 1 s \<in># frames_of s Kernel"
    using assms(2) by (auto simp: region0_stack_ok_def stack_frame_def intro!: used_mem)
  have "count (used (krnl_page_table s)) (stack_frame 0 s) = 1"
    using assms(1) in0 unfolding isolated_def by (metis frames_of.simps(3))
  then show "stack_frame 0 s \<noteq> stack_frame 1 s"
    using assms(2) unfolding stack_frame_def region0_stack_ok_def by (intro used_distinct) auto
qed

section \<open>Copying stacks out and in\<close>

lemma save_stack_mem:
  assumes "isolated (frames_of s)" and "pcbs s a = Some p" and "kstack_ok p" and "region0_stack_ok s"
  shows "pmem (save_stack p s) = (pmem s)
           (pfn (k_stack_pt p ! 0) := pmem s (stack_frame 0 s),
            pfn (k_stack_pt p ! 1) := pmem s (stack_frame 1 s))"
proof -
  have "stack_frame 1 s \<noteq> pfn (k_stack_pt p ! 0)"
    using isolated_differ [OF assms(1) region0_frames(2) [OF assms(1,4)] kstack_frames(1) [OF assms(1-3)]]
    by simp
  then show ?thesis by (simp add: save_stack_def copy_frame_def stack_frame_def)
qed

lemma restore_stack_mem:
  assumes "pfn (k_stack_pt p ! 1) \<noteq> stack_frame 0 s"
  shows "pmem (restore_stack p s) = (pmem s)
           (stack_frame 0 s := pmem s (pfn (k_stack_pt p ! 0)),
            stack_frame 1 s := pmem s (pfn (k_stack_pt p ! 1)))"
  using assms by (simp add: restore_stack_def copy_frame_def stack_frame_def)


lemma kstack_ok_started: "pcbs s b = Some p \<Longrightarrow> kstack_ok p \<Longrightarrow> started s b"
  by (simp add: started_def kstack_ok_def)

text \<open>The state after a switch to another process that has run before.\<close>

lemma context_switch_effect:
  assumes "pcbs s a = Some pa" and "pcbs s b = Some pb" and "a \<noteq> b" and "kstack_ok pb"
    and run: "context_switch uc (Some a) b k s = Inr (k', s')"
  shows "k' = kctxt pb" and "pcbs s' = (pcbs s)(a \<mapsto> outgoing uc k pa)"
    and "pmem s' = pmem (restore_stack pb (save_stack pa s))"
    and "krnl_page_table s' = krnl_page_table s"
proof -
  obtain p m where p: "((pcbs s)(a \<mapsto> outgoing uc k pa)) b = Some p"
    and m: "m = pmem (restore_stack p (save_stack pa s))"
    and eq: "context_switch uc (Some a) b k s =
           Inr (kctxt p, s\<lparr>active_proc := Some b, pcbs := (pcbs s)(a \<mapsto> outgoing uc k pa),
             pmem := m, hw := hw s @ [HW_TLB_FLUSH TLB_FLUSH_ALL]\<rparr>)"
    using context_switch_started [OF assms(1) kstack_ok_started [OF assms(2,4)]] .
  from p assms(2,3) have "p = pb" by simp
  with m eq run show "k' = kctxt pb" and "pcbs s' = (pcbs s)(a \<mapsto> outgoing uc k pa)"
    and "pmem s' = pmem (restore_stack pb (save_stack pa s))"
    and "krnl_page_table s' = krnl_page_table s"
    by auto
qed

lemma context_switch_mem:
  assumes iso: "isolated (frames_of s)" and r0: "region0_stack_ok s"
    and a: "pcbs s a = Some pa" "kstack_ok pa" and b: "pcbs s b = Some pb" "kstack_ok pb"
    and ab: "a \<noteq> b" and run: "context_switch uc (Some a) b k s = Inr (k', s')" and i: "i \<in> {0, 1}"
  shows "pmem s' (pfn (k_stack_pt pa ! i)) = pmem s (stack_frame i s)"
    and "pmem s' (stack_frame i s) = pmem s (pfn (k_stack_pt pb ! i))"
proof -
  note fa = kstack_frames [OF iso a] and fb = kstack_frames [OF iso b] and fk = region0_frames [OF iso r0]
  note sv = save_stack_mem [OF iso a r0]
  have sf: "stack_frame j (save_stack pa s) = stack_frame j s" for j by (simp add: stack_frame_def)
  have m: "pfn (k_stack_pt pa ! x) \<in># frames_of s (Proc a)"
    "pfn (k_stack_pt pb ! x) \<in># frames_of s (Proc b)" "stack_frame x s \<in># frames_of s Kernel"
    if "x \<in> {0, 1}" for x
    using that fa(1,2) fb(1,2) fk(1,2) by (auto simp del: frames_of.simps)
  have bk: "pfn (k_stack_pt pb ! x) \<noteq> stack_frame y s"
    and ak: "pfn (k_stack_pt pa ! x) \<noteq> stack_frame y s"
    and ba: "pfn (k_stack_pt pb ! x) \<noteq> pfn (k_stack_pt pa ! y)" if "x \<in> {0, 1}" "y \<in> {0, 1}" for x y
    by (rule isolated_differ [OF iso m(2) [OF that(1)] m(3) [OF that(2)]], simp)
      (rule isolated_differ [OF iso m(1) [OF that(1)] m(3) [OF that(2)]], simp,
       rule isolated_differ [OF iso m(2) [OF that(1)] m(1) [OF that(2)]], use ab in simp)
  have mem: "pmem s' = (pmem (save_stack pa s))
      (stack_frame 0 s := pmem (save_stack pa s) (pfn (k_stack_pt pb ! 0)),
       stack_frame 1 s := pmem (save_stack pa s) (pfn (k_stack_pt pb ! 1)))"
    using restore_stack_mem [of pb "save_stack pa s"] bk [of 1 0]
    unfolding context_switch_effect(3) [OF a(1) b(1) ab b(2) run] sf by simp
  have saved: "pmem (save_stack pa s) (pfn (k_stack_pt pb ! x)) = pmem s (pfn (k_stack_pt pb ! x))"
    if "x \<in> {0, 1}" for x
    unfolding sv using ba [OF that, of 0] ba [OF that, of 1] by simp
  show "pmem s' (stack_frame i s) = pmem s (pfn (k_stack_pt pb ! i))"
    using i fk(3) saved unfolding mem by auto
  have "pmem s' (pfn (k_stack_pt pa ! i)) = pmem (save_stack pa s) (pfn (k_stack_pt pa ! i))"
    using ak [OF i, of 0] ak [OF i, of 1] unfolding mem by simp
  then show "pmem s' (pfn (k_stack_pt pa ! i)) = pmem s (stack_frame i s)"
    using i fa(3) unfolding sv by auto
qed

text \<open>
  C10: kernel contexts and kernel stacks survive a switch. Process \<open>a\<close> is switched out in
  the middle of kernel code \<open>k\<close>; later, when other processes may have run but the kernel
  stack frames and the pcb of \<open>a\<close> have not been touched, some process \<open>c\<close> switches back
  to it. The switch succeeds, \<open>a\<close> goes on with \<open>k\<close>, its saved user context is the one it was switched out
  with, and the kernel stack in region 0 has the contents it had before.
\<close>

theorem kernel_stack_round_trip:
  assumes "isolated (frames_of s)" and "region0_stack_ok s"
    and "pcbs s a = Some pa" and "kstack_ok pa" and "pcbs s b = Some pb" and "kstack_ok pb" and "a \<noteq> b"
    and out: "context_switch uc (Some a) b k s = Inr (kb, s1)"
    and "pcbs s2 a = pcbs s1 a" and "krnl_page_table s2 = krnl_page_table s1"
    and "pmem s2 (pfn (k_stack_pt pa ! 0)) = pmem s1 (pfn (k_stack_pt pa ! 0))"
    and "pmem s2 (pfn (k_stack_pt pa ! 1)) = pmem s1 (pfn (k_stack_pt pa ! 1))"
    and "isolated (frames_of s2)" and "pcbs s2 c = Some pc" and "kstack_ok pc" and "c \<noteq> a"
  shows "\<exists>s3 p. context_switch uc' (Some c) a k' s2 = Inr (k, s3) \<and> pcbs s3 a = Some p \<and> uctxt p = uc \<and>
         (\<forall>i\<in>{0, 1}. pmem s3 (stack_frame i s3) = pmem s (stack_frame i s))"
proof -
  let ?pa = "outgoing uc k pa"
  have s2a: "pcbs s2 a = Some ?pa" and kt: "krnl_page_table s2 = krnl_page_table s"
    using context_switch_effect [OF assms(3,5,7,6) out] assms(9,10) by simp_all
  have oka: "kstack_ok ?pa" using assms(4) by (simp add: kstack_ok_def outgoing_def)
  have r2: "region0_stack_ok s2" using assms(2) kt by (simp add: region0_stack_ok_def stack_frame_def)
  have "started s2 a" using s2a oka by (simp add: started_def kstack_ok_def)
  from context_switch_started [OF assms(14) this, of uc' k'] obtain ka s3 where
    into: "context_switch uc' (Some c) a k' s2 = Inr (ka, s3)" by metis
  note e = context_switch_effect [OF assms(14) s2a assms(16) oka into]
  have sf: "stack_frame i s3 = stack_frame i s2" "stack_frame i s2 = stack_frame i s" for i
    using e(4) kt by (simp_all add: stack_frame_def)
  have "pmem s3 (stack_frame i s3) = pmem s (stack_frame i s)" if "i \<in> {0, 1}" for i
    using context_switch_mem(2) [OF assms(13) r2 assms(14,15) s2a oka assms(16) into that]
      context_switch_mem(1) [OF assms(1-7) out that] assms(11,12) that
    by (auto simp: sf outgoing_def)
  then show ?thesis using into e(1,2) s2a assms(16) by (auto simp: outgoing_def)
qed

lemma sample_region0: "region0_stack_ok sample"
  by (simp add: region0_stack_ok_def stack_frame_def sample_def)

theorem kernel_stack_round_trip_witness:
  "\<exists>s1 s3 kb. context_switch sample_uc (Some 10) 20 K_Delay sample = Inr (kb, s1) \<and>
     context_switch sample_uc (Some 20) 10 K_Sched s1 = Inr (K_Delay, s3) \<and>
     pmem s3 (stack_frame 0 s3) = pmem sample (stack_frame 0 sample)"
proof -
  let ?pa = "(sample_pcb 0 200)\<lparr>u_page_table := sample_table\<rparr>"
  have ok: "kstack_ok ?pa" "kstack_ok (sample_pcb 1 202)" by (simp_all add: kstack_ok_def)
  have "pcbs sample 10 = Some ?pa" "started sample 20" by (simp_all add: started_def)
  then obtain p m where "((pcbs sample)(10 \<mapsto> outgoing sample_uc K_Delay ?pa)) 20 = Some p"
    and "m = pmem (restore_stack p (save_stack ?pa sample))"
    and s1: "context_switch sample_uc (Some 10) 20 K_Delay sample =
      Inr (kctxt p, sample\<lparr>active_proc := Some 20,
        pcbs := (pcbs sample)(10 \<mapsto> outgoing sample_uc K_Delay ?pa), pmem := m,
        hw := hw sample @ [HW_TLB_FLUSH TLB_FLUSH_ALL]\<rparr>)" (is "_ = Inr (_, ?s1)")
    by (rule context_switch_started [where uc = sample_uc and k = K_Delay])
  have "frames_of ?s1 c = frames_of sample c" for c
    by (cases c) (auto simp: outgoing_def)
  then have iso: "isolated (frames_of ?s1)" using sample_isolated by (simp add: isolated_def)
  have c1: "pcbs ?s1 20 = Some (sample_pcb 1 202)" by simp
  have "\<exists>s3 p. context_switch sample_uc (Some 20) 10 K_Sched ?s1 = Inr (K_Delay, s3) \<and> pcbs s3 10 = Some p \<and>
      uctxt p = sample_uc \<and> (\<forall>i\<in>{0, 1}. pmem s3 (stack_frame i s3) = pmem sample (stack_frame i sample))"
    by (rule kernel_stack_round_trip [OF sample_isolated sample_region0 _ ok(1) _ ok(2) _ s1 refl refl
          refl refl iso c1 ok(2)]) simp_all
  with s1 show ?thesis by auto
qed

end
