(* ===== verification/Sleep_Properties.thy ===== *)
theory Sleep_Properties
  imports Samples Scheduler
begin

text \<open>
  The sleep list: what one clock tick does to it, and how long a process that called Delay
  stays in it.
\<close>

section \<open>One tick\<close>

definition due :: "kstate \<Rightarrow> addr \<Rightarrow> bool" where
  "due s a \<longleftrightarrow> ticks_left (the (sleeps s a)) \<le> 1"

definition sleeper :: "kstate \<Rightarrow> addr \<Rightarrow> addr" where
  "sleeper s a = sleep_pcb (the (sleeps s a))"

text \<open>Every entry of the sleep list is a live record of a live process.\<close>

definition sleep_ok :: "kstate \<Rightarrow> bool" where
  "sleep_ok s \<longleftrightarrow> mem_ok s \<and> distinct (sleep_list s) \<and>
     (\<forall>a\<in>set (sleep_list s). sleeps s a \<noteq> None \<and> pcbs s (sleeper s a) \<noteq> None \<and> a < malloc_cnt s)"

definition ticked :: "sleep_info \<Rightarrow> sleep_info" where
  "ticked si = si\<lparr>ticks_left := ticks_left si - 1\<rparr>"

text \<open>The records and the processes after a tick over the entries \<open>l\<close>.\<close>

definition sleeps_after :: "kstate \<Rightarrow> addr list \<Rightarrow> addr \<Rightarrow> sleep_info option" where
  "sleeps_after s l a =
     (if a \<in> set l then if due s a then None else map_option ticked (sleeps s a) else sleeps s a)"

definition pcbs_after :: "kstate \<Rightarrow> addr list \<Rightarrow> addr \<Rightarrow> pcb option" where
  "pcbs_after s l p =
     (if p \<in> sleeper s ` {a \<in> set l. due s a} then map_option (\<lambda>p. p\<lparr>state := READY\<rparr>) (pcbs s p)
      else pcbs s p)"

lemma klist_remove_middle:
  "klist_remove (xs @ a # ys) (int (length xs) + 1) = (Some a, xs @ ys)"
  by (simp add: klist_remove_def in_range_def remove_at_def nat_add_distrib)

text \<open>The state after a tick that has passed over \<open>kept\<close> and still visits \<open>rest\<close>.\<close>

definition after_tick :: "addr list \<Rightarrow> addr list \<Rightarrow> kstate \<Rightarrow> kstate" where
  "after_tick kept rest s =
     s\<lparr>sleep_list := kept @ filter (\<lambda>a. \<not> due s a) rest,
       ready_queue := ready_queue s @ map (sleeper s) (filter (due s) rest),
       sleeps := sleeps_after s rest, pcbs := pcbs_after s rest,
       malloc_cnt := malloc_cnt s + length (filter (due s) rest),
       ub_log := ub_log s @ replicate (length (filter (due s) rest)) ReadFreedNode\<rparr>"

lemma due_cong:
  assumes "\<forall>b\<in>set rest. sleeps s1 b = sleeps s b"
  shows "filter (due s1) rest = filter (due s) rest"
    and "filter (\<lambda>a. \<not> due s1 a) rest = filter (\<lambda>a. \<not> due s a) rest"
    and "map (sleeper s1) (filter (due s) rest) = map (sleeper s) (filter (due s) rest)"
    and "sleeper s1 ` {b \<in> set rest. due s1 b} = sleeper s ` {b \<in> set rest. due s b}"
  using assms by (auto simp: due_def sleeper_def image_iff cong: filter_cong map_cong)

text \<open>The state after the entry \<open>a\<close> was visited: its process wakes up, or it has one tick less.\<close>

definition wake_entry :: "addr \<Rightarrow> addr list \<Rightarrow> kstate \<Rightarrow> kstate" where
  "wake_entry a l s =
     s\<lparr>pcbs := (pcbs s)(sleeper s a := map_option (\<lambda>p. p\<lparr>state := READY\<rparr>) (pcbs s (sleeper s a))),
       malloc_cnt := Suc (malloc_cnt s), ready_queue := ready_queue s @ [sleeper s a],
       sleep_list := l, sleeps := (sleeps s)(a := None), ub_log := ub_log s @ [ReadFreedNode]\<rparr>"

definition tick_entry :: "addr \<Rightarrow> kstate \<Rightarrow> kstate" where
  "tick_entry a s = s\<lparr>sleeps := (sleeps s)(a := map_option ticked (sleeps s a))\<rparr>"

lemma after_tick_wake:
  assumes "due s a" and "a \<notin> set rest"
  shows "after_tick kept rest (wake_entry a l s) = after_tick kept (a # rest) s"
proof -
  let ?s = "wake_entry a l s"
  have same: "\<forall>b\<in>set rest. sleeps ?s b = sleeps s b" using assms(2) by (auto simp: wake_entry_def)
  have "sleeps_after ?s rest = sleeps_after s (a # rest)"
    using assms same by (auto simp: sleeps_after_def fun_eq_iff wake_entry_def due_def)
  moreover have "pcbs_after ?s rest = pcbs_after s (a # rest)"
    unfolding pcbs_after_def due_cong(4) [OF same] using assms(1)
    by (auto simp: fun_eq_iff wake_entry_def image_iff option.map_comp o_def)
  ultimately show ?thesis
    using assms(1) unfolding after_tick_def due_cong(1,2) [OF same] due_cong(3) [OF same]
    by (simp add: wake_entry_def)
qed

lemma after_tick_keep:
  assumes "\<not> due s a" and "a \<notin> set rest"
  shows "after_tick (kept @ [a]) rest (tick_entry a s) = after_tick kept (a # rest) s"
proof -
  let ?s = "tick_entry a s"
  have same: "\<forall>b\<in>set rest. sleeps ?s b = sleeps s b" using assms(2) by (auto simp: tick_entry_def)
  have "sleeps_after ?s rest = sleeps_after s (a # rest)"
    using assms same by (auto simp: sleeps_after_def fun_eq_iff tick_entry_def due_def)
  moreover have "{b \<in> set (a # rest). due s b} = {b \<in> set rest. due s b}" using assms(1) by auto
  then have "pcbs_after ?s rest = pcbs_after s (a # rest)"
    unfolding pcbs_after_def due_cong(4) [OF same] by (simp add: fun_eq_iff tick_entry_def)
  ultimately show ?thesis
    using assms(1) unfolding after_tick_def due_cong(1,2) [OF same] due_cong(3) [OF same]
    by (simp add: tick_entry_def)
qed

lemma update_sleep_step:
  assumes "mem_ok s" and "sleep_list s = kept @ a # rest"
    and "sleeps s a \<noteq> None" and "pcbs s (sleeper s a) \<noteq> None"
  shows "update_sleep (a # rest) (int (length kept) + 1) s =
     (if due s a then update_sleep rest (int (length kept) + 1) (wake_entry a (kept @ rest) s)
      else update_sleep rest (int (length (kept @ [a])) + 1) (tick_entry a s))"
proof -
  obtain si p where si: "sleeps s a = Some si" and p: "pcbs s (sleep_pcb si) = Some p"
    using assms(3,4) by (auto simp: sleeper_def)
  show ?thesis
    using si p assms(1,2)
    by (auto simp: due_def set_pcb_def mem_ok_def klist_remove_middle Let_def wake_entry_def tick_entry_def
        ticked_def sleeper_def ready_insert_def klist_append_eq add.commute [of 1])
qed

lemma update_sleep_spec:
  assumes "mem_ok s" and "sleep_list s = kept @ rest" and "distinct rest"
    and "\<forall>a\<in>set rest. sleeps s a \<noteq> None \<and> pcbs s (sleeper s a) \<noteq> None"
  shows "update_sleep rest (int (length kept) + 1) s = Inr (0, after_tick kept rest s)"
  using assms
proof (induction rest arbitrary: kept s)
  case Nil
  have "sleeps_after s [] = sleeps s" "pcbs_after s [] = pcbs s"
    by (simp_all add: sleeps_after_def pcbs_after_def fun_eq_iff)
  with Nil show ?case by (simp add: after_tick_def)
next
  case (Cons a rest)
  then have step: "update_sleep (a # rest) (int (length kept) + 1) s =
     (if due s a then update_sleep rest (int (length kept) + 1) (wake_entry a (kept @ rest) s)
      else update_sleep rest (int (length (kept @ [a])) + 1) (tick_entry a s))"
    by (intro update_sleep_step) auto
  show ?case
  proof (cases "due s a")
    case True
    have "update_sleep rest (int (length kept) + 1) (wake_entry a (kept @ rest) s)
        = Inr (0, after_tick kept rest (wake_entry a (kept @ rest) s))"
      using Cons.prems by (intro Cons.IH) (auto simp: wake_entry_def mem_ok_def sleeper_def)
    with True step Cons.prems(3) show ?thesis by (simp add: after_tick_wake)
  next
    case False
    have "update_sleep rest (int (length (kept @ [a])) + 1) (tick_entry a s)
        = Inr (0, after_tick (kept @ [a]) rest (tick_entry a s))"
      using Cons.prems by (intro Cons.IH) (auto simp: tick_entry_def mem_ok_def sleeper_def)
    with False step Cons.prems(3) show ?thesis by (simp add: after_tick_keep)
  qed
qed

lemma update_sleep_list_eq:
  assumes "sleep_ok s"
  shows "update_sleep_list s = Inr (0, after_tick [] (sleep_list s) s)"
  using update_sleep_spec [of s "[]" "sleep_list s"] assms
  by (simp add: update_sleep_list_def sleep_ok_def)

lemma after_tick_ok: "sleep_ok s \<Longrightarrow> sleep_ok (after_tick [] (sleep_list s) s)"
  by (auto simp: sleep_ok_def after_tick_def mem_ok_def sleeps_after_def pcbs_after_def sleeper_def
      ticked_def split: option.splits)


section \<open>Delay\<close>

fun ticks :: "nat \<Rightarrow> kstate \<Rightarrow> kstate res" where
  "ticks 0 s = Inr s"
| "ticks (Suc n) s = res_bind (ticks n s) (\<lambda>s. res_bind (update_sleep_list s) (\<lambda>(_, s). Inr s))"

text \<open>Process \<open>a\<close> sleeps for \<open>t\<close> more ticks, through its only entry \<open>b\<close>.\<close>

definition asleep :: "addr \<Rightarrow> addr \<Rightarrow> int \<Rightarrow> kstate \<Rightarrow> bool" where
  "asleep a b t s \<longleftrightarrow> sleep_ok s \<and> b \<in> set (sleep_list s) \<and>
     sleeps s b = Some \<lparr>ticks_left = t, sleep_pcb = a\<rparr> \<and>
     (\<forall>c\<in>set (sleep_list s). sleeper s c = a \<longrightarrow> c = b) \<and> a \<notin> set (ready_queue s)"

lemma tick_asleep:
  assumes "asleep a b t s" and "1 < t"
  shows "asleep a b (t - 1) (after_tick [] (sleep_list s) s)"
proof -
  let ?s = "after_tick [] (sleep_list s) s"
  have ok: "sleep_ok ?s" using assms(1) after_tick_ok by (simp add: asleep_def)
  have nd: "\<not> due s b" using assms by (simp add: asleep_def due_def)
  have "\<not> due s c \<Longrightarrow> c \<in> set (sleep_list s) \<Longrightarrow> sleeper ?s c = sleeper s c" for c
    using assms(1) by (auto simp: after_tick_def sleeper_def sleeps_after_def ticked_def asleep_def sleep_ok_def)
  moreover have "a \<notin> sleeper s ` set (filter (due s) (sleep_list s))"
    using assms(1) nd by (auto simp: asleep_def)
  ultimately show ?thesis
    using assms nd ok unfolding asleep_def
    by (auto simp: after_tick_def sleeps_after_def ticked_def)
qed

lemma ticks_asleep:
  assumes "asleep a b t s" and "int m < t"
  shows "\<exists>s'. ticks m s = Inr s' \<and> asleep a b (t - int m) s'"
  using assms(2)
proof (induction m)
  case 0
  then show ?case using assms(1) by simp
next
  case (Suc m)
  then obtain s' where s': "ticks m s = Inr s'" "asleep a b (t - int m) s'" by auto
  then have "asleep a b (t - int m - 1) (after_tick [] (sleep_list s') s')"
    using Suc.prems by (intro tick_asleep) auto
  with s' show ?case by (simp add: update_sleep_list_eq asleep_def algebra_simps)
qed

lemma ticks_wake:
  assumes "asleep a b t s" and "0 < t"
  shows "\<exists>s'. ticks (nat t) s = Inr s' \<and> a \<in> set (ready_queue s') \<and> b \<notin> set (sleep_list s')"
proof -
  obtain m where m: "nat t = Suc m" using assms(2) by (cases "nat t") auto
  then have "int m < t" "t - int m = 1" by auto
  with ticks_asleep [OF assms(1)] obtain s' where s': "ticks m s = Inr s'" "asleep a b 1 s'" by metis
  then have "update_sleep_list s' = Inr (0, after_tick [] (sleep_list s') s')" "due s' b"
      "sleeper s' b = a" "b \<in> set (sleep_list s')"
    by (simp_all add: asleep_def update_sleep_list_eq due_def sleeper_def)
  with s'(1) show ?thesis unfolding m by (auto simp: after_tick_def image_iff)
qed

lemma sys_Delay_asleep:
  assumes "sleep_ok s" and "active_proc s = Some a" and "pcbs s a = Some p"
    and "0 < sint (reg uc 0)" and "a \<notin> set (ready_queue s)" and "a \<notin> sleeper s ` set (sleep_list s)"
  shows "\<exists>s'. sys_Delay uc s = Inr (Yield K_Delay s') \<and> asleep a (malloc_cnt s) (sint (reg uc 0)) s'"
proof -
  let ?b = "malloc_cnt s"
  let ?s = "s\<lparr>pcbs := (pcbs s)(a \<mapsto> p\<lparr>state := DELAY\<rparr>),
    sleeps := (sleeps s)(?b \<mapsto> \<lparr>ticks_left = sint (reg uc 0), sleep_pcb = a\<rparr>),
    malloc_cnt := Suc (Suc ?b), sleep_list := sleep_list s @ [?b]\<rparr>"
  have "sys_Delay uc s = Inr (Yield K_Delay ?s)"
    using assms by (simp add: sys_Delay_def insert_sleep_list_def sleep_ok_def malloc_ok mem_ok_def
        klist_append_eq set_pcb_def Let_def)
  moreover have fresh: "?b \<notin> set (sleep_list s)" using assms(1) by (auto simp: sleep_ok_def)
  moreover have "asleep a ?b (sint (reg uc 0)) ?s"
    using assms fresh
    by (auto simp: asleep_def sleep_ok_def sleeper_def mem_ok_def image_iff less_Suc_eq split: if_splits)
  ultimately show ?thesis by blast
qed

text \<open>
  One clock tick over the sleep list. Every sleeping process loses one tick; those that
  had one tick left leave the list, their record is freed, they become READY and are
  appended to the ready queue in the order they had in the sleep list; the others stay, in
  order. Nothing else changes, except that each removal reads the next pointer of the node
  it has just freed, which is logged.
\<close>

theorem tick_exact:
  assumes "sleep_ok s"
  shows "\<exists>s'. update_sleep_list s = Inr (0, s') \<and> sleep_ok s' \<and>
     sleep_list s' = filter (\<lambda>a. ticks_left (the (sleeps s a)) > 1) (sleep_list s) \<and>
     ready_queue s' = ready_queue s @
       map (\<lambda>a. sleep_pcb (the (sleeps s a)))
         (filter (\<lambda>a. ticks_left (the (sleeps s a)) \<le> 1) (sleep_list s)) \<and>
     (\<forall>a\<in>set (sleep_list s'). sleeps s' a =
        Some ((the (sleeps s a))\<lparr>ticks_left := ticks_left (the (sleeps s a)) - 1\<rparr>)) \<and>
     ub_log s' = ub_log s @ replicate (length (sleep_list s) - length (sleep_list s')) ReadFreedNode"
proof -
  let ?s = "after_tick [] (sleep_list s) s"
  have len: "length (filter (due s) (sleep_list s))
      = length (sleep_list s) - length (filter (\<lambda>a. \<not> due s a) (sleep_list s))"
    using sum_length_filter_compl [of "due s" "sleep_list s"] by simp
  have "\<forall>a\<in>set (sleep_list ?s). sleeps ?s a =
        Some ((the (sleeps s a))\<lparr>ticks_left := ticks_left (the (sleeps s a)) - 1\<rparr>)"
    using assms by (auto simp: after_tick_def sleeps_after_def ticked_def sleep_ok_def)
  moreover have "sleep_list ?s = filter (\<lambda>a. ticks_left (the (sleeps s a)) > 1) (sleep_list s)"
    by (simp add: after_tick_def due_def not_le)
  moreover have "ub_log ?s = ub_log s @ replicate (length (sleep_list s) - length (sleep_list ?s)) ReadFreedNode"
    using len by (simp add: after_tick_def)
  moreover have "ready_queue ?s = ready_queue s @ map (\<lambda>a. sleep_pcb (the (sleeps s a)))
         (filter (\<lambda>a. ticks_left (the (sleeps s a)) \<le> 1) (sleep_list s))"
    by (simp add: after_tick_def due_def [abs_def] sleeper_def [abs_def])
  ultimately show ?thesis using update_sleep_list_eq [OF assms] after_tick_ok [OF assms] by blast
qed

definition sleepy :: kstate where
  "sleepy = sample\<lparr>ready_queue := [20], sleep_list := [50, 51],
     sleeps := [50 \<mapsto> \<lparr>ticks_left = 1, sleep_pcb = 30\<rparr>, 51 \<mapsto> \<lparr>ticks_left = 5, sleep_pcb = 10\<rparr>]\<rparr>"

lemma sleepy_ok: "sleep_ok sleepy"
  by (simp add: sleep_ok_def sleepy_def sleeper_def mem_ok_def)

theorem tick_exact_witness:
  "\<exists>s'. update_sleep_list sleepy = Inr (0, s') \<and> sleep_list s' = [51] \<and> ready_queue s' = [20, 30] \<and>
     sleeps s' 51 = Some \<lparr>ticks_left = 4, sleep_pcb = 10\<rparr> \<and> ub_log s' = [ReadFreedNode]"
proof -
  obtain s' where s': "update_sleep_list sleepy = Inr (0, s')"
    "sleep_list s' = filter (\<lambda>a. ticks_left (the (sleeps sleepy a)) > 1) (sleep_list sleepy)"
    "ready_queue s' = ready_queue sleepy @ map (\<lambda>a. sleep_pcb (the (sleeps sleepy a)))
       (filter (\<lambda>a. ticks_left (the (sleeps sleepy a)) \<le> 1) (sleep_list sleepy))"
    "\<forall>a\<in>set (sleep_list s'). sleeps s' a =
       Some ((the (sleeps sleepy a))\<lparr>ticks_left := ticks_left (the (sleeps sleepy a)) - 1\<rparr>)"
    "ub_log s' = ub_log sleepy @ replicate (length (sleep_list sleepy) - length (sleep_list s')) ReadFreedNode"
    using tick_exact [OF sleepy_ok] by blast
  then show ?thesis by (simp add: sleepy_def)
qed

text \<open>
  C17: a process that calls Delay with \<open>n > 0\<close> ticks blocks, is not ready after any number
  of ticks smaller than \<open>n\<close>, and is back in the ready queue after exactly \<open>n\<close> ticks.
\<close>

theorem delay_sleeps_exactly:
  assumes "sleep_ok s" and "active_proc s = Some a" and "pcbs s a = Some p"
    and "0 < sint (reg uc 0)" and "a \<notin> set (ready_queue s)"
    and "\<forall>b\<in>set (sleep_list s). sleep_pcb (the (sleeps s b)) \<noteq> a"
  shows "\<exists>s1. sys_Delay uc s = Inr (Yield K_Delay s1) \<and>
     (\<forall>m. int m < sint (reg uc 0) \<longrightarrow> (\<exists>s'. ticks m s1 = Inr s' \<and> a \<notin> set (ready_queue s'))) \<and>
     (\<exists>s'. ticks (nat (sint (reg uc 0))) s1 = Inr s' \<and> a \<in> set (ready_queue s'))"
proof -
  have "a \<notin> sleeper s ` set (sleep_list s)" using assms(6) by (auto simp: sleeper_def)
  from sys_Delay_asleep [OF assms(1-5) this] obtain s1 where
    s1: "sys_Delay uc s = Inr (Yield K_Delay s1)" "asleep a (malloc_cnt s) (sint (reg uc 0)) s1"
    by blast
  have "\<exists>s'. ticks m s1 = Inr s' \<and> a \<notin> set (ready_queue s')" if "int m < sint (reg uc 0)" for m
    using ticks_asleep [OF s1(2) that] by (auto simp: asleep_def)
  moreover have "\<exists>s'. ticks (nat (sint (reg uc 0))) s1 = Inr s' \<and> a \<in> set (ready_queue s')"
    using ticks_wake [OF s1(2) assms(4)] by blast
  ultimately show ?thesis using s1(1) by blast
qed

theorem delay_sleeps_exactly_witness:
  "\<exists>s1 s'. sys_Delay (args 3 0 0) sample = Inr (Yield K_Delay s1) \<and>
     ticks 3 s1 = Inr s' \<and> 10 \<in> set (ready_queue s')"
proof -
  have "sleep_ok sample" by (simp add: sleep_ok_def)
  from delay_sleeps_exactly [OF this, of 10 _ "args 3 0 0"] show ?thesis
    by simp blast
qed

end
