(* ===== verification/Wait_Queues.thy ===== *)
theory Wait_Queues
  imports Scheduler
begin

text \<open>
  What locks, condition variables, pipes and semaphores share: the search of a list of
  objects for an id, the wake-up of the first waiting process, and the loop that empties a
  wait list when an object is destroyed.
\<close>

text \<open>
  The loops \<^verbatim>\<open>while (cur != NULL)\<close> over a list of objects: position (counted from \<open>i\<close>) and
  address of the first object that satisfies \<open>P\<close>.
\<close>

fun find_obj :: "(addr \<Rightarrow> 'a option) \<Rightarrow> ('a \<Rightarrow> bool) \<Rightarrow> int \<Rightarrow> addr list \<Rightarrow> (int \<times> addr) option res" where
  "find_obj m P i [] = Inr None"
| "find_obj m P i (a # as) =
     res_bind (deref m a) (\<lambda>x. if P x then Inr (Some (i, a)) else find_obj m P (i + 1) as)"

text \<open>
  \<^verbatim>\<open>for (j = 1; j <= w.len; j++)\<close>: remove the first process of the list and make it ready.
  The list gets shorter while \<open>j\<close> grows, and the bound is read again in every round.
\<close>

function wake_loop :: "int \<Rightarrow> addr list \<Rightarrow> kstate \<Rightarrow> addr list \<times> kstate" where
  "wake_loop j w s =
     (if j \<le> int (length w) then
        (case klist_remove w 1 of
           (None, w) \<Rightarrow> (w, s)
         | (Some p, w) \<Rightarrow> wake_loop (j + 1) w (snd (ready_insert p s)))
      else (w, s))"
  by pat_completeness auto
termination
  by (relation "measure (\<lambda>(j, w, s). nat (int (length w) + 1 - j))")
    (auto simp: klist_remove_def remove_at_def in_range_def split: if_splits)

declare wake_loop.simps [simp del]

end
