(* ===== verification/Wait_Contract.thy ===== *)
theory Wait_Contract
  imports Wait_Queues
begin

text \<open>
  The contract that locks, condition variables, pipes and semaphores share as objects a
  process can wait on, and facts about the search for an object by its id.
\<close>

section \<open>Searching a list of objects\<close>

definition live :: "(addr \<Rightarrow> 'a option) \<Rightarrow> addr list \<Rightarrow> bool" where
  "live m l \<longleftrightarrow> (\<forall>a\<in>set l. m a \<noteq> None)"

lemma live_simps [simp]:
  "live m []" "live m (a # l) \<longleftrightarrow> m a \<noteq> None \<and> live m l" "live m (l @ l') \<longleftrightarrow> live m l \<and> live m l'"
  by (auto simp: live_def)

lemma live_upd [simp]: "live m l \<Longrightarrow> live (m(a \<mapsto> x)) l"
  by (auto simp: live_def)

lemma find_obj_Some:
  assumes "find_obj m P i l = Inr (Some (j, a))"
  obtains k x where "k < length l" "l ! k = a" "j = i + int k" "m a = Some x" "P x"
proof -
  have "\<exists>k x. k < length l \<and> l ! k = a \<and> j = i + int k \<and> m a = Some x \<and> P x"
    using assms
  proof (induction l arbitrary: i)
    case (Cons b l)
    show ?case
    proof (cases "\<exists>x. m b = Some x \<and> P x")
      case True
      then show ?thesis using Cons.prems by (intro exI [of _ 0]) auto
    next
      case False
      with Cons.prems have "find_obj m P (i + 1) l = Inr (Some (j, a))" by (auto split: if_splits)
      from Cons.IH [OF this] obtain k x where "k < length l" "l ! k = a" "j = i + 1 + int k"
        "m a = Some x" "P x"
        by blast
      then show ?thesis by (intro exI [of _ "Suc k"] exI [of _ x]) simp
    qed
  qed simp
  then show thesis using that by blast
qed

lemma find_obj_mem:
  assumes "find_obj m P i l = Inr (Some (j, a))"
  obtains x where "a \<in> set l" "m a = Some x" "P x"
  using assms by (metis find_obj_Some nth_mem)

lemma find_obj_None: "find_obj m P i l = Inr None \<longleftrightarrow> (\<forall>a\<in>set l. \<exists>x. m a = Some x \<and> \<not> P x)"
  by (induction l arbitrary: i) (auto simp: deref_def split: option.splits)

lemma find_obj_total:
  "live m l \<Longrightarrow> (\<forall>a\<in>set l. \<not> P (the (m a))) \<and> find_obj m P i l = Inr None \<or>
     (\<exists>j a. find_obj m P i l = Inr (Some (j, a)))"
proof (induction l arbitrary: i)
  case (Cons b l)
  then obtain y where y: "m b = Some y" by auto
  show ?case
  proof (cases "P y")
    case True
    then show ?thesis using y by simp
  next
    case False
    with y Cons.IH [of "i + 1"] Cons.prems show ?thesis by simp
  qed
qed simp

lemma find_obj_first:
  assumes "find_obj m P i l = Inr (Some (j, b))"
  obtains xs ys x where "l = xs @ b # ys" and "j = i + int (length xs)" and "m b = Some x" and "P x"
    and "\<forall>c\<in>set xs. \<exists>y. m c = Some y \<and> \<not> P y"
proof -
  have "\<exists>xs ys x. l = xs @ b # ys \<and> j = i + int (length xs) \<and> m b = Some x \<and> P x \<and>
      (\<forall>c\<in>set xs. \<exists>y. m c = Some y \<and> \<not> P y)"
    using assms
  proof (induction l arbitrary: i)
    case (Cons c l)
    then obtain y where y: "m c = Some y" by auto
    show ?case
    proof (cases "P y")
      case True
      then show ?thesis using Cons.prems y by (intro exI [of _ "[]"] exI [of _ l] exI [of _ y]) auto
    next
      case False
      with Cons.prems y have "find_obj m P (i + 1) l = Inr (Some (j, b))" by simp
      from Cons.IH [OF this] obtain xs ys x where "l = xs @ b # ys" "j = i + 1 + int (length xs)" "m b = Some x" "P x"
        "\<forall>c\<in>set xs. \<exists>y. m c = Some y \<and> \<not> P y" by blast
      then show ?thesis using y False by (intro exI [of _ "c # xs"] exI [of _ ys]) auto
    qed
  qed simp
  then show thesis using that by blast
qed

lemma find_obj_at:
  "m b = Some x \<Longrightarrow> P x \<Longrightarrow> (\<And>c. c \<in> set xs \<Longrightarrow> \<exists>y. m c = Some y \<and> \<not> P y) \<Longrightarrow>
     find_obj m P i (xs @ b # ys) = Inr (Some (i + int (length xs), b))"
proof (induction xs arbitrary: i)
  case (Cons c xs)
  from Cons.prems(3) [of c] obtain y where "m c = Some y" "\<not> P y" by auto
  then show ?case using Cons.IH [of "i + 1"] Cons.prems by simp
qed simp

lemma klist_remove_mid: "klist_remove (xs @ b # ys) (1 + int (length xs)) = (Some b, xs @ ys)"
proof -
  have "nat (1 + int (length xs)) = Suc (length xs)" by simp
  then show ?thesis by (simp add: klist_remove_def in_range_def remove_at_def)
qed

lemma find_obj_unique:
  assumes "live m l" and "a \<in> set l" and "P (the (m a))"
    and "\<forall>b\<in>set l. P (the (m b)) \<longrightarrow> b = a"
  obtains j where "find_obj m P i l = Inr (Some (j, a))"
proof -
  obtain j b where f: "find_obj m P i l = Inr (Some (j, b))"
    using find_obj_total [OF assms(1), of P i] assms(2,3) by blast
  from find_obj_mem [OF this] assms(4) have "b = a" by (metis option.sel)
  with f that show thesis by blast
qed

section \<open>First come, first served\<close>

text \<open>
  \<open>wake\<close> is the operation that releases one waiting process, \<open>other\<close> any operation that
  may add processes to the end of the wait list. \<open>trace n s s'\<close>: from \<open>s\<close> to \<open>s'\<close> with
  \<open>n\<close> releases among other operations.
\<close>

inductive trace :: "(kstate \<Rightarrow> kstate \<Rightarrow> bool) \<Rightarrow> (kstate \<Rightarrow> kstate \<Rightarrow> bool) \<Rightarrow> nat \<Rightarrow> kstate \<Rightarrow> kstate \<Rightarrow> bool"
  for wake other where
  trace_refl: "trace wake other 0 s s"
| trace_wake: "trace wake other n s t \<Longrightarrow> wake t u \<Longrightarrow> trace wake other (Suc n) s u"
| trace_other: "trace wake other n s t \<Longrightarrow> other t u \<Longrightarrow> trace wake other n s u"

locale wait_object =
  fixes waiters :: "kstate \<Rightarrow> addr list"
    and wake :: "kstate \<Rightarrow> kstate \<Rightarrow> bool"
    and other :: "kstate \<Rightarrow> kstate \<Rightarrow> bool"
  assumes wake_first: "wake s s' \<Longrightarrow> waiters s' = tl (waiters s) \<and>
      ready_queue s' = ready_queue s @ take 1 (waiters s)"
    and other_appends: "other s s' \<Longrightarrow> \<exists>ys. waiters s' = waiters s @ ys"
begin

lemma wake_nonempty:
  "wake s s' \<Longrightarrow> waiters s = p # w \<Longrightarrow> waiters s' = w \<and> ready_queue s' = ready_queue s @ [p]"
  using wake_first [of s s'] by simp

text \<open>Newcomers never overtake: after \<open>n\<close> releases the first \<open>n\<close> of the waiters are gone.\<close>

lemma in_order:
  assumes "trace wake other n s s'" and "n \<le> length (waiters s)"
  shows "\<exists>ys. waiters s' = drop n (waiters s) @ ys"
  using assms
proof (induction rule: trace.induct)
  case (trace_wake n s t u)
  then obtain ys where "waiters t = drop n (waiters s) @ ys" by auto
  moreover have "drop n (waiters s) \<noteq> []" using trace_wake.prems by auto
  ultimately have "waiters u = drop (Suc n) (waiters s) @ ys"
    using wake_first [OF trace_wake.hyps(2)] by (simp add: tl_drop drop_Suc)
  then show ?case by blast
next
  case (trace_other n s t u)
  then obtain ys where ys: "waiters t = drop n (waiters s) @ ys" by auto
  from other_appends [OF trace_other.hyps(2)] obtain zs where "waiters u = waiters t @ zs" by blast
  with ys show ?case by auto
qed auto

text \<open>The process at position \<open>n\<close> is released by the release number \<open>n + 1\<close>.\<close>

lemma served_in_turn:
  assumes "trace wake other n s t" and "wake t u" and "n < length (waiters s)"
  shows "waiters s ! n \<in> set (ready_queue u)"
proof -
  obtain ys where "waiters t = drop n (waiters s) @ ys" using in_order [OF assms(1)] assms(3) by auto
  then have "waiters t = waiters s ! n # drop (Suc n) (waiters s) @ ys"
    using assms(3) by (simp add: Cons_nth_drop_Suc [symmetric])
  with wake_nonempty [OF assms(2)] show ?thesis by simp
qed

end

end
