(* ===== verification/Semaphores.thy ===== *)
theory Semaphores
  imports Wait_Queues
begin

text \<open>
  The semaphores behind the three custom calls: sys_Custom_0 (create), sys_Custom_1
  (signal) and sys_Custom_2 (wait).
\<close>

definition sys_Custom_0 :: "user_context \<Rightarrow> kstate \<Rightarrow> kres res" where
  "sys_Custom_0 uc s =
     (case malloc s of
        (None, s) \<Rightarrow> Inr (Done (Some ERROR) s)
      | (Some a, s) \<Rightarrow>
          let sem = \<lparr>sem_id = next_sem s, sem_count = 0, sem_waiting = []\<rparr>;
              s = s\<lparr>next_sem := next_sem s + 1\<rparr>
          in
          (case malloc s of
             (None, s) \<Rightarrow> Inr (Done (Some ERROR) s)
           | (Some _, s) \<Rightarrow>
               let s = s\<lparr>sems := (sems s)(a \<mapsto> sem)\<rparr> in
               (case klist_append (sem_list s) a s of
                  (_, sl, s) \<Rightarrow>
                    let s = s\<lparr>sem_list := sl\<rparr> in Inr (Done (Some (next_sem s - 1)) s))))"

text \<open>The largest C int.\<close>

definition INT_MAX :: int where [simp]: "INT_MAX = 2147483647"

text \<open>
  The search of both operations. \<^verbatim>\<open>list_index\<close> returns NULL past the end of the list and
  its result is dereferenced without a test, so the search never ends with "not found".
\<close>

definition find_sem :: "int \<Rightarrow> kstate \<Rightarrow> addr res" where
  "find_sem i s =
     res_bind (find_obj (sems s) (\<lambda>m. sem_id m = i) 1 (sem_list s)) (\<lambda>r.
     case r of None \<Rightarrow> Inl NullDeref | Some (_, a) \<Rightarrow> Inr a)"

text \<open>
  \<^verbatim>\<open>sem->count ++\<close> is the increment of a C int that every process can repeat without end. The
  decrement of sys_Custom_2 needs no such test: below zero it blocks the caller, so that the
  count is never less than minus the number of processes.
\<close>

definition sys_Custom_1 :: "user_context \<Rightarrow> kstate \<Rightarrow> kres res" where
  "sys_Custom_1 uc s =
     res_bind (find_sem (sint (reg uc 0)) s) (\<lambda>a.
     res_bind (deref (sems s) a) (\<lambda>m.
     if sem_count m \<ge> INT_MAX then Inl IntOverflow
     else
     let m = m\<lparr>sem_count := sem_count m + 1\<rparr>;
         s = s\<lparr>sems := (sems s)(a \<mapsto> m)\<rparr>
     in
     if sem_count m \<le> 0 then
       (case sem_waiting m of
          [] \<Rightarrow> Inr (Done (Some 0) s)
        | p # w \<Rightarrow>
            Inr (Done (Some 0)
              (snd (ready_insert p (s\<lparr>sems := (sems s)(a \<mapsto> m\<lparr>sem_waiting := w\<rparr>)\<rparr>)))))
     else Inr (Done (Some 0) s)))"

definition sys_Custom_2 :: "user_context \<Rightarrow> kstate \<Rightarrow> kres res" where
  "sys_Custom_2 uc s =
     res_bind (find_sem (sint (reg uc 0)) s) (\<lambda>a.
     res_bind (deref (sems s) a) (\<lambda>m.
     let m = m\<lparr>sem_count := sem_count m - 1\<rparr>;
         s = s\<lparr>sems := (sems s)(a \<mapsto> m)\<rparr>
     in
     if sem_count m < 0 then
       (case active_proc s of
          None \<Rightarrow> Inl NullDeref
        | Some me \<Rightarrow>
            (case klist_append (sem_waiting m) me s of
               (_, w, s) \<Rightarrow>
                 Inr (Yield K_Sem (s\<lparr>sems := (sems s)(a \<mapsto> m\<lparr>sem_waiting := w\<rparr>)\<rparr>))))
     else Inr (Done (Some 0) s)))"

end
