(* ===== verification/Effects.thy ===== *)
theory Effects
  imports Wait_Contract
begin

text \<open>
  What the building blocks of kernel code can change: appending to a list or to the ready
  queue, waking the processes of a wait list, storing to user memory. Each is a record
  update of a few fields, so that every other field is unchanged by simplification.
\<close>

text \<open>The state in which a piece of kernel code ends.\<close>

fun kres_state :: "kres \<Rightarrow> kstate" where
  "kres_state (Done r s) = s"
| "kres_state (Yield k s) = s"
| "kres_state (Restart s) = s"

lemma klist_append_effect:
  "klist_append xs x s = (rc, ys, s') \<Longrightarrow>
     s' = s\<lparr>malloc_cnt := Suc (malloc_cnt s)\<rparr> \<and> (ys = xs @ [x] \<and> rc = 0 \<or> ys = xs \<and> rc = ERROR)"
  by (auto simp: klist_append_eq split: if_splits)

lemma ready_insert_eq:
  "ready_insert p s =
     (if malloc_fails s (malloc_cnt s) then ERROR else 0,
      s\<lparr>malloc_cnt := Suc (malloc_cnt s),
        ready_queue := (if malloc_fails s (malloc_cnt s) then ready_queue s else ready_queue s @ [p])\<rparr>)"
  by (simp add: ready_insert_def klist_append_eq)

lemma malloc_effect: "malloc s = (p, s') \<Longrightarrow> s' = s\<lparr>malloc_cnt := Suc (malloc_cnt s)\<rparr>"
  by (simp add: malloc_def)

lemma user_store_effect: "user_store a bs s = Inr s' \<Longrightarrow> \<exists>m. s' = s\<lparr>pmem := m\<rparr>"
  by (auto simp: user_store_def)

lemma wake_loop_effect:
  "wake_loop j w s = (w', s') \<Longrightarrow>
     \<exists>n q. s' = s\<lparr>malloc_cnt := n, ready_queue := q\<rparr> \<and> malloc_cnt s \<le> n"
proof (induction j w s arbitrary: w' s' rule: wake_loop.induct)
  case (1 j w s)
  show ?case
  proof (cases "j \<le> int (length w) \<and> w \<noteq> []")
    case True
    then obtain p w1 where w: "w = p # w1" by (cases w) auto
    let ?s = "snd (ready_insert p s)"
    from True w "1.prems" have r: "wake_loop (j + 1) w1 ?s = (w', s')"
      by (subst (asm) wake_loop.simps) simp
    from "1.IH" True w r obtain n q where
      "s' = ?s\<lparr>malloc_cnt := n, ready_queue := q\<rparr>" "malloc_cnt ?s \<le> n"
      by fastforce
    then show ?thesis by (intro exI [of _ n] exI [of _ q]) (auto simp: ready_insert_eq)
  next
    case False
    with "1.prems" have "s' = s" by (subst (asm) wake_loop.simps) (auto split: if_splits)
    then show ?thesis by (intro exI [of _ "malloc_cnt s"] exI [of _ "ready_queue s"]) simp
  qed
qed

text \<open>
  With a working allocator the loop releases one waiter per round, and stops half way: the
  bound shrinks while the counter grows.
\<close>

lemma wake_loop_half:
  assumes "mem_ok s" and "k \<le> length w + 1" and "0 < k"
  shows "wake_loop (int k) w s =
     (drop ((length w + 2 - k) div 2) w,
      s\<lparr>malloc_cnt := malloc_cnt s + length (take ((length w + 2 - k) div 2) w),
        ready_queue := ready_queue s @ take ((length w + 2 - k) div 2) w\<rparr>)"
  using assms
proof (induction "length w" arbitrary: k w s rule: less_induct)
  case less
  show ?case
  proof (cases "k \<le> length w")
    case True
    then obtain p w1 where w: "w = p # w1" using less.prems(3) by (cases w) auto
    let ?s = "s\<lparr>malloc_cnt := Suc (malloc_cnt s), ready_queue := ready_queue s @ [p]\<rparr>"
    have step: "wake_loop (int k) w s = wake_loop (int (Suc k)) w1 ?s"
      using True w less.prems(1) by (subst wake_loop.simps) (simp add: ready_insert_ok add.commute)
    show ?thesis
    proof (cases "Suc k \<le> length w1 + 1")
      case False
      then have "length w1 + 1 = k" using True w by simp
      then show ?thesis using w unfolding step by (subst wake_loop.simps) simp
    next
      case le: True
      have "(length w + 2 - k) div 2 = Suc ((length w1 + 2 - Suc k) div 2)"
        using le w by simp
      moreover have "mem_ok ?s" using less.prems(1) by (simp add: mem_ok_def)
      ultimately show ?thesis
        using less.hyps [of w1 ?s "Suc k"] le w unfolding step by simp
    qed
  next
    case False
    then show ?thesis using less.prems by (subst wake_loop.simps) simp
  qed
qed

text \<open>From its start the loop of the destroy functions wakes the first half, rounded up.\<close>

lemma wake_loop_halves:
  assumes "mem_ok s"
  obtains n where "wake_loop 1 w s = (drop (Suc (length w) div 2) w,
     s\<lparr>malloc_cnt := n, ready_queue := ready_queue s @ take (Suc (length w) div 2) w\<rparr>)"
  using wake_loop_half [OF assms, of 1 w] by auto

end
