(* ===== verification/Semaphore_Properties.thy ===== *)
theory Semaphore_Properties
  imports Samples Wait_Contract Semaphores Effects
begin

text \<open>
  Semaphores: the count and the wait list agree, the two operations implement the textbook
  semaphore, waiting processes are served in order, and what happens with an unknown id.
\<close>

section \<open>The invariant\<close>

definition the_sem :: "kstate \<Rightarrow> addr \<Rightarrow> semaphore" where
  "the_sem s a = the (sems s a)"

text \<open>Minus the count, when the count is negative, is the number of waiting processes.\<close>

definition sem_wf :: "semaphore \<Rightarrow> bool" where
  "sem_wf m \<longleftrightarrow> length (sem_waiting m) = nat (- sem_count m)"

definition sem_ok :: "kstate \<Rightarrow> bool" where
  "sem_ok s \<longleftrightarrow> mem_ok s \<and> live (sems s) (sem_list s) \<and>
     (\<forall>a\<in>set (sem_list s). sem_wf (the_sem s a) \<and> sem_id (the_sem s a) < next_sem s \<and> a < malloc_cnt s) \<and>
     inj_on (\<lambda>a. sem_id (the_sem s a)) (set (sem_list s))"

lemma find_sem_eq:
  assumes "sem_ok s" and "a \<in> set (sem_list s)" and "sem_id (the_sem s a) = i"
  shows "find_sem i s = Inr a"
proof -
  have "live (sems s) (sem_list s)" using assms(1) by (simp add: sem_ok_def)
  moreover have "\<forall>b\<in>set (sem_list s). sem_id (the (sems s b)) = i \<longrightarrow> b = a"
    using assms by (auto simp: sem_ok_def inj_on_def the_sem_def)
  moreover have "sem_id (the (sems s a)) = i" using assms(3) by (simp add: the_sem_def)
  ultimately obtain j where "find_obj (sems s) (\<lambda>m. sem_id m = i) 1 (sem_list s) = Inr (Some (j, a))"
    using find_obj_unique [OF _ assms(2), of "sems s" "\<lambda>m. sem_id m = i" 1] by blast
  then show ?thesis by (simp add: find_sem_def)
qed

text \<open>Updating one semaphore without touching its id keeps the invariant.\<close>

lemma sem_ok_update:
  assumes "sem_ok s" and "a \<in> set (sem_list s)" and "sem_id m = sem_id (the_sem s a)" and "sem_wf m"
    and "mem_ok s'" and "sems s' = (sems s)(a \<mapsto> m)" and "sem_list s' = sem_list s"
    and "next_sem s' = next_sem s" and "malloc_cnt s \<le> malloc_cnt s'"
  shows "sem_ok s'"
proof -
  have eq: "the_sem s' b = (if b = a then m else the_sem s b)" for b using assms(6) by (simp add: the_sem_def)
  have "sem_id (the_sem s' b) = sem_id (the_sem s b)" for b using assms(3) eq by simp
  then show ?thesis using assms unfolding sem_ok_def by (auto simp: eq inj_on_def)
qed

section \<open>The textbook semaphore\<close>

text \<open>A value and a queue; \<open>spec_up\<close> also gives the process released, \<open>spec_down\<close> whether the caller blocks.\<close>

fun spec_up :: "nat \<times> addr list \<Rightarrow> (nat \<times> addr list) \<times> addr list" where
  "spec_up (v, []) = ((v + 1, []), [])"
| "spec_up (v, p # w) = ((v, w), [p])"

fun spec_down :: "addr \<Rightarrow> nat \<times> addr list \<Rightarrow> (nat \<times> addr list) \<times> bool" where
  "spec_down me (v, q) = (if v > 0 then ((v - 1, q), False) else ((0, q @ [me]), True))"

definition abs_sem :: "semaphore \<Rightarrow> nat \<times> addr list" where
  "abs_sem m = (nat (sem_count m), sem_waiting m)"

lemma sem_up_overflow:
  assumes "sem_ok s" and "a \<in> set (sem_list s)" and "sem_id (the_sem s a) = sint (reg uc 0)"
    and "INT_MAX \<le> sem_count (the_sem s a)"
  shows "sys_Custom_1 uc s = Inl IntOverflow"
proof -
  obtain m where "sems s a = Some m" using assms by (auto simp: sem_ok_def live_def)
  then show ?thesis using assms(4) find_sem_eq [OF assms(1-3)] by (simp add: sys_Custom_1_def the_sem_def)
qed

lemma sem_up_eq:
  assumes "sem_ok s" and "a \<in> set (sem_list s)" and "sem_id (the_sem s a) = sint (reg uc 0)"
    and "sem_count (the_sem s a) < INT_MAX"
  shows "\<exists>s' m. sys_Custom_1 uc s = Inr (Done (Some 0) s') \<and> sem_ok s' \<and> the_sem s' a = m \<and>
           sem_list s' = sem_list s \<and> sem_id m = sem_id (the_sem s a) \<and> (\<forall>b. b \<noteq> a \<longrightarrow> sems s' b = sems s b) \<and>
           (abs_sem m, drop (length (ready_queue s)) (ready_queue s')) = spec_up (abs_sem (the_sem s a)) \<and>
           take (length (ready_queue s)) (ready_queue s') = ready_queue s"
proof -
  obtain m where m: "sems s a = Some m" using assms by (auto simp: sem_ok_def live_def)
  with assms have wf: "sem_wf m" and ok: "mem_ok s" and mx: "sem_count m < INT_MAX" by (auto simp: sem_ok_def the_sem_def)
  let ?m = "m\<lparr>sem_count := sem_count m + 1, sem_waiting := tl (sem_waiting m)\<rparr>"
  let ?s = "s\<lparr>sems := (sems s)(a \<mapsto> ?m),
    malloc_cnt := malloc_cnt s + length (take 1 (sem_waiting m)),
    ready_queue := ready_queue s @ take 1 (sem_waiting m)\<rparr>"
  have "sys_Custom_1 uc s = Inr (Done (Some 0) ?s)"
  proof (cases "sem_waiting m")
    case Nil
    then have e: "m\<lparr>sem_count := sem_count m + 1, sem_waiting := []\<rparr> = m\<lparr>sem_count := sem_count m + 1\<rparr>"
      by (cases m) simp
    show ?thesis
      using m find_sem_eq [OF assms(1-3)] mx Nil by (simp add: sys_Custom_1_def Let_def e)
  next
    case (Cons p w)
    then have "sem_count m < 0" using wf by (auto simp: sem_wf_def)
    with Cons show ?thesis
      using m find_sem_eq [OF assms(1-3)] mx ok
      by (simp add: sys_Custom_1_def Let_def ready_insert_ok mem_ok_def ready_insert_def klist_append_eq)
  qed
  moreover have "sem_ok ?s"
    using assms m wf ok
    by (intro sem_ok_update [OF assms(1,2), of ?m]) (auto simp: the_sem_def mem_ok_def sem_wf_def)
  moreover have "(abs_sem ?m, take 1 (sem_waiting m)) = spec_up (abs_sem m)"
    using wf by (cases "sem_waiting m") (auto simp: abs_sem_def sem_wf_def)
  ultimately show ?thesis using m by (auto simp: the_sem_def)
qed

lemma sem_down_eq:
  assumes "sem_ok s" and "a \<in> set (sem_list s)" and "sem_id (the_sem s a) = sint (reg uc 0)"
    and me: "active_proc s = Some me \<or> 0 < sem_count (the_sem s a)"
  shows "\<exists>s'. sys_Custom_2 uc s = Inr (if sem_count (the_sem s a) > 0 then Done (Some 0) s' else Yield K_Sem s') \<and>
           sem_ok s' \<and> (abs_sem (the_sem s' a), sem_count (the_sem s a) \<le> 0) = spec_down me (abs_sem (the_sem s a)) \<and>
           ready_queue s' = ready_queue s \<and> sem_list s' = sem_list s \<and> sem_id (the_sem s' a) = sem_id (the_sem s a) \<and>
           (\<forall>b. b \<noteq> a \<longrightarrow> sems s' b = sems s b)"
proof -
  obtain m where m: "sems s a = Some m" using assms by (auto simp: sem_ok_def live_def)
  with assms have wf: "sem_wf m" and ok: "mem_ok s" by (auto simp: sem_ok_def the_sem_def)
  let ?b = "sem_count m \<le> 0"
  let ?m = "m\<lparr>sem_count := sem_count m - 1, sem_waiting := sem_waiting m @ (if ?b then [me] else [])\<rparr>"
  let ?s = "s\<lparr>sems := (sems s)(a \<mapsto> ?m), malloc_cnt := malloc_cnt s + (if ?b then 1 else 0)\<rparr>"
  have "sys_Custom_2 uc s = Inr (if \<not> ?b then Done (Some 0) ?s else Yield K_Sem ?s)"
    using m find_sem_eq [OF assms(1-3)] ok me
    by (auto simp: the_sem_def sys_Custom_2_def Let_def klist_append_eq mem_ok_def)
  moreover have "sem_ok ?s"
    using assms m wf ok
    by (intro sem_ok_update [OF assms(1,2), of ?m]) (auto simp: the_sem_def mem_ok_def sem_wf_def)
  moreover have "(abs_sem ?m, ?b) = spec_down me (abs_sem m)"
    using wf by (auto simp: abs_sem_def sem_wf_def)
  ultimately show ?thesis using m by (auto simp: the_sem_def not_le)
qed


text \<open>
  sys_Custom_0 creates a semaphore with value 0 and an id that no semaphore has: it
  returns the id, appends the semaphore to the list and keeps the invariant, which includes
  that all ids differ.
\<close>

theorem semaphore_create:
  assumes "sem_ok s"
  shows "\<exists>s' a. sys_Custom_0 uc s = Inr (Done (Some (next_sem s)) s') \<and> sem_ok s' \<and>
           sem_list s' = sem_list s @ [a] \<and> a \<notin> set (sem_list s) \<and>
           sem_id (the_sem s' a) = next_sem s \<and> abs_sem (the_sem s' a) = (0, []) \<and>
           (\<forall>b\<in>set (sem_list s). the_sem s' b = the_sem s b)"
proof -
  let ?a = "malloc_cnt s"
  let ?s = "s\<lparr>next_sem := next_sem s + 1, malloc_cnt := malloc_cnt s + 3,
    sems := (sems s)(?a \<mapsto> \<lparr>sem_id = next_sem s, sem_count = 0, sem_waiting = []\<rparr>),
    sem_list := sem_list s @ [?a]\<rparr>"
  have run: "sys_Custom_0 uc s = Inr (Done (Some (next_sem s)) ?s)"
    using assms by (simp add: sys_Custom_0_def sem_ok_def malloc_def mem_ok_def klist_append_eq Let_def numeral_3_eq_3)
  have fresh: "?a \<notin> set (sem_list s)" using assms by (auto simp: sem_ok_def)
  then have old: "\<forall>b\<in>set (sem_list s). the_sem ?s b = the_sem s b" by (auto simp: the_sem_def)
  have new: "the_sem ?s ?a = \<lparr>sem_id = next_sem s, sem_count = 0, sem_waiting = []\<rparr>"
    by (simp add: the_sem_def)
  have "sem_ok ?s"
    using assms fresh old new unfolding sem_ok_def
    by (auto simp: mem_ok_def sem_wf_def inj_on_def live_def)
  with run fresh old new show ?thesis by (intro exI [of _ ?s] exI [of _ ?a]) (simp add: abs_sem_def)
qed

section \<open>Order of service\<close>

definition sem_waiters :: "addr \<Rightarrow> kstate \<Rightarrow> addr list" where
  "sem_waiters a s = sem_waiting (the_sem s a)"

definition sem_up :: "addr \<Rightarrow> kstate \<Rightarrow> kstate \<Rightarrow> bool" where
  "sem_up a s s' \<longleftrightarrow> sem_ok s \<and> a \<in> set (sem_list s) \<and>
     (\<exists>uc r. sem_id (the_sem s a) = sint (reg uc 0) \<and> sys_Custom_1 uc s = Inr (Done r s'))"

text \<open>Everything else that can happen: a wait on this semaphore, or a step that leaves its queue alone.\<close>

definition sem_other :: "addr \<Rightarrow> kstate \<Rightarrow> kstate \<Rightarrow> bool" where
  "sem_other a s s' \<longleftrightarrow> sem_waiters a s' = sem_waiters a s \<or>
     sem_ok s \<and> a \<in> set (sem_list s) \<and>
     (\<exists>uc r. sem_id (the_sem s a) = sint (reg uc 0) \<and> sys_Custom_2 uc s = Inr r \<and> s' = kres_state r)"

lemma sem_up_result:
  assumes ok: "sem_ok s" and a: "a \<in> set (sem_list s)" "sem_id (the_sem s a) = sint (reg uc 0)"
    and run: "sys_Custom_1 uc s = Inr (Done r s')"
  shows "sem_ok s'" "sem_list s' = sem_list s" "sem_id (the_sem s' a) = sem_id (the_sem s a)"
    "sem_waiters a s' = tl (sem_waiters a s)" "ready_queue s' = ready_queue s @ take 1 (sem_waiters a s)"
    "b \<noteq> a \<Longrightarrow> sems s' b = sems s b"
proof -
  have "sem_count (the_sem s a) < INT_MAX"
    using sem_up_overflow [OF ok a] run by (cases "INT_MAX \<le> sem_count (the_sem s a)") auto
  from sem_up_eq [OF ok a this] run obtain m where e: "sem_ok s'" "the_sem s' a = m" "sem_list s' = sem_list s"
    "sem_id m = sem_id (the_sem s a)" "\<forall>b. b \<noteq> a \<longrightarrow> sems s' b = sems s b"
    "(abs_sem m, drop (length (ready_queue s)) (ready_queue s')) = spec_up (abs_sem (the_sem s a))"
    "take (length (ready_queue s)) (ready_queue s') = ready_queue s"
    by auto
  have "q' = tl q \<and> w = take 1 q" if "((v', q'), w) = spec_up (v, q)" for v q v' q' w
    using that by (cases q) auto
  then have "sem_waiting m = tl (sem_waiting (the_sem s a)) \<and>
      drop (length (ready_queue s)) (ready_queue s') = take 1 (sem_waiting (the_sem s a))"
    using e(6) unfolding abs_sem_def by blast
  then show "sem_waiters a s' = tl (sem_waiters a s)" "ready_queue s' = ready_queue s @ take 1 (sem_waiters a s)"
    unfolding sem_waiters_def using e(2) append_take_drop_id [of "length (ready_queue s)" "ready_queue s'"] e(7) by simp_all
  show "sem_ok s'" "sem_list s' = sem_list s" "sem_id (the_sem s' a) = sem_id (the_sem s a)"
    "b \<noteq> a \<Longrightarrow> sems s' b = sems s b" using e by simp_all
qed

lemma sem_down_result:
  assumes ok: "sem_ok s" and a: "a \<in> set (sem_list s)" "sem_id (the_sem s a) = sint (reg uc 0)"
    and run: "sys_Custom_2 uc s = Inr r"
  shows "sem_ok (kres_state r)" "sem_list (kres_state r) = sem_list s"
    "sem_id (the_sem (kres_state r) a) = sem_id (the_sem s a)" "\<exists>ys. sem_waiters a (kres_state r) = sem_waiters a s @ ys"
    "b \<noteq> a \<Longrightarrow> sems (kres_state r) b = sems s b"
proof -
  obtain m where m: "sems s a = Some m" using ok a by (auto simp: sem_ok_def live_def)
  have "active_proc s \<noteq> None \<or> 0 < sem_count (the_sem s a)"
    using run m find_sem_eq [OF ok a] by (auto simp: sys_Custom_2_def the_sem_def Let_def split: if_splits option.splits)
  then obtain me where "active_proc s = Some me \<or> 0 < sem_count (the_sem s a)" by blast
  from sem_down_eq [OF ok a this] obtain s' where d: "sys_Custom_2 uc s = Inr (if sem_count (the_sem s a) > 0 then Done (Some 0) s' else Yield K_Sem s')"
    and e': "sem_ok s'" "(abs_sem (the_sem s' a), sem_count (the_sem s a) \<le> 0) = spec_down me (abs_sem (the_sem s a))"
    "sem_list s' = sem_list s" "sem_id (the_sem s' a) = sem_id (the_sem s a)" "\<forall>b. b \<noteq> a \<longrightarrow> sems s' b = sems s b"
    by blast
  have "s' = kres_state r" using d run by (simp split: if_splits)
  note e = this e'
  from e(3) show "\<exists>ys. sem_waiters a (kres_state r) = sem_waiters a s @ ys"
    unfolding e(1) [symmetric] by (auto simp: sem_waiters_def abs_sem_def split: if_splits)
  show "sem_ok (kres_state r)" "sem_list (kres_state r) = sem_list s"
    "sem_id (the_sem (kres_state r) a) = sem_id (the_sem s a)"
    "b \<noteq> a \<Longrightarrow> sems (kres_state r) b = sems s b" using e by auto
qed

interpretation sem: wait_object "sem_waiters a" "sem_up a" "sem_other a" for a
proof
  fix s s' assume "sem_up a s s'"
  then show "sem_waiters a s' = tl (sem_waiters a s) \<and> ready_queue s' = ready_queue s @ take 1 (sem_waiters a s)"
    unfolding sem_up_def using sem_up_result(4,5) by blast
next
  fix s s' assume "sem_other a s s'"
  then show "\<exists>ys. sem_waiters a s' = sem_waiters a s @ ys"
    unfolding sem_other_def using sem_down_result(4) by auto
qed

text \<open>
  The life of the semaphores: signals and waits, on any semaphore and by any process, creations, and
  in between whatever steps the rest of the kernel and the user programs take, switches included, that
  leave the semaphores alone. \<open>sem_run i s n t\<close>: from \<open>s\<close> to \<open>t\<close> with \<open>n\<close> signals on semaphore \<open>i\<close>.
\<close>

inductive sem_run :: "int \<Rightarrow> kstate \<Rightarrow> nat \<Rightarrow> kstate \<Rightarrow> bool" for i s where
  now: "sem_run i s 0 s"
| signal: "sem_run i s n t \<Longrightarrow> sys_Custom_1 uc t = Inr (Done rv u) \<Longrightarrow>
    sem_run i s (if sint (reg uc 0) = i then Suc n else n) u"
| wait: "sem_run i s n t \<Longrightarrow> sys_Custom_2 uc t = Inr r \<Longrightarrow> sem_run i s n (kres_state r)"
| create: "sem_run i s n t \<Longrightarrow> sys_Custom_0 uc t = Inr (Done rv u) \<Longrightarrow> sem_run i s n u"
| elsewhere: "sem_run i s n t \<Longrightarrow> sems u = sems t \<Longrightarrow> sem_list u = sem_list t \<Longrightarrow> next_sem u = next_sem t \<Longrightarrow>
    malloc_fails u = malloc_fails t \<Longrightarrow> malloc_cnt t \<le> malloc_cnt u \<Longrightarrow> sem_run i s n u"

lemma find_semD:
  assumes "find_sem i s = Inr a"
  shows "a \<in> set (sem_list s) \<and> sem_id (the_sem s a) = i"
proof -
  obtain j where "find_obj (sems s) (\<lambda>m. sem_id m = i) 1 (sem_list s) = Inr (Some (j, a))"
    using assms by (auto simp: find_sem_def split: option.splits)
  then show ?thesis by (rule find_obj_mem) (simp add: the_sem_def)
qed

lemma sem_waiters_eq: "sems t a = sems s a \<Longrightarrow> sem_waiters a t = sem_waiters a s \<and> the_sem t a = the_sem s a"
  by (simp add: sem_waiters_def the_sem_def)

lemma sem_run_trace:
  assumes "sem_run i s n t" and "sem_ok s" and "a \<in> set (sem_list s)" and "sem_id (the_sem s a) = i"
  shows "sem_ok t \<and> a \<in> set (sem_list t) \<and> sem_id (the_sem t a) = i \<and> trace (sem_up a) (sem_other a) n s t"
  using assms
proof (induction rule: sem_run.induct)
  case now
  then show ?case using trace_refl by blast
next
  case (signal n t uc rv u)
  then have t: "sem_ok t" "a \<in> set (sem_list t)" "sem_id (the_sem t a) = i" "trace (sem_up a) (sem_other a) n s t" by blast+
  from signal(2) obtain b where b: "b \<in> set (sem_list t)" "sem_id (the_sem t b) = sint (reg uc 0)"
    using find_semD by (auto simp: sys_Custom_1_def)
  note r = sem_up_result [OF t(1) b signal(2)]
  show ?case
  proof (cases "b = a")
    case True
    then have "sem_up a t u" unfolding sem_up_def using t b signal(2) by blast
    with t(4) have "trace (sem_up a) (sem_other a) (Suc n) s u" by (rule trace_wake)
    then show ?thesis using True t b r by simp
  next
    case False
    then have "sint (reg uc 0) \<noteq> i" using t b by (auto simp: sem_ok_def inj_on_def)
    moreover have w: "sem_waiters a u = sem_waiters a t \<and> the_sem u a = the_sem t a" using sem_waiters_eq r(6) False by metis
    moreover have "trace (sem_up a) (sem_other a) n s u" by (rule trace_other [OF t(4)]) (simp add: sem_other_def w)
    ultimately show ?thesis using t r by simp
  qed
next
  case (wait n t uc r)
  then have t: "sem_ok t" "a \<in> set (sem_list t)" "sem_id (the_sem t a) = i" "trace (sem_up a) (sem_other a) n s t" by blast+
  from wait(2) obtain b where b: "b \<in> set (sem_list t)" "sem_id (the_sem t b) = sint (reg uc 0)"
    using find_semD by (auto simp: sys_Custom_2_def)
  note r = sem_down_result [OF t(1) b wait(2)]
  show ?case
  proof (cases "b = a")
    case True
    then have "sem_other a t (kres_state r)" unfolding sem_other_def using t b wait(2) by blast
    with t(4) have "trace (sem_up a) (sem_other a) n s (kres_state r)" by (rule trace_other)
    then show ?thesis using True t r by simp
  next
    case False
    then have w: "sem_waiters a (kres_state r) = sem_waiters a t \<and> the_sem (kres_state r) a = the_sem t a"
      using sem_waiters_eq r(5) by metis
    moreover have "trace (sem_up a) (sem_other a) n s (kres_state r)" by (rule trace_other [OF t(4)]) (simp add: sem_other_def w)
    ultimately show ?thesis using t r by simp
  qed
next
  case (create n t uc rv u)
  then have t: "sem_ok t" "a \<in> set (sem_list t)" "sem_id (the_sem t a) = i" "trace (sem_up a) (sem_other a) n s t" by blast+
  from semaphore_create [OF t(1), of uc] create(2) obtain c where u: "sem_ok u" "sem_list u = sem_list t @ [c]"
    "\<forall>b\<in>set (sem_list t). the_sem u b = the_sem t b" by auto
  then have w: "the_sem u a = the_sem t a" using t(2) by blast
  then have "trace (sem_up a) (sem_other a) n s u" by (intro trace_other [OF t(4)]) (simp add: sem_other_def sem_waiters_def)
  then show ?case using t u w by simp
next
  case (elsewhere n t u)
  then have t: "sem_ok t" "a \<in> set (sem_list t)" "sem_id (the_sem t a) = i" "trace (sem_up a) (sem_other a) n s t" by blast+
  have w: "the_sem u = the_sem t" using elsewhere(2) by (simp add: the_sem_def fun_eq_iff)
  then have "trace (sem_up a) (sem_other a) n s u" by (intro trace_other [OF t(4)]) (simp add: sem_other_def sem_waiters_def)
  moreover have "sem_ok u" using t(1) elsewhere(2-6) w unfolding sem_ok_def by (auto simp: mem_ok_def)
  ultimately show ?case using t elsewhere(3) w by simp
qed

section \<open>Properties\<close>

text \<open>
  C18: signalling a semaphore (sys_Custom_1), as long as its count fits a C int, implements the
  textbook operation: with nobody waiting the value goes up by one; otherwise the value stays and the
  process that waits longest is moved to the end of the ready queue. It returns 0 and keeps the
  invariant that minus the count, when negative, is the number of waiting processes. When the count
  is INT_MAX, which any process can bring about by signalling, the increment overflows, which C leaves
  undefined. The invariant includes a working allocator and distinct ids.
\<close>

theorem semaphore_signal_refines:
  assumes "sem_ok s" and "a \<in> set (sem_list s)" and "sem_id (the_sem s a) = sint (reg uc 0)"
  shows "if sem_count (the_sem s a) < INT_MAX
         then \<exists>s' woken. sys_Custom_1 uc s = Inr (Done (Some 0) s') \<and> sem_ok s' \<and>
           spec_up (abs_sem (the_sem s a)) = (abs_sem (the_sem s' a), woken) \<and>
           ready_queue s' = ready_queue s @ woken
         else sys_Custom_1 uc s = Inl IntOverflow"
proof (cases "sem_count (the_sem s a) < INT_MAX")
  case True
  from sem_up_eq [OF assms True] obtain s' where s': "sys_Custom_1 uc s = Inr (Done (Some 0) s')" "sem_ok s'"
    "(abs_sem (the_sem s' a), drop (length (ready_queue s)) (ready_queue s')) = spec_up (abs_sem (the_sem s a))"
    "take (length (ready_queue s)) (ready_queue s') = ready_queue s"
    by blast
  from s'(4) have "ready_queue s' = ready_queue s @ drop (length (ready_queue s)) (ready_queue s')"
    by (metis append_take_drop_id)
  with s' True show ?thesis by metis
next
  case False
  then show ?thesis using sem_up_overflow [OF assms] by (simp add: not_less)
qed

definition sem_sample :: kstate where
  "sem_sample = sample\<lparr>next_sem := 2, sem_list := [60, 61],
     sems := [60 \<mapsto> \<lparr>sem_id = 0, sem_count = -1, sem_waiting = [30]\<rparr>,
              61 \<mapsto> \<lparr>sem_id = 1, sem_count = 2, sem_waiting = []\<rparr>], ready_queue := [20]\<rparr>"

lemma sem_sample_ok: "sem_ok sem_sample"
  by (auto simp: sem_ok_def sem_sample_def the_sem_def sem_wf_def mem_ok_def inj_on_def)

lemma sem_sample_fields [simp]:
  "sem_list sem_sample = [60, 61]" "ready_queue sem_sample = [20]" "active_proc sem_sample = Some 10"
  "the_sem sem_sample 60 = \<lparr>sem_id = 0, sem_count = -1, sem_waiting = [30]\<rparr>"
  "the_sem sem_sample 61 = \<lparr>sem_id = 1, sem_count = 2, sem_waiting = []\<rparr>"
  by (simp_all add: sem_sample_def the_sem_def)

theorem semaphore_signal_refines_witness:
  "\<exists>s'. sys_Custom_1 (args 0 0 0) sem_sample = Inr (Done (Some 0) s') \<and>
     abs_sem (the_sem s' 60) = (0, []) \<and> ready_queue s' = [20, 30]"
  using semaphore_signal_refines [OF sem_sample_ok, of 60 "args 0 0 0"]
  by (auto simp: abs_sem_def)

text \<open>
  C19: waiting on a semaphore (sys_Custom_2) implements the textbook operation: a positive
  value goes down by one and the call returns 0; otherwise the caller is put at the end of
  the semaphore's queue and gives up the processor. The invariant is kept and the ready
  queue is not touched.
\<close>

theorem semaphore_wait_refines:
  assumes "sem_ok s" and "a \<in> set (sem_list s)" and "sem_id (the_sem s a) = sint (reg uc 0)"
    and "active_proc s = Some me"
  shows "\<exists>s' blocks. spec_down me (abs_sem (the_sem s a)) = (abs_sem (the_sem s' a), blocks) \<and>
           sys_Custom_2 uc s = Inr (if blocks then Yield K_Sem s' else Done (Some 0) s') \<and>
           sem_ok s' \<and> ready_queue s' = ready_queue s"
  using sem_down_eq [OF assms(1-3) disjI1 [OF assms(4)]] by (metis linorder_not_less)

theorem semaphore_wait_refines_witness:
  "(\<exists>s'. sys_Custom_2 (args 0 0 0) sem_sample = Inr (Yield K_Sem s') \<and> sem_waiters 60 s' = [30, 10]) \<and>
   (\<exists>s'. sys_Custom_2 (args 1 0 0) sem_sample = Inr (Done (Some 0) s') \<and> abs_sem (the_sem s' 61) = (1, []))"
  using semaphore_wait_refines [OF sem_sample_ok, of 60 "args 0 0 0" 10]
    semaphore_wait_refines [OF sem_sample_ok, of 61 "args 1 0 0" 10]
  by (auto simp: abs_sem_def sem_waiters_def)

text \<open>
  C22: processes that wait on a semaphore are released in the order they came. From a state in which
  the process at position \<open>n\<close> of the queue (from 0) waits, let any processes signal, wait on and create
  semaphores, and let the rest of the system take any steps in between that leave the semaphores alone
  (switches, other calls, user code). Then signal number \<open>n + 1\<close> on this semaphore, and no earlier
  one, is the one that appends that process to the ready queue.
\<close>

theorem semaphore_in_order:
  assumes "sem_ok s" and "a \<in> set (sem_list s)" and "n < length (sem_waiters a s)"
    and "sem_run (sem_id (the_sem s a)) s n t" and "sys_Custom_1 uc t = Inr (Done rv u)"
    and "sint (reg uc 0) = sem_id (the_sem s a)"
  shows "ready_queue u = ready_queue t @ [sem_waiters a s ! n]"
proof -
  from sem_run_trace [OF assms(4,1,2) refl] have t: "sem_ok t" "a \<in> set (sem_list t)"
    "sem_id (the_sem t a) = sint (reg uc 0)" "trace (sem_up a) (sem_other a) n s t" using assms(6) by simp_all
  from sem.in_order [OF t(4)] assms(3) obtain ys where "sem_waiters a t = drop n (sem_waiters a s) @ ys" by auto
  then have "take 1 (sem_waiters a t) = [sem_waiters a s ! n]"
    using assms(3) by (simp add: Cons_nth_drop_Suc [symmetric])
  then show ?thesis using sem_up_result(5) [OF t(1-3) assms(5)] by simp
qed

theorem semaphore_in_order_witness:
  "\<exists>t u. sys_Custom_2 (args 0 0 0) sem_sample = Inr (Yield K_Sem t) \<and>
     sys_Custom_1 (args 0 0 0) (t\<lparr>active_proc := Some 20, ready_queue := []\<rparr>) = Inr (Done (Some 0) u) \<and> ready_queue u = [30]"
proof -
  have id: "sem_id (the_sem sem_sample 60) = sint (reg (args 0 0 0) 0)" by simp
  obtain t where t: "sys_Custom_2 (args 0 0 0) sem_sample = Inr (Yield K_Sem t)"
    using sem_down_eq [OF sem_sample_ok, of 60 "args 0 0 0" 10] by auto
  let ?t = "t\<lparr>active_proc := Some 20, ready_queue := []\<rparr>"
  have run: "sem_run 0 sem_sample 0 ?t"
    by (rule sem_run.elsewhere [OF sem_run.wait [OF sem_run.now t]]) simp_all
  from sem_down_result(1-3) [OF sem_sample_ok _ _ t, of 60] have r: "sem_ok t" "sem_list t = [60, 61]" "sem_id (the_sem t 60) = 0" by simp_all
  have ft: "the_sem ?t 60 = the_sem t 60" by (simp add: the_sem_def)
  have "sem_ok ?t" using r(1) unfolding sem_ok_def by (auto simp: mem_ok_def the_sem_def)
  moreover have "abs_sem (the_sem t 60) = (0, [30, 10])"
    using sem_down_eq [OF sem_sample_ok, of 60 "args 0 0 0" 10] t by (auto simp: abs_sem_def)
  then have "sem_count (the_sem ?t 60) < INT_MAX" unfolding ft by (simp add: abs_sem_def)
  ultimately obtain u where u: "sys_Custom_1 (args 0 0 0) ?t = Inr (Done (Some 0) u)"
    using sem_up_eq [of ?t 60 "args 0 0 0"] r ft by auto
  have "ready_queue u = ready_queue ?t @ [sem_waiters 60 sem_sample ! 0]"
    by (rule semaphore_in_order [OF sem_sample_ok _ _ _ u]) (use run in \<open>simp_all add: sem_waiters_def\<close>)
  then show ?thesis using t u by (auto simp: sem_waiters_def)
qed

theorem semaphore_create_witness:
  "\<exists>s'. sys_Custom_0 (args 0 0 0) sem_sample = Inr (Done (Some (next_sem sem_sample)) s') \<and> sem_ok s'"
  using semaphore_create [OF sem_sample_ok, of "args 0 0 0"] by blast

text \<open>
  Signalling or waiting on an id that no semaphore has dereferences a NULL pointer in
  the kernel instead of returning ERROR.
\<close>

theorem semaphore_unknown_id:
  assumes "live (sems s) (sem_list s)" and "\<forall>a\<in>set (sem_list s). sem_id (the_sem s a) \<noteq> sint (reg uc 0)"
  shows "sys_Custom_1 uc s = Inl NullDeref \<and> sys_Custom_2 uc s = Inl NullDeref"
proof -
  have "find_obj (sems s) (\<lambda>m. sem_id m = sint (reg uc 0)) 1 (sem_list s) = Inr None"
    using assms by (force simp: find_obj_None live_def the_sem_def)
  then show ?thesis by (simp add: sys_Custom_1_def sys_Custom_2_def find_sem_def)
qed

theorem semaphore_unknown_id_witness:
  "sys_Custom_1 (args 7 0 0) sem_sample = Inl NullDeref"
proof -
  have "live (sems sem_sample) (sem_list sem_sample)" using sem_sample_ok by (simp add: sem_ok_def)
  then show ?thesis using semaphore_unknown_id [of sem_sample "args 7 0 0"] by simp
qed

end
