(* ===== verification/Locks.thy ===== *)
theory Locks
  imports Wait_Queues
begin

text \<open>
  Locks and condition variables of syscall.c: LockInit, Acquire, Release, CvarInit,
  CvarSignal, CvarBroadcast, CvarWait, and destroy_lock_info and destroy_cvar_info of
  scheduler.c.
\<close>

section \<open>Locks\<close>

definition sys_LockInit :: "user_context \<Rightarrow> kstate \<Rightarrow> kres res" where
  "sys_LockInit uc s =
     (case malloc s of (l, s) \<Rightarrow>
      case malloc s of (r, s) \<Rightarrow>
      case (l, r) of
        (None, _) \<Rightarrow> Inr (Done (Some ERROR) s)
      | (_, None) \<Rightarrow> Inr (Done (Some ERROR) s)
      | (Some l, Some r) \<Rightarrow>
          let id = int (length (reclaim_list s)) + 1 in
          (case malloc s of
             (None, s) \<Rightarrow> Inr (Done (Some ERROR) s)
           | (Some _, s) \<Rightarrow>
               let s = s\<lparr>locks := (locks s)(l \<mapsto>
                     \<lparr>lockid = id, locked = False, lock_pid = 0, lock_wait_list = []\<rparr>)\<rparr> in
               res_bind (user_store (reg uc 0) (int_bytes id) s) (\<lambda>s.
               case klist_append (lock_list s) l s of
                 (rc, ll, s) \<Rightarrow>
                   if rc \<noteq> 0 then Inr (Done (Some ERROR) s)
                   else
                     let s = s\<lparr>lock_list := ll,
                           reclaims := (reclaims s)(r \<mapsto>
                             \<lparr>reclaim_id = int (length (reclaim_list s)) + 1, reclaim_type = 1\<rparr>)\<rparr>
                     in
                     (case klist_append (reclaim_list s) r s of
                        (rc, rl, s) \<Rightarrow>
                          if rc \<noteq> 0 then Inr (Done (Some ERROR) s)
                          else Inr (Done (Some 0) (s\<lparr>reclaim_list := rl\<rparr>))))))"

text \<open>
  The loop of sys_Acquire on the lock found, from its test on. \<open>K\<close> makes the saved kernel
  context, which depends on the caller.
\<close>

definition acquire_loop ::
    "(addr \<Rightarrow> int \<Rightarrow> bool \<Rightarrow> kcont) \<Rightarrow> addr \<Rightarrow> int \<Rightarrow> bool \<Rightarrow> kstate \<Rightarrow> kres res" where
  "acquire_loop K l lock_id exist s =
     res_bind (deref (locks s) l) (\<lambda>li.
     if locked li then
       (case active_proc s of
          None \<Rightarrow> Inl NullDeref
        | Some a \<Rightarrow>
            (case klist_append (lock_wait_list li) a s of
               (_, w, s) \<Rightarrow>
                 Inr (Yield (K l lock_id exist)
                   (s\<lparr>locks := (locks s)(l \<mapsto> li\<lparr>lock_wait_list := w\<rparr>)\<rparr>))))
     else
       res_bind (deref_ptr (pcbs s) (active_proc s)) (\<lambda>p.
         Inr (Done (Some 0)
           (s\<lparr>locks := (locks s)(l \<mapsto> li\<lparr>locked := True, lock_pid := pid p\<rparr>)\<rparr>))))"

definition sys_Acquire ::
    "(addr \<Rightarrow> int \<Rightarrow> bool \<Rightarrow> kcont) \<Rightarrow> user_context \<Rightarrow> int \<Rightarrow> kstate \<Rightarrow> kres res" where
  "sys_Acquire K uc i s =
     (let lock_id = (if i = 0 then sint (reg uc 0) else i) in
      if i < 0 then Inr (Done (Some 0) s)
      else
        res_bind (find_obj (locks s) (\<lambda>li. lockid li = lock_id) 1 (lock_list s)) (\<lambda>r.
        case r of
          None \<Rightarrow> Inr (Done (Some ERROR) s)
        | Some (_, l) \<Rightarrow> acquire_loop K l lock_id False s))"

text \<open>
  The code after normal_schedule: look whether a lock with this id is still there, then
  test the lock again. \<open>exist\<close> keeps its value from one round to the next.
\<close>

definition acquire_resume ::
    "(addr \<Rightarrow> int \<Rightarrow> bool \<Rightarrow> kcont) \<Rightarrow> addr \<Rightarrow> int \<Rightarrow> bool \<Rightarrow> kstate \<Rightarrow> kres res" where
  "acquire_resume K l lock_id exist s =
     res_bind (find_obj (locks s) (\<lambda>li. lockid li = lock_id) 1 (lock_list s)) (\<lambda>r.
     let exist = (exist \<or> r \<noteq> None) in
     if \<not> exist then Inr (Done (Some ERROR) s)
     else acquire_loop K l lock_id exist s)"

definition sys_Release :: "int \<Rightarrow> kstate \<Rightarrow> (int \<times> kstate) res" where
  "sys_Release lock_id s =
     res_bind (deref_ptr (pcbs s) (active_proc s)) (\<lambda>me.
     res_bind (find_obj (locks s)
       (\<lambda>li. lockid li = lock_id \<and> lock_pid li = pid me \<and> locked li) 1 (lock_list s)) (\<lambda>r.
     case r of
       None \<Rightarrow> Inr (ERROR, s)
     | Some (_, l) \<Rightarrow>
         res_bind (deref (locks s) l) (\<lambda>li.
         let li = li\<lparr>locked := False, lock_pid := 0\<rparr> in
         (case lock_wait_list li of
            [] \<Rightarrow> Inr (0, s\<lparr>locks := (locks s)(l \<mapsto> li)\<rparr>)
          | q # w \<Rightarrow>
              res_bind (deref (pcbs s) q) (\<lambda>p.
                let s = s\<lparr>locks := (locks s)(l \<mapsto> li\<lparr>lock_wait_list := w, lock_pid := pid p\<rparr>)\<rparr>
                in Inr (0, snd (ready_insert q s)))))))"

definition destroy_lock_info :: "int \<Rightarrow> kstate \<Rightarrow> (int \<times> kstate) res" where
  "destroy_lock_info lock_id s =
     (if lock_id < 0 then Inr (ERROR, s)
      else
        res_bind (deref_ptr (pcbs s) (active_proc s)) (\<lambda>me.
        res_bind (find_obj (locks s)
          (\<lambda>li. lockid li = lock_id \<and> (lock_pid li = pid me \<and> locked li \<or> \<not> locked li))
          1 (lock_list s)) (\<lambda>r.
        case r of
          None \<Rightarrow> Inr (ERROR, s)
        | Some (i, l) \<Rightarrow>
            res_bind (deref (locks s) l) (\<lambda>li.
            case wake_loop 1 (lock_wait_list li) s of
              (_, s) \<Rightarrow>
                let s = s\<lparr>locks := (locks s)(l := None)\<rparr> in
                (case klist_remove (lock_list s) i of
                   (None, _) \<Rightarrow> Inr (ERROR, s)
                 | (Some _, ll) \<Rightarrow> Inr (0, s\<lparr>lock_list := ll\<rparr>))))))"

section \<open>Condition variables\<close>

text \<open>
  sys_CvarInit tests only the allocation of the cvar; the reclaim_info is written without
  a test.
\<close>

definition sys_CvarInit :: "user_context \<Rightarrow> kstate \<Rightarrow> kres res" where
  "sys_CvarInit uc s =
     (case malloc s of (r, s) \<Rightarrow>
      case malloc s of
        (None, s) \<Rightarrow> Inr (Done (Some ERROR) s)
      | (Some c, s) \<Rightarrow>
          let id = int (length (reclaim_list s)) + 1 in
          (case malloc s of
             (None, s) \<Rightarrow> Inr (Done (Some ERROR) s)
           | (Some _, s) \<Rightarrow>
               let s = s\<lparr>cvars := (cvars s)(c \<mapsto> \<lparr>cvarid = id, cvar_wait_list = []\<rparr>)\<rparr> in
               res_bind (user_store (reg uc 0) (int_bytes id) s) (\<lambda>s.
               case klist_append (cvar_list s) c s of
                 (rc, cl, s) \<Rightarrow>
                   if rc \<noteq> 0 then Inr (Done (Some ERROR) s)
                   else
                     (case r of
                        None \<Rightarrow> Inl NullDeref
                      | Some r \<Rightarrow>
                          let s = s\<lparr>cvar_list := cl,
                                reclaims := (reclaims s)(r \<mapsto>
                                  \<lparr>reclaim_id = int (length (reclaim_list s)) + 1, reclaim_type = 2\<rparr>)\<rparr>
                          in
                          (case klist_append (reclaim_list s) r s of
                             (rc, rl, s) \<Rightarrow>
                               if rc \<noteq> 0 then Inr (Done (Some ERROR) s)
                               else Inr (Done (Some 0) (s\<lparr>reclaim_list := rl\<rparr>)))))))"

definition sys_CvarSignal :: "user_context \<Rightarrow> kstate \<Rightarrow> kres res" where
  "sys_CvarSignal uc s =
     (let cvar_id = sint (reg uc 0) in
      if cvar_id < 0 then Inr (Done (Some ERROR) s)
      else
        res_bind (find_obj (cvars s) (\<lambda>c. cvarid c = cvar_id) 1 (cvar_list s)) (\<lambda>r.
        case r of
          None \<Rightarrow> Inr (Done (Some ERROR) s)
        | Some (_, a) \<Rightarrow>
            res_bind (deref (cvars s) a) (\<lambda>c.
            case cvar_wait_list c of
              [] \<Rightarrow> Inr (Done (Some 0) s)
            | p # w \<Rightarrow>
                let s = s\<lparr>cvars := (cvars s)(a \<mapsto> c\<lparr>cvar_wait_list := w\<rparr>)\<rparr> in
                (case ready_insert p s of
                   (rc, s) \<Rightarrow> Inr (Done (Some (if rc \<noteq> 0 then ERROR else 0)) s)))))"

text \<open>The loop of sys_CvarBroadcast: return code, what is left of the wait list, state.\<close>

fun broadcast_loop :: "addr list \<Rightarrow> kstate \<Rightarrow> int \<times> addr list \<times> kstate" where
  "broadcast_loop [] s = (0, [], s)"
| "broadcast_loop (p # w) s =
     (case ready_insert p s of
        (rc, s) \<Rightarrow> if rc \<noteq> 0 then (ERROR, w, s) else broadcast_loop w s)"

lemma broadcast_loop_ok:
  "mem_ok s \<Longrightarrow> broadcast_loop w s = (0, [], s\<lparr>malloc_cnt := malloc_cnt s + length w, ready_queue := ready_queue s @ w\<rparr>)"
proof (induction w arbitrary: s)
  case (Cons p w)
  have "mem_ok (s\<lparr>malloc_cnt := Suc (malloc_cnt s), ready_queue := ready_queue s @ [p]\<rparr>)"
    using Cons.prems by (simp add: mem_ok_def)
  from Cons.IH [OF this] Cons.prems show ?case by (simp add: ready_insert_ok)
qed simp

definition sys_CvarBroadcast :: "user_context \<Rightarrow> kstate \<Rightarrow> kres res" where
  "sys_CvarBroadcast uc s =
     (let cvar_id = sint (reg uc 0) in
      if cvar_id < 0 then Inr (Done (Some ERROR) s)
      else
        res_bind (find_obj (cvars s) (\<lambda>c. cvarid c = cvar_id) 1 (cvar_list s)) (\<lambda>r.
        case r of
          None \<Rightarrow> Inr (Done (Some ERROR) s)
        | Some (_, a) \<Rightarrow>
            res_bind (deref (cvars s) a) (\<lambda>c.
            case broadcast_loop (cvar_wait_list c) s of
              (rc, w, s) \<Rightarrow>
                Inr (Done (Some rc) (s\<lparr>cvars := (cvars s)(a \<mapsto> c\<lparr>cvar_wait_list := w\<rparr>)\<rparr>)))))"

definition sys_CvarWait :: "user_context \<Rightarrow> kstate \<Rightarrow> kres res" where
  "sys_CvarWait uc s =
     (let cvar_id = sint (reg uc 0); lock_id = sint (reg uc 1) in
      res_bind (sys_Release lock_id s) (\<lambda>(rc, s).
      if rc \<noteq> 0 then Inr (Done (Some ERROR) s)
      else
        res_bind (find_obj (cvars s) (\<lambda>c. cvarid c = cvar_id) 1 (cvar_list s)) (\<lambda>r.
        case r of
          None \<Rightarrow> Inr (Done (Some ERROR) s)
        | Some (_, a) \<Rightarrow>
            res_bind (deref (cvars s) a) (\<lambda>c.
            case active_proc s of
              None \<Rightarrow> Inl NullDeref
            | Some me \<Rightarrow>
                (case klist_append (cvar_wait_list c) me s of
                   (_, w, s) \<Rightarrow>
                     Inr (Yield (K_CvarWait cvar_id lock_id)
                       (s\<lparr>cvars := (cvars s)(a \<mapsto> c\<lparr>cvar_wait_list := w\<rparr>)\<rparr>)))))))"

text \<open>sys_CvarWait returns ERROR or 0 for whatever the nested sys_Acquire returns.\<close>

fun cvar_rc :: "kres \<Rightarrow> kres" where
  "cvar_rc (Done (Some rc) s) = Done (Some (if rc \<noteq> 0 then ERROR else 0)) s"
| "cvar_rc r = r"

definition cvar_resume :: "user_context \<Rightarrow> int \<Rightarrow> int \<Rightarrow> kstate \<Rightarrow> kres res" where
  "cvar_resume uc cvar_id lock_id s =
     res_bind (find_obj (cvars s) (\<lambda>c. cvarid c = cvar_id) 1 (cvar_list s)) (\<lambda>r.
     case r of
       None \<Rightarrow> Inr (Done (Some ERROR) s)
     | Some _ \<Rightarrow> res_bind (sys_Acquire K_CvarAcquire uc lock_id s) (\<lambda>r. Inr (cvar_rc r)))"

definition destroy_cvar_info :: "int \<Rightarrow> kstate \<Rightarrow> (int \<times> kstate) res" where
  "destroy_cvar_info cvar_id s =
     (if cvar_id < 0 then Inr (ERROR, s)
      else
        res_bind (find_obj (cvars s) (\<lambda>c. cvarid c = cvar_id) 1 (cvar_list s)) (\<lambda>r.
        case r of
          None \<Rightarrow> Inr (ERROR, s)
        | Some (i, a) \<Rightarrow>
            res_bind (deref (cvars s) a) (\<lambda>c.
            case wake_loop 1 (cvar_wait_list c) s of
              (_, s) \<Rightarrow>
                let s = s\<lparr>cvars := (cvars s)(a := None)\<rparr> in
                (case klist_remove (cvar_list s) i of
                   (None, _) \<Rightarrow> Inr (ERROR, s)
                 | (Some _, cl) \<Rightarrow> Inr (0, s\<lparr>cvar_list := cl\<rparr>)))))"

end
