(* ===== verification/Pipes.thy ===== *)
theory Pipes
  imports Wait_Queues
begin

text \<open>
  Pipes of syscall.c: PipeInit, PipeRead, PipeWrite, and destroy_pipe_info of scheduler.c.
\<close>

definition sys_PipeInit :: "user_context \<Rightarrow> kstate \<Rightarrow> kres res" where
  "sys_PipeInit uc s =
     (case malloc s of (p, s) \<Rightarrow>
      case malloc s of (r, s) \<Rightarrow>
      case (p, r) of
        (None, _) \<Rightarrow> Inr (Done (Some ERROR) s)
      | (_, None) \<Rightarrow> Inr (Done (Some ERROR) s)
      | (Some p, Some r) \<Rightarrow>
          let id = int (length (reclaim_list s)) + 1 in
          (case malloc s of
             (None, s) \<Rightarrow> Inr (Done (Some ERROR) s)
           | (Some _, s) \<Rightarrow>
          (case malloc s of
             (None, s) \<Rightarrow> Inr (Done (Some ERROR) s)
           | (Some _, s) \<Rightarrow>
               let s = s\<lparr>pipes := (pipes s)(p \<mapsto>
                     \<lparr>pipeid = id, cur_len = 0, pipe_buffer = replicate (nat PIPE_BUF_SIZE) 0,
                      pipe_wait_list = []\<rparr>)\<rparr> in
               res_bind (user_store (reg uc 0) (int_bytes id) s) (\<lambda>s.
               case klist_append (pipe_list s) p s of
                 (rc, pl, s) \<Rightarrow>
                   if rc \<noteq> 0 then Inr (Done (Some ERROR) s)
                   else
                     let s = s\<lparr>pipe_list := pl,
                           reclaims := (reclaims s)(r \<mapsto>
                             \<lparr>reclaim_id = int (length (reclaim_list s)) + 1, reclaim_type = 0\<rparr>)\<rparr>
                     in
                     (case klist_append (reclaim_list s) r s of
                        (rc, rl, s) \<Rightarrow>
                          if rc \<noteq> 0 then Inr (Done (Some ERROR) s)
                          else Inr (Done (Some 0) (s\<lparr>reclaim_list := rl\<rparr>)))))))"

text \<open>
  The part of sys_PipeRead that takes \<open>n\<close> bytes out of pipe \<open>a\<close>: copy them to the
  user, move the rest to the start of a new block, free the old block through a pointer
  that was advanced by \<open>n\<close>, and wake one waiting process.
\<close>

definition pipe_take :: "addr \<Rightarrow> pipe_info \<Rightarrow> u32 \<Rightarrow> int \<Rightarrow> kstate \<Rightarrow> kres res" where
  "pipe_take a p buf n s =
     res_bind (user_store buf (take (nat n) (pipe_buffer p)) s) (\<lambda>s.
     let rest = take (nat (cur_len p - n)) (drop (nat n) (pipe_buffer p)) in
     case malloc s of
       (None, s) \<Rightarrow> Inl NullDeref
     | (Some _, s) \<Rightarrow>
         let s = (if n > 0 then s\<lparr>ub_log := ub_log s @ [FreeInterior]\<rparr> else s);
             p = p\<lparr>cur_len := cur_len p - n,
                   pipe_buffer := rest @ replicate (nat PIPE_BUF_SIZE - length rest) 0\<rparr>
         in
         (case pipe_wait_list p of
            [] \<Rightarrow> Inr (Done (Some 0) (s\<lparr>pipes := (pipes s)(a \<mapsto> p)\<rparr>))
          | q # w \<Rightarrow>
              let s = s\<lparr>pipes := (pipes s)(a \<mapsto> p\<lparr>pipe_wait_list := w\<rparr>)\<rparr>
              in Inr (Done (Some 0) (snd (ready_insert q s)))))"

text \<open>The loop \<^verbatim>\<open>while (p->cur_len < len)\<close> from its test on.\<close>

definition pipe_read_loop :: "addr \<Rightarrow> int \<Rightarrow> u32 \<Rightarrow> int \<Rightarrow> bool \<Rightarrow> kstate \<Rightarrow> kres res" where
  "pipe_read_loop a pipe_id buf n exist s =
     res_bind (deref (pipes s) a) (\<lambda>p.
     if cur_len p < n then
       (case active_proc s of
          None \<Rightarrow> Inl NullDeref
        | Some me \<Rightarrow>
            (case klist_append (pipe_wait_list p) me s of
               (_, w, s) \<Rightarrow>
                 Inr (Yield (K_PipeRead a pipe_id buf n exist)
                   (s\<lparr>pipes := (pipes s)(a \<mapsto> p\<lparr>pipe_wait_list := w\<rparr>)\<rparr>))))
     else pipe_take a p buf n s)"

definition sys_PipeRead :: "user_context \<Rightarrow> kstate \<Rightarrow> kres res" where
  "sys_PipeRead uc s =
     res_bind (deref_ptr (pcbs s) (active_proc s)) (\<lambda>me.
     let pipe_id = sint (reg uc 0); buf = reg uc 1; n = sint (reg uc 2) in
     if \<not> user_addr_ok buf me then Inr (Done (Some ERROR) s)
     else if pipe_id < 0 then Inr (Done (Some ERROR) s)
     else if n < 0 then Inr (Done (Some ERROR) s)
     else
       res_bind (find_obj (pipes s) (\<lambda>p. pipeid p = pipe_id) 1 (pipe_list s)) (\<lambda>r.
       case r of
         None \<Rightarrow> Inr (Done (Some ERROR) s)
       | Some (_, a) \<Rightarrow> pipe_read_loop a pipe_id buf n False s))"

definition pipe_resume :: "addr \<Rightarrow> int \<Rightarrow> u32 \<Rightarrow> int \<Rightarrow> bool \<Rightarrow> kstate \<Rightarrow> kres res" where
  "pipe_resume a pipe_id buf n exist s =
     res_bind (find_obj (pipes s) (\<lambda>p. pipeid p = pipe_id) 1 (pipe_list s)) (\<lambda>r.
     let exist = (exist \<or> r \<noteq> None) in
     if \<not> exist then Inr (Done (Some ERROR) s)
     else pipe_read_loop a pipe_id buf n exist s)"

text \<open>\<^verbatim>\<open>memcpy(block + at, src, ...)\<close>\<close>

definition put_bytes :: "int \<Rightarrow> byte list \<Rightarrow> byte list \<Rightarrow> byte list res" where
  "put_bytes at src block =
     (if src \<noteq> [] \<and> (at < 0 \<or> int (length block) < at + int (length src)) then Inl OutOfBounds
      else Inr (take (nat at) block @ src @ drop (nat at + length src) block))"

definition sys_PipeWrite :: "user_context \<Rightarrow> kstate \<Rightarrow> kres res" where
  "sys_PipeWrite uc s =
     res_bind (deref_ptr (pcbs s) (active_proc s)) (\<lambda>me.
     let pipe_id = sint (reg uc 0); buf = reg uc 1; n = sint (reg uc 2) in
     if \<not> user_addr_ok buf me then Inr (Done (Some ERROR) s)
     else if pipe_id < 0 then Inr (Done (Some ERROR) s)
     else if n < 0 then Inr (Done (Some ERROR) s)
     else
       res_bind (find_obj (pipes s) (\<lambda>p. pipeid p = pipe_id) 1 (pipe_list s)) (\<lambda>r.
       case r of
         None \<Rightarrow> Inr (Done (Some ERROR) s)
       | Some (_, a) \<Rightarrow>
           res_bind (deref (pipes s) a) (\<lambda>p.
           let buf_left = PIPE_BUF_SIZE - cur_len p;
               byte_write = (if buf_left < n then buf_left else n)
           in
           res_bind (user_load buf (nat byte_write) s) (\<lambda>bs.
           res_bind (put_bytes (cur_len p) bs (pipe_buffer p)) (\<lambda>block.
           let p = p\<lparr>pipe_buffer := block, cur_len := cur_len p + byte_write\<rparr> in
           (case pipe_wait_list p of
              [] \<Rightarrow> Inr (Done (Some byte_write) (s\<lparr>pipes := (pipes s)(a \<mapsto> p)\<rparr>))
            | q # w \<Rightarrow>
                let s = s\<lparr>pipes := (pipes s)(a \<mapsto> p\<lparr>pipe_wait_list := w\<rparr>)\<rparr>
                in Inr (Done (Some byte_write) (snd (ready_insert q s)))))))))"

definition destroy_pipe_info :: "int \<Rightarrow> kstate \<Rightarrow> (int \<times> kstate) res" where
  "destroy_pipe_info pipe_id s =
     (if pipe_id < 0 then Inr (ERROR, s)
      else
        res_bind (find_obj (pipes s) (\<lambda>p. pipeid p = pipe_id) 1 (pipe_list s)) (\<lambda>r.
        case r of
          None \<Rightarrow> Inr (ERROR, s)
        | Some (i, a) \<Rightarrow>
            res_bind (deref (pipes s) a) (\<lambda>p.
            case wake_loop 1 (pipe_wait_list p) s of
              (_, s) \<Rightarrow>
                let s = s\<lparr>pipes := (pipes s)(a := None)\<rparr> in
                (case klist_remove (pipe_list s) i of
                   (None, _) \<Rightarrow> Inr (ERROR, s)
                 | (Some _, pl) \<Rightarrow> Inr (0, s\<lparr>pipe_list := pl\<rparr>)))))"

end
