(* ===== verification/Reclaim.thy ===== *)
theory Reclaim
  imports Locks Pipes
begin

text \<open>sys_Reclaim: destroy a pipe, lock or condition variable by its id.\<close>

definition destroy_by_type :: "int \<Rightarrow> int \<Rightarrow> kstate \<Rightarrow> (int \<times> kstate) res" where
  "destroy_by_type ty i s =
     (if ty = 0 then destroy_pipe_info i s
      else if ty = 1 then destroy_lock_info i s
      else if ty = 2 then destroy_cvar_info i s
      else Inr (ERROR, s))"

definition sys_Reclaim :: "user_context \<Rightarrow> kstate \<Rightarrow> kres res" where
  "sys_Reclaim uc s =
     (let i = sint (reg uc 0) in
      if i < 0 then Inr (Done (Some ERROR) s)
      else
        res_bind (find_obj (reclaims s) (\<lambda>r. i = reclaim_id r) 1 (reclaim_list s)) (\<lambda>f.
        case f of
          None \<Rightarrow> Inr (Done (Some ERROR) s)
        | Some (pos, a) \<Rightarrow>
            res_bind (deref (reclaims s) a) (\<lambda>r.
            res_bind (destroy_by_type (reclaim_type r) i s) (\<lambda>(rc, s).
              if rc \<noteq> 0 then Inr (Done (Some ERROR) s)
              else
                let s = s\<lparr>reclaim_list := snd (klist_remove (reclaim_list s) pos),
                      reclaims := (reclaims s)(a := None)\<rparr>
                in Inr (Done (Some 0) s)))))"

end
