(* ===== verification/Lock_Properties.thy ===== *)
theory Lock_Properties
  imports Samples Effects Reclaim
begin

text \<open>
  Locks: a lock belongs to the process that acquired it until that process releases or
  reclaims it; releases and grants; condition variables.
\<close>

section \<open>Who holds a lock\<close>

definition holder :: "kstate \<Rightarrow> addr \<Rightarrow> int option" where
  "holder s l = (case locks s l of None \<Rightarrow> None | Some li \<Rightarrow> if locked li then Some (lock_pid li) else None)"

definition my_pid :: "kstate \<Rightarrow> int" where
  "my_pid s = pid (the (pcbs s (the (active_proc s))))"

text \<open>No lock that someone else holds changes hands.\<close>

definition respects_holders :: "kstate \<Rightarrow> kstate \<Rightarrow> bool" where
  "respects_holders s s' \<longleftrightarrow> malloc_cnt s \<le> malloc_cnt s' \<and>
     (\<forall>l h. holder s l = Some h \<and> h \<noteq> my_pid s \<and> l < malloc_cnt s \<longrightarrow> holder s' l = Some h)"

lemma respects_same: "locks s' = locks s \<Longrightarrow> malloc_cnt s \<le> malloc_cnt s' \<Longrightarrow> respects_holders s s'"
  by (simp add: respects_holders_def holder_def)

text \<open>Changing one lock that nobody else holds.\<close>

lemma respects_update:
  assumes "locks s' = (locks s)(l := v)" and "holder s l = None \<or> holder s l = Some (my_pid s) \<or>
      holder s' l = holder s l"
    and "malloc_cnt s \<le> malloc_cnt s'"
  shows "respects_holders s s'"
  using assms by (auto simp: respects_holders_def holder_def)

lemma cvar_rc_state [simp]: "kres_state (cvar_rc r) = kres_state r"
  by (cases r rule: cvar_rc.cases) simp_all

lemma acquire_loop_respects:
  assumes "acquire_loop K l i e s = Inr r"
  shows "respects_holders s (kres_state r)"
proof -
  from assms obtain li where li: "locks s l = Some li" by (auto simp: acquire_loop_def)
  show ?thesis
  proof (cases "locked li")
    case True
    obtain a where a: "active_proc s = Some a"
      using assms li True by (cases "active_proc s") (auto simp: acquire_loop_def)
    obtain rc w s1 where w: "klist_append (lock_wait_list li) a s = (rc, w, s1)"
      by (cases "klist_append (lock_wait_list li) a s") auto
    with assms li True a have "locks (kres_state r) = (locks s)(l \<mapsto> li\<lparr>lock_wait_list := w\<rparr>)"
      "malloc_cnt s \<le> malloc_cnt (kres_state r)"
      by (auto simp: acquire_loop_def dest: klist_append_effect)
    then show ?thesis using li True by (intro respects_update [of _ _ l]) (auto simp: holder_def)
  next
    case False
    then obtain p where "locks (kres_state r) = (locks s)(l \<mapsto> li\<lparr>locked := True, lock_pid := p\<rparr>)"
      "malloc_cnt (kres_state r) = malloc_cnt s"
      using assms li by (auto simp: acquire_loop_def)
    then show ?thesis using li False by (intro respects_update [of _ _ l]) (auto simp: holder_def)
  qed
qed

lemma acquire_respects: "sys_Acquire K uc i s = Inr r \<Longrightarrow> respects_holders s (kres_state r)"
  by (auto simp: sys_Acquire_def Let_def respects_same split: if_splits option.splits
      dest: acquire_loop_respects)

lemma acquire_resume_respects: "acquire_resume K l i e s = Inr r \<Longrightarrow> respects_holders s (kres_state r)"
  by (auto simp: acquire_resume_def Let_def respects_same split: if_splits dest: acquire_loop_respects)

lemma my_pid_eq: "deref_ptr (pcbs s) (active_proc s) = Inr me \<Longrightarrow> my_pid s = pid me"
  by (cases "active_proc s") (auto simp: my_pid_def)

lemma release_respects:
  assumes "sys_Release i s = Inr (rc, s')"
  shows "respects_holders s s'"
proof -
  from assms obtain me r where me: "deref_ptr (pcbs s) (active_proc s) = Inr me"
    and f: "find_obj (locks s) (\<lambda>li. lockid li = i \<and> lock_pid li = pid me \<and> locked li) 1 (lock_list s) = Inr r"
    by (auto simp: sys_Release_def)
  show ?thesis
  proof (cases r)
    case None
    then show ?thesis using assms me f by (auto simp: sys_Release_def respects_same)
  next
    case (Some q)
    then obtain j l where q: "r = Some (j, l)" by (cases q) auto
    from find_obj_mem [OF f [unfolded q]] obtain li where
      li: "locks s l = Some li" "lock_pid li = pid me" "locked li"
      by blast
    have "(\<exists>v. locks s' = (locks s)(l := v)) \<and> malloc_cnt s \<le> malloc_cnt s'"
      using assms me f q li
      by (auto simp: sys_Release_def Let_def ready_insert_eq split: list.splits)
    then show ?thesis using li my_pid_eq [OF me] by (auto simp: holder_def intro!: respects_update [of _ _ l])
  qed
qed

lemma destroy_lock_respects:
  assumes "destroy_lock_info i s = Inr (rc, s')"
  shows "respects_holders s s'"
proof (cases "i < 0")
  case True
  then show ?thesis using assms by (auto simp: destroy_lock_info_def respects_same)
next
  case False
  with assms obtain me r where me: "deref_ptr (pcbs s) (active_proc s) = Inr me"
    and f: "find_obj (locks s) (\<lambda>li. lockid li = i \<and> (lock_pid li = pid me \<and> locked li \<or> \<not> locked li))
              1 (lock_list s) = Inr r"
    by (auto simp: destroy_lock_info_def)
  show ?thesis
  proof (cases r)
    case None
    then show ?thesis using assms me f False by (auto simp: destroy_lock_info_def respects_same)
  next
    case (Some q)
    then obtain j l where q: "r = Some (j, l)" by (cases q) auto
    from find_obj_mem [OF f [unfolded q]] obtain li where
      li: "locks s l = Some li" "lock_pid li = pid me \<and> locked li \<or> \<not> locked li"
      by blast
    obtain w s1 where w: "wake_loop 1 (lock_wait_list li) s = (w, s1)" by (cases "wake_loop 1 (lock_wait_list li) s")
    from wake_loop_effect [OF w] have "locks s1 = locks s" "malloc_cnt s \<le> malloc_cnt s1" by auto
    then have "locks s' = (locks s)(l := None)" "malloc_cnt s \<le> malloc_cnt s'"
      using assms me f q li w False
      by (auto simp: destroy_lock_info_def Let_def split: option.splits prod.splits)
    then show ?thesis using li my_pid_eq [OF me] by (auto simp: holder_def intro!: respects_update [of _ _ l])
  qed
qed

lemma lock_init_respects:
  assumes "sys_LockInit uc s = Inr r"
  shows "respects_holders s (kres_state r)"
proof -
  have "\<forall>x. x \<noteq> malloc_cnt s \<longrightarrow> locks (kres_state r) x = locks s x"
    and "malloc_cnt s \<le> malloc_cnt (kres_state r)"
    using assms by (auto simp: sys_LockInit_def malloc_def klist_append_eq Let_def
        split: if_splits dest!: user_store_effect)
  then show ?thesis by (auto simp: respects_holders_def holder_def)
qed


lemma respects_trans_same:
  "respects_holders s s1 \<Longrightarrow> locks s' = locks s1 \<Longrightarrow> malloc_cnt s1 \<le> malloc_cnt s' \<Longrightarrow> respects_holders s s'"
  by (simp add: respects_holders_def holder_def)

lemma cvar_wait_respects:
  assumes "sys_CvarWait uc s = Inr r"
  shows "respects_holders s (kres_state r)"
proof -
  from assms obtain rc s1 where rel: "sys_Release (sint (reg uc 1)) s = Inr (rc, s1)"
    by (auto simp: sys_CvarWait_def Let_def)
  with assms have "locks (kres_state r) = locks s1 \<and> malloc_cnt s1 \<le> malloc_cnt (kres_state r)"
    by (auto simp: sys_CvarWait_def Let_def klist_append_eq split: if_splits option.splits)
  then show ?thesis using respects_trans_same [OF release_respects [OF rel]] by simp
qed

lemma cvar_resume_respects: "cvar_resume uc c i s = Inr r \<Longrightarrow> respects_holders s (kres_state r)"
  using acquire_respects [of K_CvarAcquire uc i s]
  by (auto simp: cvar_resume_def respects_same split: option.splits)

lemma destroy_other_respects:
  "destroy_pipe_info i s = Inr (rc, s') \<Longrightarrow> respects_holders s s'"
  "destroy_cvar_info i s = Inr (rc, s') \<Longrightarrow> respects_holders s s'"
  by (auto simp: destroy_pipe_info_def destroy_cvar_info_def Let_def respects_same
      split: if_splits option.splits prod.splits dest!: wake_loop_effect)

lemma reclaim_respects:
  assumes "sys_Reclaim uc s = Inr r"
  shows "respects_holders s (kres_state r)"
proof -
  have "destroy_by_type ty i s = Inr (rc, s') \<Longrightarrow> respects_holders s s'" for ty i rc s'
    by (auto simp: destroy_by_type_def respects_same split: if_splits
        dest: destroy_other_respects destroy_lock_respects)
  then have "destroy_by_type ty i s = Inr (rc, s1) \<Longrightarrow> locks s' = locks s1 \<Longrightarrow>
      malloc_cnt s1 \<le> malloc_cnt s' \<Longrightarrow> respects_holders s s'" for ty i rc s1 s'
    using respects_trans_same by blast
  with assms show ?thesis
    by (fastforce simp: sys_Reclaim_def Let_def respects_same split: if_splits option.splits)
qed

text \<open>
  Everything the kernel does that can touch a lock, one entry point per rule, and all code
  that leaves the locks alone.
\<close>

inductive lock_step :: "kstate \<Rightarrow> kstate \<Rightarrow> bool" where
  "sys_LockInit uc s = Inr r \<Longrightarrow> lock_step s (kres_state r)"
| "sys_Acquire K uc i s = Inr r \<Longrightarrow> lock_step s (kres_state r)"
| "acquire_resume K l i e s = Inr r \<Longrightarrow> lock_step s (kres_state r)"
| "sys_Release i s = Inr (rc, s') \<Longrightarrow> lock_step s s'"
| "sys_CvarWait uc s = Inr r \<Longrightarrow> lock_step s (kres_state r)"
| "cvar_resume uc c i s = Inr r \<Longrightarrow> lock_step s (kres_state r)"
| "sys_Reclaim uc s = Inr r \<Longrightarrow> lock_step s (kres_state r)"
| "locks s' = locks s \<Longrightarrow> malloc_cnt s \<le> malloc_cnt s' \<Longrightarrow> lock_step s s'"

lemma lock_step_respects: "lock_step s s' \<Longrightarrow> respects_holders s s'"
  by (induction rule: lock_step.induct)
    (auto simp: respects_same intro: lock_init_respects acquire_respects acquire_resume_respects
      release_respects cvar_wait_respects cvar_resume_respects reclaim_respects)

definition step_of_others :: "int \<Rightarrow> kstate \<Rightarrow> kstate \<Rightarrow> bool" where
  "step_of_others h s s' \<longleftrightarrow> lock_step s s' \<and> my_pid s \<noteq> h"

lemma others_keep_holder:
  assumes "(step_of_others h)\<^sup>*\<^sup>* s s'" and "holder s l = Some h" and "l < malloc_cnt s"
  shows "holder s' l = Some h \<and> l < malloc_cnt s'"
  using assms(1)
proof (induction rule: rtranclp_induct)
  case (step t u)
  then have "respects_holders t u" "my_pid t \<noteq> h"
    by (auto simp: step_of_others_def dest: lock_step_respects)
  then show ?case using step.IH by (auto simp: respects_holders_def)
qed (use assms in simp)


section \<open>Acquire and Release on every branch\<close>

definition the_lock :: "kstate \<Rightarrow> addr \<Rightarrow> lock_info" where
  "the_lock s l = the (locks s l)"

definition lock_ok :: "kstate \<Rightarrow> bool" where
  "lock_ok s \<longleftrightarrow> mem_ok s \<and> live (locks s) (lock_list s) \<and>
     inj_on (\<lambda>l. lockid (the_lock s l)) (set (lock_list s)) \<and>
     (\<forall>l\<in>set (lock_list s). live (pcbs s) (lock_wait_list (the_lock s l)))"

lemma holder_the_lock:
  "locks s l \<noteq> None \<Longrightarrow> holder s l = (if locked (the_lock s l) then Some (lock_pid (the_lock s l)) else None)"
  by (auto simp: holder_def the_lock_def)

lemma find_lock:
  assumes "lock_ok s" and "l \<in> set (lock_list s)" and "P (the_lock s l)"
    and "\<And>li. P li \<Longrightarrow> lockid li = lockid (the_lock s l)"
  obtains j where "find_obj (locks s) P 1 (lock_list s) = Inr (Some (j, l))"
proof -
  have lv: "live (locks s) (lock_list s)" and p: "P (the (locks s l))"
    using assms(1,3) by (simp_all add: lock_ok_def the_lock_def)
  have u: "\<forall>b\<in>set (lock_list s). P (the (locks s b)) \<longrightarrow> b = l"
  proof (intro ballI impI)
    fix b assume "b \<in> set (lock_list s)" "P (the (locks s b))"
    then show "b = l" using assms(1,2) assms(4) [of "the_lock s b"]
      by (simp add: lock_ok_def the_lock_def inj_on_def)
  qed
  show thesis by (rule find_obj_unique [where i = 1, OF lv assms(2) p u]) (rule that)
qed

lemma find_lock_none:
  assumes "lock_ok s" and "\<forall>l\<in>set (lock_list s). \<not> P (the_lock s l)"
  shows "find_obj (locks s) P 1 (lock_list s) = Inr None"
  using assms by (force simp: find_obj_None lock_ok_def live_def the_lock_def)

lemma release_eq:
  assumes ok: "lock_ok s" and me: "active_proc s = Some a" "pcbs s a = Some p"
    and l: "l \<in> set (lock_list s)" "lockid (the_lock s l) = i" "holder s l = Some (pid p)"
  shows "\<exists>n g. sys_Release i s = Inr (0, s\<lparr>
           locks := (locks s)(l \<mapsto> (the_lock s l)\<lparr>locked := False,
             lock_wait_list := tl (lock_wait_list (the_lock s l)), lock_pid := g\<rparr>),
           malloc_cnt := n, ready_queue := ready_queue s @ take 1 (lock_wait_list (the_lock s l))\<rparr>)"
proof -
  let ?P = "\<lambda>li. lockid li = i \<and> lock_pid li = pid p \<and> locked li"
  obtain li where li: "locks s l = Some li" using ok l(1) by (auto simp: lock_ok_def live_def)
  then have P: "?P (the_lock s l)" using l(2,3) by (auto simp: holder_def the_lock_def split: if_splits)
  obtain j where f: "find_obj (locks s) ?P 1 (lock_list s) = Inr (Some (j, l))"
    by (rule find_lock [where P = ?P, OF ok l(1) P]) (simp_all add: l(2))
  show ?thesis
  proof (cases "lock_wait_list li")
    case Nil
    have e: "li\<lparr>locked := False, lock_wait_list := [], lock_pid := 0\<rparr> = li\<lparr>locked := False, lock_pid := 0\<rparr>"
      using Nil by (cases li) simp
    show ?thesis using me f li Nil
      by (intro exI [of _ "malloc_cnt s"] exI [of _ 0]) (simp add: sys_Release_def the_lock_def e)
  next
    case (Cons q w)
    then obtain pq where pq: "pcbs s q = Some pq"
      using ok l(1) li by (force simp: lock_ok_def the_lock_def)
    show ?thesis using me f li Cons pq ok
      by (intro exI [of _ "Suc (malloc_cnt s)"] exI [of _ "pid pq"])
        (simp add: sys_Release_def the_lock_def ready_insert_eq lock_ok_def mem_ok_def Let_def)
  qed
qed

lemma release_not_mine:
  assumes "lock_ok s" and "active_proc s = Some a" and "pcbs s a = Some p"
    and "\<forall>l\<in>set (lock_list s). lockid (the_lock s l) = i \<longrightarrow> holder s l \<noteq> Some (pid p)"
  shows "sys_Release i s = Inr (ERROR, s)"
proof -
  have "\<forall>l\<in>set (lock_list s). \<not> (lockid (the_lock s l) = i \<and> lock_pid (the_lock s l) = pid p \<and>
      locked (the_lock s l))"
    using assms(1,4) by (auto simp: lock_ok_def live_def holder_the_lock)
  from find_lock_none [OF assms(1), where P = "\<lambda>li. lockid li = i \<and> lock_pid li = pid p \<and> locked li", OF this]
  show ?thesis using assms(2,3) by (simp add: sys_Release_def)
qed

lemma acquire_eq:
  assumes ok: "lock_ok s" and me: "active_proc s = Some a" "pcbs s a = Some p"
    and l: "l \<in> set (lock_list s)" "lockid (the_lock s l) = sint (reg uc 0)"
  shows "sys_Acquire K uc 0 s =
     (if holder s l = None then
        Inr (Done (Some 0) (s\<lparr>locks := (locks s)(l \<mapsto> (the_lock s l)\<lparr>locked := True, lock_pid := pid p\<rparr>)\<rparr>))
      else
        Inr (Yield (K l (sint (reg uc 0)) False)
          (s\<lparr>malloc_cnt := Suc (malloc_cnt s),
             locks := (locks s)(l \<mapsto> (the_lock s l)\<lparr>lock_wait_list := lock_wait_list (the_lock s l) @ [a]\<rparr>)\<rparr>)))"
proof -
  obtain li where li: "locks s l = Some li" using ok l(1) by (auto simp: lock_ok_def live_def)
  obtain j where f: "find_obj (locks s) (\<lambda>li. lockid li = sint (reg uc 0)) 1 (lock_list s) = Inr (Some (j, l))"
    by (rule find_lock [where P = "\<lambda>li. lockid li = sint (reg uc 0)", OF ok l(1) l(2)]) (simp_all add: l(2))
  show ?thesis
    using ok me li f
    by (simp add: sys_Acquire_def acquire_loop_def holder_def the_lock_def klist_append_ok lock_ok_def)
qed

section \<open>Waiting for a lock\<close>

definition lock_waiters :: "addr \<Rightarrow> kstate \<Rightarrow> addr list" where
  "lock_waiters l s = lock_wait_list (the_lock s l)"

definition lock_release :: "addr \<Rightarrow> kstate \<Rightarrow> kstate \<Rightarrow> bool" where
  "lock_release l s s' \<longleftrightarrow> lock_ok s \<and> l \<in> set (lock_list s) \<and> active_proc s \<noteq> None \<and>
     pcbs s (the (active_proc s)) \<noteq> None \<and> holder s l = Some (my_pid s) \<and>
     (\<exists>rc. sys_Release (lockid (the_lock s l)) s = Inr (rc, s'))"

definition lock_acquire :: "addr \<Rightarrow> kstate \<Rightarrow> kstate \<Rightarrow> bool" where
  "lock_acquire l s s' \<longleftrightarrow> lock_ok s \<and> l \<in> set (lock_list s) \<and> active_proc s \<noteq> None \<and>
     pcbs s (the (active_proc s)) \<noteq> None \<and>
     (\<exists>K uc r. lockid (the_lock s l) = sint (reg uc 0) \<and> sys_Acquire K uc 0 s = Inr r \<and> s' = kres_state r)"

interpretation lock: wait_object "lock_waiters l" "lock_release l" "lock_acquire l" for l
proof
  fix s s' assume rel: "lock_release l s s'"
  then obtain a p where h: "lock_ok s" "active_proc s = Some a" "pcbs s a = Some p" "l \<in> set (lock_list s)"
    "holder s l = Some (pid p)"
    by (auto simp: lock_release_def my_pid_def)
  from release_eq [OF h(1-4) refl h(5)] rel
  show "lock_waiters l s' = tl (lock_waiters l s) \<and> ready_queue s' = ready_queue s @ take 1 (lock_waiters l s)"
    by (auto simp: lock_release_def lock_waiters_def the_lock_def)
next
  fix s s' assume acq: "lock_acquire l s s'"
  then obtain a p K uc r where h: "lock_ok s" "active_proc s = Some a" "pcbs s a = Some p" "l \<in> set (lock_list s)"
    "lockid (the_lock s l) = sint (reg uc 0)" and r: "sys_Acquire K uc 0 s = Inr r" "s' = kres_state r"
    by (auto simp: lock_acquire_def)
  from acquire_eq [OF h, of K] r show "\<exists>ys. lock_waiters l s' = lock_waiters l s @ ys"
    by (auto simp: lock_waiters_def the_lock_def split: if_splits)
qed


section \<open>Properties of locks\<close>

text \<open>
  C5: mutual exclusion. While process \<open>h\<close> holds a lock, whatever the other processes do,
  creating, acquiring, releasing and reclaiming locks, waiting on condition variables, and
  anything that leaves locks alone, \<open>h\<close> still holds it; and a process that tries to take it
  is blocked, it never returns from Acquire with the lock.
\<close>

theorem lock_mutual_exclusion:
  assumes "holder s l = Some h" and "l < malloc_cnt s" and "(step_of_others h)\<^sup>*\<^sup>* s s'"
  shows "holder s' l = Some h \<and>
         (\<forall>K i e r. acquire_loop K l i e s' = Inr r \<longrightarrow> (\<exists>s''. r = Yield (K l i e) s''))"
proof -
  have h: "holder s' l = Some h" using others_keep_holder [OF assms(3,1,2)] by simp
  then obtain li where "locks s' l = Some li" "locked li"
    by (auto simp: holder_def split: option.splits if_splits)
  then have "\<exists>s''. r = Yield (K l i e) s''" if "acquire_loop K l i e s' = Inr r" for K i e r
    using that by (auto simp: acquire_loop_def klist_append_eq split: option.splits if_splits)
  with h show ?thesis by blast
qed

definition lock_sample :: kstate where
  "lock_sample = sample\<lparr>ready_queue := [20], lock_list := [70, 71],
     locks := [70 \<mapsto> \<lparr>lockid = 1, locked = True, lock_pid = 0, lock_wait_list = [30]\<rparr>,
               71 \<mapsto> \<lparr>lockid = 2, locked = True, lock_pid = 2, lock_wait_list = []\<rparr>],
     cvar_list := [80], cvars := [80 \<mapsto> \<lparr>cvarid = 3, cvar_wait_list = [30, 20]\<rparr>]\<rparr>"

lemma lock_sample_fields [simp]:
  "lock_list lock_sample = [70, 71]" "ready_queue lock_sample = [20]" "active_proc lock_sample = Some 10"
  "the_lock lock_sample 70 = \<lparr>lockid = 1, locked = True, lock_pid = 0, lock_wait_list = [30]\<rparr>"
  "the_lock lock_sample 71 = \<lparr>lockid = 2, locked = True, lock_pid = 2, lock_wait_list = []\<rparr>"
  "pcbs lock_sample = pcbs sample" "malloc_cnt lock_sample = 100"
  "holder lock_sample 70 = Some 0" "holder lock_sample 71 = Some 2"
  "cvar_list lock_sample = [80]" "cvars lock_sample 80 = Some \<lparr>cvarid = 3, cvar_wait_list = [30, 20]\<rparr>"
  by (simp_all add: lock_sample_def the_lock_def holder_def)

lemma lock_sample_ok: "lock_ok lock_sample"
  by (auto simp: lock_ok_def mem_ok_def inj_on_def) (simp_all add: lock_sample_def)

lemma lock_sample_mem_ok [simp]: "mem_ok lock_sample"
  using lock_sample_ok by (simp add: lock_ok_def)

theorem lock_mutual_exclusion_witness:
  "\<exists>s'. sys_Release 1 lock_sample = Inr (0, s') \<and> holder s' 71 = Some 2"
proof -
  from release_eq [OF lock_sample_ok, of 10 _ 70 1] obtain s' where
    s': "sys_Release 1 lock_sample = Inr (0, s')" by fastforce
  have "my_pid lock_sample \<noteq> 2" by (simp add: my_pid_def)
  with lock_step.intros(4) [OF s'] have "step_of_others 2 lock_sample s'"
    by (simp add: step_of_others_def)
  then have "(step_of_others 2)\<^sup>*\<^sup>* lock_sample s'" by (rule r_into_rtranclp)
  then show ?thesis using lock_mutual_exclusion [of lock_sample 71 2 s'] s' by simp
qed

text \<open>
  C23: Acquire, on every branch, when ids are unique and malloc does not fail: with no lock of that id it returns ERROR and changes
  nothing; a free lock is taken by the caller and the call returns 0; with a lock that is
  held the caller is appended to the lock's wait list and gives up the processor.
\<close>

theorem acquire_exact:
  assumes "lock_ok s" and "active_proc s = Some a" and "pcbs s a = Some p"
  shows "((\<forall>l\<in>set (lock_list s). lockid (the_lock s l) \<noteq> sint (reg uc 0)) \<longrightarrow>
            sys_Acquire K uc 0 s = Inr (Done (Some ERROR) s)) \<and>
         (\<forall>l\<in>set (lock_list s). lockid (the_lock s l) = sint (reg uc 0) \<longrightarrow>
            (if holder s l = None
             then \<exists>s'. sys_Acquire K uc 0 s = Inr (Done (Some 0) s') \<and> holder s' l = Some (pid p) \<and>
                    (\<forall>l'. l' \<noteq> l \<longrightarrow> locks s' l' = locks s l') \<and> ready_queue s' = ready_queue s
             else \<exists>s'. sys_Acquire K uc 0 s = Inr (Yield (K l (sint (reg uc 0)) False) s') \<and>
                    holder s' l = holder s l \<and> lock_waiters l s' = lock_waiters l s @ [a] \<and>
                    (\<forall>l'. l' \<noteq> l \<longrightarrow> locks s' l' = locks s l') \<and> ready_queue s' = ready_queue s))"
proof (intro conjI impI ballI)
  assume "\<forall>l\<in>set (lock_list s). lockid (the_lock s l) \<noteq> sint (reg uc 0)"
  from find_lock_none [OF assms(1), where P = "\<lambda>li. lockid li = sint (reg uc 0)", OF this]
  show "sys_Acquire K uc 0 s = Inr (Done (Some ERROR) s)" by (simp add: sys_Acquire_def)
next
  fix l assume l: "l \<in> set (lock_list s)" "lockid (the_lock s l) = sint (reg uc 0)"
  then have "locks s l \<noteq> None" using assms(1) by (auto simp: lock_ok_def live_def)
  then show "if holder s l = None
             then \<exists>s'. sys_Acquire K uc 0 s = Inr (Done (Some 0) s') \<and> holder s' l = Some (pid p) \<and>
                    (\<forall>l'. l' \<noteq> l \<longrightarrow> locks s' l' = locks s l') \<and> ready_queue s' = ready_queue s
             else \<exists>s'. sys_Acquire K uc 0 s = Inr (Yield (K l (sint (reg uc 0)) False) s') \<and>
                    holder s' l = holder s l \<and> lock_waiters l s' = lock_waiters l s @ [a] \<and>
                    (\<forall>l'. l' \<noteq> l \<longrightarrow> locks s' l' = locks s l') \<and> ready_queue s' = ready_queue s"
    using acquire_eq [OF assms l, of K] by (auto simp: holder_def lock_waiters_def the_lock_def)
qed

theorem acquire_exact_witness:
  "\<exists>s'. sys_Acquire K_Acquire (args 2 0 0) 0 lock_sample = Inr (Yield (K_Acquire 71 2 False) s') \<and>
     lock_waiters 71 s' = [10]"
  using acquire_exact [OF lock_sample_ok, of 10 _ "args 2 0 0" K_Acquire]
  by (auto simp: lock_waiters_def)

text \<open>
  C24: Release, on every branch, when ids are unique and malloc does not fail: it returns ERROR and changes nothing unless the caller
  holds a lock of that id; otherwise the lock becomes free, the process that has waited
  longest, if any, leaves the wait list for the end of the ready queue, and the call
  returns 0.
\<close>

theorem release_exact:
  assumes "lock_ok s" and "active_proc s = Some a" and "pcbs s a = Some p"
  shows "((\<forall>l\<in>set (lock_list s). lockid (the_lock s l) = i \<longrightarrow> holder s l \<noteq> Some (pid p)) \<longrightarrow>
            sys_Release i s = Inr (ERROR, s)) \<and>
         (\<forall>l\<in>set (lock_list s). lockid (the_lock s l) = i \<and> holder s l = Some (pid p) \<longrightarrow>
            (\<exists>s'. sys_Release i s = Inr (0, s') \<and> holder s' l = None \<and>
               lock_waiters l s' = tl (lock_waiters l s) \<and>
               ready_queue s' = ready_queue s @ take 1 (lock_waiters l s) \<and>
               (\<forall>l'. l' \<noteq> l \<longrightarrow> locks s' l' = locks s l')))"
proof (intro conjI impI ballI)
  assume "\<forall>l\<in>set (lock_list s). lockid (the_lock s l) = i \<longrightarrow> holder s l \<noteq> Some (pid p)"
  then show "sys_Release i s = Inr (ERROR, s)" by (rule release_not_mine [OF assms])
next
  fix l assume l: "l \<in> set (lock_list s)" "lockid (the_lock s l) = i \<and> holder s l = Some (pid p)"
  then show "\<exists>s'. sys_Release i s = Inr (0, s') \<and> holder s' l = None \<and>
               lock_waiters l s' = tl (lock_waiters l s) \<and>
               ready_queue s' = ready_queue s @ take 1 (lock_waiters l s) \<and>
               (\<forall>l'. l' \<noteq> l \<longrightarrow> locks s' l' = locks s l')"
    using release_eq [OF assms l(1), of i] by (auto simp: holder_def lock_waiters_def the_lock_def)
qed

theorem release_exact_witness:
  "\<exists>s'. sys_Release 1 lock_sample = Inr (0, s') \<and> holder s' 70 = None \<and> ready_queue s' = [20, 30]"
  using release_exact [OF lock_sample_ok, of 10 _ 1] by (auto simp: lock_waiters_def)

text \<open>
  Processes blocked on a lock are woken in the order they came: whatever acquires and
  releases happen on it, the process at position \<open>n\<close> of its wait list (from 0) is made ready
  by release number \<open>n + 1\<close> at the latest.
\<close>

theorem lock_in_order:
  assumes "trace (lock_release l) (lock_acquire l) n s t" and "lock_release l t u"
    and "n < length (lock_waiters l s)"
  shows "lock_waiters l s ! n \<in> set (ready_queue u)"
  using assms by (rule lock.served_in_turn)

theorem lock_in_order_witness:
  "\<exists>u. lock_release 70 lock_sample u \<and> 30 \<in> set (ready_queue u)"
proof -
  from release_eq [OF lock_sample_ok, of 10 _ 70 1] obtain u where
    "sys_Release 1 lock_sample = Inr (0, u)" by fastforce
  then have "lock_release 70 lock_sample u"
    by (simp add: lock_release_def lock_sample_ok my_pid_def)
  with lock_in_order [OF trace_refl this] show ?thesis by (auto simp: lock_waiters_def)
qed

end
