(* ===== verification/Cvar_Properties.thy ===== *)
theory Cvar_Properties
  imports Lock_Properties
begin

text \<open>Condition variables: signal, broadcast, and the lock around a wait.\<close>

definition the_cvar :: "kstate \<Rightarrow> addr \<Rightarrow> cvar_info" where
  "the_cvar s c = the (cvars s c)"

definition cvar_waiters :: "addr \<Rightarrow> kstate \<Rightarrow> addr list" where
  "cvar_waiters c s = cvar_wait_list (the_cvar s c)"

definition cvar_ok :: "kstate \<Rightarrow> bool" where
  "cvar_ok s \<longleftrightarrow> mem_ok s \<and> live (cvars s) (cvar_list s) \<and>
     inj_on (\<lambda>c. cvarid (the_cvar s c)) (set (cvar_list s))"

lemma find_cvar:
  assumes "cvar_ok s" and "c \<in> set (cvar_list s)" and "cvarid (the_cvar s c) = i"
  obtains j where "find_obj (cvars s) (\<lambda>c. cvarid c = i) 1 (cvar_list s) = Inr (Some (j, c))"
proof -
  have lv: "live (cvars s) (cvar_list s)" and p: "cvarid (the (cvars s c)) = i"
    using assms by (simp_all add: cvar_ok_def the_cvar_def)
  have u: "\<forall>b\<in>set (cvar_list s). cvarid (the (cvars s b)) = i \<longrightarrow> b = c"
    using assms by (auto simp: cvar_ok_def the_cvar_def inj_on_def)
  show thesis by (rule find_obj_unique [where i = 1, OF lv assms(2) p u]) (rule that)
qed

lemma signal_eq:
  assumes ok: "cvar_ok s" and c: "c \<in> set (cvar_list s)" "cvarid (the_cvar s c) = sint (reg uc 0)"
    and "0 \<le> sint (reg uc 0)"
  shows "\<exists>s'. sys_CvarSignal uc s = Inr (Done (Some 0) s') \<and>
           cvars s' = (cvars s)(c \<mapsto> (the_cvar s c)\<lparr>cvar_wait_list := tl (cvar_waiters c s)\<rparr>) \<and>
           ready_queue s' = ready_queue s @ take 1 (cvar_waiters c s)"
proof -
  obtain ci where ci: "cvars s c = Some ci" using ok c(1) by (auto simp: cvar_ok_def live_def)
  obtain j where f: "find_obj (cvars s) (\<lambda>c. cvarid c = sint (reg uc 0)) 1 (cvar_list s) = Inr (Some (j, c))"
    using ok c by (rule find_cvar)
  show ?thesis
  proof (cases "cvar_wait_list ci")
    case Nil
    then have "(cvars s)(c \<mapsto> ci\<lparr>cvar_wait_list := []\<rparr>) = cvars s" using ci by (auto simp: fun_eq_iff)
    with Nil show ?thesis using assms ci f
      by (simp add: sys_CvarSignal_def the_cvar_def cvar_waiters_def)
  next
    case (Cons p w)
    then show ?thesis using assms ci f
      by (simp add: sys_CvarSignal_def the_cvar_def cvar_waiters_def ready_insert_eq cvar_ok_def mem_ok_def Let_def)
  qed
qed

section \<open>Order of signals\<close>

definition cvar_signal :: "addr \<Rightarrow> kstate \<Rightarrow> kstate \<Rightarrow> bool" where
  "cvar_signal c s s' \<longleftrightarrow> cvar_ok s \<and> c \<in> set (cvar_list s) \<and>
     (\<exists>uc r. cvarid (the_cvar s c) = sint (reg uc 0) \<and> 0 \<le> sint (reg uc 0) \<and>
        sys_CvarSignal uc s = Inr (Done r s'))"

definition cvar_wait :: "addr \<Rightarrow> kstate \<Rightarrow> kstate \<Rightarrow> bool" where
  "cvar_wait c s s' \<longleftrightarrow> (\<exists>uc r. sys_CvarWait uc s = Inr r \<and> s' = kres_state r) \<and> cvars s c \<noteq> None"

lemma release_cvars: "sys_Release i s = Inr (rc, s') \<Longrightarrow> cvars s' = cvars s \<and> cvar_list s' = cvar_list s \<and>
    active_proc s' = active_proc s \<and> malloc_fails s' = malloc_fails s"
  by (auto simp: sys_Release_def Let_def ready_insert_eq split: option.splits list.splits if_splits)

interpretation cvar: wait_object "cvar_waiters c" "cvar_signal c" "cvar_wait c" for c
proof
  fix s s' assume "cvar_signal c s s'"
  then obtain uc r where "cvar_ok s" "c \<in> set (cvar_list s)" "cvarid (the_cvar s c) = sint (reg uc 0)"
    "0 \<le> sint (reg uc 0)" and r: "sys_CvarSignal uc s = Inr (Done r s')"
    by (auto simp: cvar_signal_def)
  from signal_eq [OF this(1-4)] r
  show "cvar_waiters c s' = tl (cvar_waiters c s) \<and> ready_queue s' = ready_queue s @ take 1 (cvar_waiters c s)"
    by (auto simp: cvar_waiters_def the_cvar_def)
next
  fix s s' assume "cvar_wait c s s'"
  then obtain uc r where r: "sys_CvarWait uc s = Inr r" "s' = kres_state r" "cvars s c \<noteq> None"
    by (auto simp: cvar_wait_def)
  then obtain rc s1 where rel: "sys_Release (sint (reg uc 1)) s = Inr (rc, s1)"
    by (auto simp: sys_CvarWait_def Let_def)
  note c1 = release_cvars [OF rel]
  have "cvar_waiters c s' = cvar_waiters c s1 \<or> (\<exists>me. cvar_waiters c s' = cvar_waiters c s1 @ [me])"
    using r rel
    by (auto simp: sys_CvarWait_def Let_def klist_append_eq cvar_waiters_def the_cvar_def
        split: if_splits option.splits)
  then show "\<exists>ys. cvar_waiters c s' = cvar_waiters c s @ ys"
    using c1 by (auto simp: cvar_waiters_def the_cvar_def)
qed


section \<open>Properties\<close>

text \<open>
  CvarBroadcast, on every branch: a negative or unknown id gives ERROR and changes
  nothing; otherwise every waiting process is appended to the ready queue in the order of
  the wait list, which becomes empty, and the call returns 0.
\<close>

theorem broadcast_exact:
  assumes "cvar_ok s"
  shows "(sint (reg uc 0) < 0 \<or> (\<forall>c\<in>set (cvar_list s). cvarid (the_cvar s c) \<noteq> sint (reg uc 0)) \<longrightarrow>
            sys_CvarBroadcast uc s = Inr (Done (Some ERROR) s)) \<and>
         (\<forall>c\<in>set (cvar_list s). 0 \<le> sint (reg uc 0) \<and> cvarid (the_cvar s c) = sint (reg uc 0) \<longrightarrow>
            (\<exists>s'. sys_CvarBroadcast uc s = Inr (Done (Some 0) s') \<and> cvar_waiters c s' = [] \<and>
               ready_queue s' = ready_queue s @ cvar_waiters c s \<and>
               (\<forall>d. d \<noteq> c \<longrightarrow> cvars s' d = cvars s d)))"
proof (intro conjI impI ballI)
  assume no: "sint (reg uc 0) < 0 \<or> (\<forall>c\<in>set (cvar_list s). cvarid (the_cvar s c) \<noteq> sint (reg uc 0))"
  show "sys_CvarBroadcast uc s = Inr (Done (Some ERROR) s)"
  proof (cases "sint (reg uc 0) < 0")
    case True
    then show ?thesis by (simp add: sys_CvarBroadcast_def)
  next
    case False
    with no assms have "find_obj (cvars s) (\<lambda>c. cvarid c = sint (reg uc 0)) 1 (cvar_list s) = Inr None"
      by (force simp: find_obj_None cvar_ok_def live_def the_cvar_def)
    with False show ?thesis by (simp add: sys_CvarBroadcast_def)
  qed
next
  fix c assume c: "c \<in> set (cvar_list s)" "0 \<le> sint (reg uc 0) \<and> cvarid (the_cvar s c) = sint (reg uc 0)"
  obtain ci where ci: "cvars s c = Some ci" using assms c(1) by (auto simp: cvar_ok_def live_def)
  obtain j where f: "find_obj (cvars s) (\<lambda>c. cvarid c = sint (reg uc 0)) 1 (cvar_list s) = Inr (Some (j, c))"
    using find_cvar [OF assms c(1)] c(2) by blast
  show "\<exists>s'. sys_CvarBroadcast uc s = Inr (Done (Some 0) s') \<and> cvar_waiters c s' = [] \<and>
               ready_queue s' = ready_queue s @ cvar_waiters c s \<and> (\<forall>d. d \<noteq> c \<longrightarrow> cvars s' d = cvars s d)"
    using assms c(2) ci f
    by (simp add: sys_CvarBroadcast_def broadcast_loop_ok cvar_ok_def cvar_waiters_def the_cvar_def)
qed

lemma lock_sample_cvar_ok: "cvar_ok lock_sample"
  by (simp add: cvar_ok_def)

theorem broadcast_exact_witness:
  "\<exists>s'. sys_CvarBroadcast (args 3 0 0) lock_sample = Inr (Done (Some 0) s') \<and>
     ready_queue s' = [20, 30, 20] \<and> cvar_waiters 80 s' = []"
  using broadcast_exact [OF lock_sample_cvar_ok, of "args 3 0 0"]
  by (auto simp: cvar_waiters_def the_cvar_def)

text \<open>
  Signals wake the processes that wait on a condition variable in the order they came,
  one per signal: whatever waits and signals happen on it, the process at position \<open>n\<close> of
  the wait list (from 0) is made ready by signal number \<open>n + 1\<close> at the latest.
\<close>

theorem signals_in_order:
  assumes "trace (cvar_signal c) (cvar_wait c) n s t" and "cvar_signal c t u"
    and "n < length (cvar_waiters c s)"
  shows "cvar_waiters c s ! n \<in> set (ready_queue u)"
  using assms by (rule cvar.served_in_turn)

theorem signals_in_order_witness:
  "\<exists>u. cvar_signal 80 lock_sample u \<and> 30 \<in> set (ready_queue u)"
proof -
  have id: "cvarid (the_cvar lock_sample 80) = sint (reg (args 3 0 0) 0)" by (simp add: the_cvar_def)
  obtain u where "sys_CvarSignal (args 3 0 0) lock_sample = Inr (Done (Some 0) u)"
    using signal_eq [OF lock_sample_cvar_ok _ id] by auto
  then have "cvar_signal 80 lock_sample u"
    unfolding cvar_signal_def using lock_sample_cvar_ok id
    by (intro conjI exI [of _ "args 3 0 0"] exI [of _ "Some 0"]) simp_all
  with signals_in_order [OF trace_refl this] show ?thesis by (auto simp: cvar_waiters_def the_cvar_def)
qed

text \<open>
  C25: CvarWait releases the lock and queues the caller on the condition variable in one
  step, before any other process can run; a caller that does not hold the lock gets ERROR
  and nothing changes.
\<close>

theorem cvar_wait_releases:
  assumes "lock_ok s" and "cvar_ok s" and "active_proc s = Some a" and "pcbs s a = Some p"
    and "l \<in> set (lock_list s)" and "lockid (the_lock s l) = sint (reg uc 1)"
    and "c \<in> set (cvar_list s)" and "cvarid (the_cvar s c) = sint (reg uc 0)"
  shows "if holder s l = Some (pid p)
         then \<exists>s'. sys_CvarWait uc s = Inr (Yield (K_CvarWait (sint (reg uc 0)) (sint (reg uc 1))) s') \<and>
                holder s' l = None \<and> cvar_waiters c s' = cvar_waiters c s @ [a] \<and>
                ready_queue s' = ready_queue s @ take 1 (lock_waiters l s)
         else sys_CvarWait uc s = Inr (Done (Some ERROR) s)"
proof (cases "holder s l = Some (pid p)")
  case True
  from release_eq [OF assms(1,3,4,5,6) True] obtain s1 where
    rel: "sys_Release (sint (reg uc 1)) s = Inr (0, s1)" and h: "holder s1 l = None"
    and rq: "ready_queue s1 = ready_queue s @ take 1 (lock_waiters l s)"
    by (auto simp: holder_def lock_waiters_def)
  note s1 = release_cvars [OF rel]
  obtain ci where ci: "cvars s c = Some ci" using assms(2,7) by (auto simp: cvar_ok_def live_def)
  obtain j where f: "find_obj (cvars s) (\<lambda>c. cvarid c = sint (reg uc 0)) 1 (cvar_list s) = Inr (Some (j, c))"
    using assms(2,7,8) by (rule find_cvar)
  have "mem_ok s1" using s1 assms(2) by (simp add: cvar_ok_def mem_ok_def)
  then show ?thesis using True rel h rq s1 ci f assms(3)
    by (auto simp: sys_CvarWait_def klist_append_ok cvar_waiters_def the_cvar_def holder_def)
next
  case False
  have "lockid (the_lock s l') = sint (reg uc 1) \<longrightarrow> holder s l' \<noteq> Some (pid p)" if "l' \<in> set (lock_list s)" for l'
    using assms(1,5,6) that False by (auto simp: lock_ok_def inj_on_def)
  then have "sys_Release (sint (reg uc 1)) s = Inr (ERROR, s)"
    using assms(1,3,4) by (intro release_not_mine) auto
  with False show ?thesis by (simp add: sys_CvarWait_def)
qed

theorem cvar_wait_releases_witness:
  "\<exists>s'. sys_CvarWait (args 3 1 0) lock_sample = Inr (Yield (K_CvarWait 3 1) s') \<and>
     holder s' 70 = None \<and> cvar_waiters 80 s' = [30, 20, 10]"
  using cvar_wait_releases [OF lock_sample_ok lock_sample_cvar_ok, of 10 _ 70 "args 3 1 0" 80]
  by (auto simp: cvar_waiters_def the_cvar_def)





end
