(* ===== verification/User_Memory.thy ===== *)
theory User_Memory
  imports Frames
begin

text \<open>
  Reads and writes of user memory through a page table: what a store changes, that a
  load returns what was stored, and steps that write only given frames.
\<close>

text \<open>Every byte of the range can be accessed in the given way.\<close>

definition mapped :: "pte list \<Rightarrow> nat \<Rightarrow> u32 \<Rightarrow> nat \<Rightarrow> bool" where
  "mapped pt need a n \<longleftrightarrow> (\<forall>k<n. \<exists>c. translate pt need (a + of_nat k) = Inr c)"

lemma mapped_Suc:
  "mapped pt need a (Suc n) \<longleftrightarrow> (\<exists>c. translate pt need a = Inr c) \<and> mapped pt need (a + 1) n"
proof -
  have "mapped pt need (a + 1) n \<longleftrightarrow> (\<forall>k<n. \<exists>c. translate pt need (a + of_nat (Suc k)) = Inr c)"
    by (simp add: mapped_def add.assoc)
  then show ?thesis by (simp add: mapped_def All_less_Suc2)
qed

text \<open>No frame is mapped twice.\<close>

definition frames_distinct :: "pte list \<Rightarrow> bool" where
  "frames_distinct pt \<longleftrightarrow>
     (\<forall>i<length pt. \<forall>j<length pt. valid (pt ! i) \<and> valid (pt ! j) \<and> pfn (pt ! i) = pfn (pt ! j) \<longrightarrow> i = j)"

lemma translate_Inr:
  assumes "translate pt need a = Inr (f, i)"
  shows "0x100000 \<le> unat a" and "(unat a - 0x100000) div 8192 < length pt"
    and "valid (pt ! ((unat a - 0x100000) div 8192))"
    and "f = pfn (pt ! ((unat a - 0x100000) div 8192))" and "i = unat a mod 8192"
  using assms by (auto simp: translate_def Let_def split: if_splits)

lemma page_offset: "0x100000 \<le> (n::nat) \<Longrightarrow> (n - 0x100000) mod 8192 = n mod 8192"
proof -
  assume "0x100000 \<le> n"
  then have "n = (n - 0x100000) + 8192 * 128" by simp
  then have "n mod 8192 = ((n - 0x100000) + 8192 * 128) mod 8192" by metis
  then show ?thesis by (simp only: mod_mult_self2)
qed

lemma translate_inj:
  assumes "frames_distinct pt" and "translate pt need a = Inr c" and "translate pt need' b = Inr c"
  shows "a = b"
proof -
  obtain f i where c: "c = (f, i)" by (cases c)
  note ta = translate_Inr [OF assms(2) [unfolded c]] and tb = translate_Inr [OF assms(3) [unfolded c]]
  have "(unat a - 0x100000) div 8192 = (unat b - 0x100000) div 8192"
    using assms(1) ta tb unfolding frames_distinct_def by metis
  moreover have "(unat a - 0x100000) mod 8192 = (unat b - 0x100000) mod 8192"
    using ta(1,5) tb(1,5) page_offset by metis
  ultimately have "unat a - 0x100000 = unat b - 0x100000" by (metis div_mult_mod_eq)
  then have "unat a = unat b" using ta(1) tb(1) by simp
  then show ?thesis by (simp add: word_unat_eq_iff)
qed


lemma translate_same:
  "translate pt PROT_READ a = Inr c \<Longrightarrow> translate pt PROT_WRITE a = Inr d \<Longrightarrow> c = d"
  by (auto simp: translate_def Let_def split: if_splits)

lemma vm_store_total: "mapped pt PROT_WRITE a (length bs) \<Longrightarrow> \<exists>m'. vm_store m pt a bs = Inr m'"
  by (induction bs arbitrary: a m) (auto simp: mapped_Suc simp del: PROT_WRITE_def)

lemma vm_load_total: "mapped pt PROT_READ a n \<Longrightarrow> \<exists>bs. vm_load m pt a n = Inr bs \<and> length bs = n"
proof (induction n arbitrary: a)
  case (Suc n)
  then obtain f i where "translate pt PROT_READ a = Inr (f, i)" by (auto simp: mapped_Suc)
  moreover obtain bs where "vm_load m pt (a + 1) n = Inr bs" "length bs = n"
    using Suc by (auto simp: mapped_Suc)
  ultimately show ?case by (simp del: PROT_READ_def)
qed simp

lemma vm_load_length: "vm_load m pt a n = Inr bs \<Longrightarrow> length bs = n"
  by (induction n arbitrary: a bs) auto

text \<open>A store changes nothing outside the bytes its range is mapped to.\<close>

lemma vm_store_other:
  assumes "vm_store m pt a bs = Inr m'"
    and "\<forall>k<length bs. translate pt PROT_WRITE (a + of_nat k) \<noteq> Inr (f, i)"
  shows "m' f i = m f i"
  using assms
proof (induction bs arbitrary: a m)
  case (Cons b bs)
  then obtain g j where t: "translate pt PROT_WRITE a = Inr (g, j)"
    and r: "vm_store (m(g := (m g)(j := b))) pt (a + 1) bs = Inr m'"
    by (auto simp del: PROT_WRITE_def)
  have k: "\<forall>k<length bs. translate pt PROT_WRITE (a + 1 + of_nat k) \<noteq> Inr (f, i)"
  proof (intro allI impI)
    fix k assume "k < length bs"
    then show "translate pt PROT_WRITE (a + 1 + of_nat k) \<noteq> Inr (f, i)"
      using Cons.prems(2) [rule_format, of "Suc k"] by (simp add: add.assoc del: PROT_WRITE_def)
  qed
  have "(f, i) \<noteq> (g, j)" using Cons.prems(2) [rule_format, of 0] t by auto
  with Cons.IH [OF r k] show ?case by auto
qed simp

text \<open>A load after a store to the same range returns what was stored.\<close>

lemma vm_load_store:
  assumes "frames_distinct pt" and "vm_store m pt a bs = Inr m'"
    and "mapped pt PROT_READ a (length bs)" and "length bs < 2 ^ 32"
  shows "vm_load m' pt a (length bs) = Inr bs"
  using assms(2,3,4)
proof (induction bs arbitrary: a m)
  case (Cons b bs)
  then obtain g j where t: "translate pt PROT_WRITE a = Inr (g, j)"
    and r: "vm_store (m(g := (m g)(j := b))) pt (a + 1) bs = Inr m'"
    by (auto simp del: PROT_WRITE_def)
  have tr: "translate pt PROT_READ a = Inr (g, j)"
    using Cons.prems(2) translate_same [OF _ t] by (auto simp: mapped_Suc simp del: PROT_READ_def)
  have "translate pt PROT_WRITE (a + 1 + of_nat k) \<noteq> Inr (g, j)" if "k < length bs" for k
  proof
    assume "translate pt PROT_WRITE (a + 1 + of_nat k) = Inr (g, j)"
    from translate_inj [OF assms(1) this t] have "of_nat (Suc k) = (0 :: u32)"
      by (simp add: add.assoc)
    then have "2 ^ 32 dvd Suc k" by (simp add: word_of_nat_eq_0_iff del: of_nat_Suc)
    then have "2 ^ 32 \<le> Suc k" by (rule dvd_imp_le) simp
    with that Cons.prems(3) show False by simp
  qed
  then have "m' g j = (m(g := (m g)(j := b))) g j" by (intro vm_store_other [OF r]) simp
  moreover have "vm_load m' pt (a + 1) (length bs) = Inr bs"
    using Cons.prems by (intro Cons.IH [OF r]) (auto simp: mapped_Suc)
  ultimately show ?case using tr by (simp del: PROT_READ_def)
qed simp

section \<open>What frames a step writes\<close>

text \<open>Only frames of \<open>W\<close> change.\<close>

definition confined :: "nat set \<Rightarrow> kstate \<Rightarrow> kstate \<Rightarrow> bool" where
  "confined W s s' \<longleftrightarrow> (\<forall>f. f \<notin> W \<longrightarrow> pmem s' f = pmem s f)"

lemma confined_refl [simp]: "confined W s s"
  by (simp add: confined_def)

lemma confined_pmem: "pmem s' = pmem s \<Longrightarrow> confined W s s'"
  by (simp add: confined_def)

lemma confined_trans: "confined W s t \<Longrightarrow> confined W t u \<Longrightarrow> confined W s u"
  by (simp add: confined_def)

lemma confined_mono: "confined V s t \<Longrightarrow> V \<subseteq> W \<Longrightarrow> confined W s t"
  by (auto simp: confined_def)

text \<open>The frames a page table maps; frame 0 stands for a missing frame.\<close>

definition table_frames :: "pte list \<Rightarrow> nat set" where
  "table_frames t = insert 0 (set_mset (used t))"

lemma vm_store_confined:
  assumes "vm_store m t a bs = Inr m'" and f: "f \<notin> table_frames t"
  shows "m' f = m f"
proof
  fix i
  have "translate t PROT_WRITE x \<noteq> Inr (f, i)" for x
  proof
    assume tr: "translate t PROT_WRITE x = Inr (f, i)"
    have "\<exists>j<length t. valid (t ! j) \<and> f = pfn (t ! j)" using translate_Inr(2-4) [OF tr] by blast
    then show False using f used_member by (auto simp: table_frames_def)
  qed
  then show "m' f i = m f i" using vm_store_other [OF assms(1)] by blast
qed

lemma shrink_frames:
  assumes "used t' + nonzero ff' \<subseteq># used t + nonzero ff"
  shows "table_frames t' \<union> set ff' \<subseteq> table_frames t \<union> set ff"
proof -
  have "set_mset (used t' + nonzero ff') \<subseteq> set_mset (used t + nonzero ff)" using assms by (rule set_mset_mono)
  then have "f \<in># used t' \<or> f \<in> set ff' \<Longrightarrow> f \<noteq> 0 \<Longrightarrow> f \<in># used t \<or> f \<in> set ff" for f
    by (auto simp: nonzero_def)
  then show ?thesis by (auto simp: table_frames_def)
qed

end
