(* ===== verification/User_Samples.thy ===== *)
theory User_Samples
  imports Samples User_Memory
begin

text \<open>The one mapped user page of the sample machine: page 3, at address 0x106000.\<close>

lemma sample_addr_ok: "user_addr_ok 0x106000 ((sample_pcb 0 200)\<lparr>u_page_table := sample_table\<rparr>)"
proof -
  have "user_pn 0x106000 = 3" by (subst user_pn_region1) simp_all
  then show ?thesis by (simp add: user_addr_ok_def)
qed

lemma sample_page: "sample_table ! Suc (Suc (Suc 0)) = rw_entry 300" "length sample_table = 128"
proof -
  have "sample_table ! 3 = rw_entry 300" by (simp add: sample_table_def)
  then show "sample_table ! Suc (Suc (Suc 0)) = rw_entry 300" by (simp only: numeral_3_eq_3)
qed (simp add: sample_table_def)

lemma sample_mapped: "mapped sample_table need 0x106000 n" if "need \<in> {1, 2}" and "n \<le> 8"
  unfolding mapped_def
proof (intro allI impI)
  fix k assume k: "k < n"
  have u: "unat (0x106000 + of_nat k :: u32) = 0x106000 + k"
    using k that(2) by (simp add: unat_word_ariths unat_of_nat)
  have "(0x106000 + k - 0x100000) div 8192 = 3" using k that(2) by simp
  then show "\<exists>c. translate sample_table need (0x106000 + of_nat k) = Inr c"
    using that k sample_page by (auto simp: translate_def u Let_def numeral_3_eq_3)
qed

lemma sample_frames_distinct: "frames_distinct sample_table"
  by (auto simp: frames_distinct_def sample_table_def nth_list_update split: if_splits)

end
