(* ===== verification/Pipe_Properties.thy ===== *)
theory Pipe_Properties
  imports User_Samples Effects Pipes
begin

text \<open>
  Pipes: a bounded queue of bytes. Writing appends what fits, reading takes from the front,
  and a reader blocks until enough bytes are there.
\<close>

section \<open>The invariant\<close>

definition the_pipe :: "kstate \<Rightarrow> addr \<Rightarrow> pipe_info" where
  "the_pipe s a = the (pipes s a)"

definition pipe_wf :: "pipe_info \<Rightarrow> bool" where
  "pipe_wf p \<longleftrightarrow> 0 \<le> cur_len p \<and> cur_len p \<le> PIPE_BUF_SIZE \<and> length (pipe_buffer p) = nat PIPE_BUF_SIZE"

definition contents :: "pipe_info \<Rightarrow> byte list" where
  "contents p = take (nat (cur_len p)) (pipe_buffer p)"

definition pipe_ok :: "kstate \<Rightarrow> bool" where
  "pipe_ok s \<longleftrightarrow> mem_ok s \<and> live (pipes s) (pipe_list s) \<and>
     inj_on (\<lambda>a. pipeid (the_pipe s a)) (set (pipe_list s)) \<and>
     (\<forall>a\<in>set (pipe_list s). pipe_wf (the_pipe s a))"

lemma contents_length: "pipe_wf p \<Longrightarrow> length (contents p) = nat (cur_len p)"
  by (auto simp: contents_def pipe_wf_def)

lemma find_pipe:
  assumes "pipe_ok s" and "a \<in> set (pipe_list s)" and "pipeid (the_pipe s a) = i"
  obtains j where "find_obj (pipes s) (\<lambda>p. pipeid p = i) 1 (pipe_list s) = Inr (Some (j, a))"
proof -
  have lv: "live (pipes s) (pipe_list s)" and p: "pipeid (the (pipes s a)) = i"
    using assms by (simp_all add: pipe_ok_def the_pipe_def)
  have u: "\<forall>b\<in>set (pipe_list s). pipeid (the (pipes s b)) = i \<longrightarrow> b = a"
    using assms by (auto simp: pipe_ok_def the_pipe_def inj_on_def)
  show thesis by (rule find_obj_unique [where i = 1, OF lv assms(2) p u]) (rule that)
qed

lemma pipe_ok_update:
  assumes "pipe_ok s" and "a \<in> set (pipe_list s)" and "pipeid p = pipeid (the_pipe s a)" and "pipe_wf p"
    and "mem_ok s'" and "pipes s' = (pipes s)(a \<mapsto> p)" and "pipe_list s' = pipe_list s"
  shows "pipe_ok s'"
proof -
  have eq: "the_pipe s' b = (if b = a then p else the_pipe s b)" for b using assms(6) by (simp add: the_pipe_def)
  have "pipeid (the_pipe s' b) = pipeid (the_pipe s b)" for b using assms(3) eq by simp
  then show ?thesis using assms unfolding pipe_ok_def by (auto simp: eq inj_on_def)
qed

text \<open>A call on pipe \<open>a\<close> by the running process that passes the checks on its arguments.\<close>

definition pipe_call :: "user_context \<Rightarrow> addr \<Rightarrow> kstate \<Rightarrow> bool" where
  "pipe_call uc a s \<longleftrightarrow> pipe_ok s \<and> a \<in> set (pipe_list s) \<and> pipeid (the_pipe s a) = sint (reg uc 0) \<and>
     0 \<le> sint (reg uc 0) \<and> 0 \<le> sint (reg uc 2) \<and>
     (\<exists>me p. active_proc s = Some me \<and> pcbs s me = Some p \<and> user_addr_ok (reg uc 1) p)"

lemma pipe_callE:
  assumes "pipe_call uc a s"
  obtains me q p j where "active_proc s = Some me" "pcbs s me = Some q" "user_addr_ok (reg uc 1) q"
    "pipes s a = Some p" "pipe_wf p" "mem_ok s" "the_pipe s a = p"
    "find_obj (pipes s) (\<lambda>p. pipeid p = sint (reg uc 0)) 1 (pipe_list s) = Inr (Some (j, a))"
proof -
  from assms obtain me q where me: "active_proc s = Some me" "pcbs s me = Some q" "user_addr_ok (reg uc 1) q"
    by (auto simp: pipe_call_def)
  from assms have h: "pipe_ok s" "a \<in> set (pipe_list s)" "pipeid (the_pipe s a) = sint (reg uc 0)"
    by (auto simp: pipe_call_def)
  then obtain p where p: "pipes s a = Some p" by (auto simp: pipe_ok_def live_def)
  with h have "pipe_wf p" "mem_ok s" "the_pipe s a = p" by (auto simp: pipe_ok_def the_pipe_def)
  from find_pipe [OF h] obtain j where
    "find_obj (pipes s) (\<lambda>p. pipeid p = sint (reg uc 0)) 1 (pipe_list s) = Inr (Some (j, a))" .
  with me p \<open>pipe_wf p\<close> \<open>mem_ok s\<close> \<open>the_pipe s a = p\<close> show thesis by (rule that)
qed

section \<open>Writing\<close>

lemma put_bytes_contents:
  assumes "pipe_wf p" and "int (length bs) \<le> PIPE_BUF_SIZE - cur_len p"
  shows "\<exists>block. put_bytes (cur_len p) bs (pipe_buffer p) = Inr block \<and> length block = nat PIPE_BUF_SIZE \<and>
           take (nat (cur_len p) + length bs) block = contents p @ bs"
proof -
  have "length (take (nat (cur_len p)) (pipe_buffer p)) = nat (cur_len p)"
    using assms(1) by (auto simp: pipe_wf_def)
  then show ?thesis using assms by (auto simp: put_bytes_def pipe_wf_def contents_def)
qed

text \<open>How much a write of \<open>n\<close> bytes stores.\<close>

definition room :: "pipe_info \<Rightarrow> int \<Rightarrow> int" where
  "room p n = min n (PIPE_BUF_SIZE - cur_len p)"

lemma write_eq:
  assumes c: "pipe_call uc a s"
    and ld: "user_load (reg uc 1) (nat (room (the_pipe s a) (sint (reg uc 2)))) s = Inr bs"
    and len: "int (length bs) = room (the_pipe s a) (sint (reg uc 2))"
  shows "\<exists>s' p'. sys_PipeWrite uc s = Inr (Done (Some (int (length bs))) s') \<and> pipe_ok s' \<and>
           pipes s' = (pipes s)(a \<mapsto> p') \<and> contents p' = contents (the_pipe s a) @ bs \<and>
           cur_len p' = cur_len (the_pipe s a) + int (length bs) \<and>
           pipe_wait_list p' = tl (pipe_wait_list (the_pipe s a)) \<and>
           ready_queue s' = ready_queue s @ take 1 (pipe_wait_list (the_pipe s a)) \<and> pipe_list s' = pipe_list s"
proof -
  from c obtain me q p j where me: "active_proc s = Some me" "pcbs s me = Some q" "user_addr_ok (reg uc 1) q"
    and p: "pipes s a = Some p" "pipe_wf p" and ok: "mem_ok s" and tp: "the_pipe s a = p"
    and f: "find_obj (pipes s) (\<lambda>p. pipeid p = sint (reg uc 0)) 1 (pipe_list s) = Inr (Some (j, a))"
    by (rule pipe_callE)
  let ?n = "sint (reg uc 2)"
  have n: "0 \<le> sint (reg uc 0)" "0 \<le> ?n" and h: "pipe_ok s" "a \<in> set (pipe_list s)" using c by (auto simp: pipe_call_def)
  have rm: "(if PIPE_BUF_SIZE - cur_len p < ?n then PIPE_BUF_SIZE - cur_len p else ?n) = int (length bs)"
    using len tp by (simp add: room_def min_def)
  have le: "int (length bs) \<le> PIPE_BUF_SIZE - cur_len p" using len tp by (simp add: room_def)
  from put_bytes_contents [OF p(2) this] obtain block where
    b: "put_bytes (cur_len p) bs (pipe_buffer p) = Inr block" "length block = nat PIPE_BUF_SIZE"
    "take (nat (cur_len p) + length bs) block = contents p @ bs"
    by blast
  let ?p = "p\<lparr>pipe_buffer := block, cur_len := cur_len p + int (length bs),
    pipe_wait_list := tl (pipe_wait_list p)\<rparr>"
  let ?s = "s\<lparr>pipes := (pipes s)(a \<mapsto> ?p), malloc_cnt := malloc_cnt s + length (take 1 (pipe_wait_list p)),
    ready_queue := ready_queue s @ take 1 (pipe_wait_list p)\<rparr>"
  have ld': "user_load (reg uc 1) (length bs) s = Inr bs" using ld len by (metis nat_int)
  have run: "sys_PipeWrite uc s = Inr (Done (Some (int (length bs))) ?s)"
  proof (cases "pipe_wait_list p")
    case Nil
    then have e: "p\<lparr>pipe_buffer := block, cur_len := cur_len p + int (length bs), pipe_wait_list := []\<rparr>
        = p\<lparr>pipe_buffer := block, cur_len := cur_len p + int (length bs)\<rparr>"
      by (cases p) simp
    show ?thesis using me f p(1) n b(1) ld' Nil
      unfolding sys_PipeWrite_def by (simp add: rm Let_def e del: PIPE_BUF_SIZE_def)
  next
    case (Cons x w)
    then show ?thesis using me f p(1) n b(1) ld' ok
      unfolding sys_PipeWrite_def
      by (simp add: rm Let_def ready_insert_eq mem_ok_def del: PIPE_BUF_SIZE_def)
  qed
  have wf: "pipe_wf ?p" using p(2) le b(2) by (simp add: pipe_wf_def)
  have "pipe_ok ?s" using tp wf ok by (intro pipe_ok_update [OF h, of ?p]) (auto simp: mem_ok_def)
  moreover have "contents ?p = contents p @ bs"
    using b(3) p(2) by (simp add: contents_def pipe_wf_def nat_add_distrib)
  ultimately show ?thesis using run tp by (intro exI [of _ ?s] exI [of _ ?p]) simp
qed


section \<open>Reading\<close>

lemma read_eq:
  assumes c: "pipe_call uc a s" and n: "sint (reg uc 2) \<le> cur_len (the_pipe s a)"
    and st: "user_store (reg uc 1) (take (nat (sint (reg uc 2))) (contents (the_pipe s a))) s = Inr s1"
  shows "\<exists>s' p'. sys_PipeRead uc s = Inr (Done (Some 0) s') \<and> pipe_ok s' \<and> pmem s' = pmem s1 \<and>
           pcbs s' = pcbs s \<and> active_proc s' = active_proc s \<and>
           pipes s' = (pipes s)(a \<mapsto> p') \<and>
           contents p' = drop (nat (sint (reg uc 2))) (contents (the_pipe s a)) \<and>
           cur_len p' = cur_len (the_pipe s a) - sint (reg uc 2) \<and>
           pipe_wait_list p' = tl (pipe_wait_list (the_pipe s a)) \<and>
           ready_queue s' = ready_queue s @ take 1 (pipe_wait_list (the_pipe s a)) \<and>
           ub_log s' = ub_log s @ (if 0 < sint (reg uc 2) then [FreeInterior] else [])"
proof -
  from c obtain me q p j where me: "active_proc s = Some me" "pcbs s me = Some q" "user_addr_ok (reg uc 1) q"
    and p: "pipes s a = Some p" "pipe_wf p" and ok: "mem_ok s" and tp: "the_pipe s a = p"
    and f: "find_obj (pipes s) (\<lambda>p. pipeid p = sint (reg uc 0)) 1 (pipe_list s) = Inr (Some (j, a))"
    by (rule pipe_callE)
  let ?n = "sint (reg uc 2)"
  have n0: "0 \<le> sint (reg uc 0)" "0 \<le> ?n" and h: "pipe_ok s" "a \<in> set (pipe_list s)"
    using c by (auto simp: pipe_call_def)
  have tk: "take (nat ?n) (contents p) = take (nat ?n) (pipe_buffer p)"
    using n tp n0 by (simp add: contents_def min_def nat_le_eq_zle)
  let ?rest = "take (nat (cur_len p - ?n)) (drop (nat ?n) (pipe_buffer p))"
  have rest: "?rest = drop (nat ?n) (contents p)"
    using n0 n tp by (simp add: contents_def drop_take nat_diff_distrib)
  have lr: "length ?rest = nat (cur_len p - ?n)"
    unfolding rest using contents_length [OF p(2)] n0 by (simp add: nat_diff_distrib')
  let ?p = "p\<lparr>cur_len := cur_len p - ?n,
    pipe_buffer := ?rest @ replicate (nat PIPE_BUF_SIZE - length ?rest) 0,
    pipe_wait_list := tl (pipe_wait_list p)\<rparr>"
  from user_store_effect [OF st] obtain m where m: "s1 = s\<lparr>pmem := m\<rparr>" by blast
  let ?s = "s\<lparr>pmem := m, malloc_cnt := Suc (malloc_cnt s) + length (take 1 (pipe_wait_list p)),
    ub_log := ub_log s @ (if 0 < ?n then [FreeInterior] else []), pipes := (pipes s)(a \<mapsto> ?p),
    ready_queue := ready_queue s @ take 1 (pipe_wait_list p)\<rparr>"
  have loop: "sys_PipeRead uc s = pipe_take a p (reg uc 1) ?n s"
    using me f p(1) n n0 tp by (simp add: sys_PipeRead_def pipe_read_loop_def Let_def)
  have run: "sys_PipeRead uc s = Inr (Done (Some 0) ?s)"
  proof (cases "pipe_wait_list p")
    case Nil
    then have e: "p\<lparr>cur_len := x, pipe_buffer := y, pipe_wait_list := []\<rparr> = p\<lparr>cur_len := x, pipe_buffer := y\<rparr>" for x y
      by (cases p) simp
    show ?thesis using st m tp tk ok Nil unfolding loop
      by (simp add: pipe_take_def malloc_def mem_ok_def Let_def e)
  next
    case (Cons x w)
    then show ?thesis using st m tp tk ok unfolding loop
      by (simp add: pipe_take_def malloc_def mem_ok_def Let_def ready_insert_eq)
  qed
  have wf: "pipe_wf ?p" using p(2) lr n0 n tp by (auto simp: pipe_wf_def)
  have "pipe_ok ?s" using tp wf ok by (intro pipe_ok_update [OF h, of ?p]) (auto simp: mem_ok_def)
  moreover have "contents ?p = drop (nat ?n) (contents p)"
    using lr rest by (simp add: contents_def)
  ultimately show ?thesis using run tp m by (intro exI [of _ ?s] exI [of _ ?p]) simp
qed

lemma read_blocks:
  assumes c: "pipe_call uc a s" and n: "cur_len (the_pipe s a) < sint (reg uc 2)"
  shows "\<exists>s'. sys_PipeRead uc s =
             Inr (Yield (K_PipeRead a (sint (reg uc 0)) (reg uc 1) (sint (reg uc 2)) False) s') \<and>
           pipes s' = (pipes s)(a \<mapsto> (the_pipe s a)\<lparr>pipe_wait_list :=
             pipe_wait_list (the_pipe s a) @ [the (active_proc s)]\<rparr>) \<and> ready_queue s' = ready_queue s"
proof -
  from c obtain me q p j where me: "active_proc s = Some me" "pcbs s me = Some q" "user_addr_ok (reg uc 1) q"
    and p: "pipes s a = Some p" "pipe_wf p" and ok: "mem_ok s" and tp: "the_pipe s a = p"
    and f: "find_obj (pipes s) (\<lambda>p. pipeid p = sint (reg uc 0)) 1 (pipe_list s) = Inr (Some (j, a))"
    by (rule pipe_callE)
  have "0 \<le> sint (reg uc 0)" "0 \<le> sint (reg uc 2)" using c by (auto simp: pipe_call_def)
  then show ?thesis using me f p(1) n tp ok
    by (simp add: sys_PipeRead_def pipe_read_loop_def Let_def klist_append_ok)
qed

section \<open>Order of readers\<close>

definition pipe_waiters :: "addr \<Rightarrow> kstate \<Rightarrow> addr list" where
  "pipe_waiters a s = pipe_wait_list (the_pipe s a)"

text \<open>A write, or a read that finds enough bytes, wakes one process; a read that does not, waits.\<close>

definition pipe_wake :: "addr \<Rightarrow> kstate \<Rightarrow> kstate \<Rightarrow> bool" where
  "pipe_wake a s s' \<longleftrightarrow> (\<exists>uc r. pipe_call uc a s \<and>
     (sys_PipeWrite uc s = Inr (Done r s') \<or>
      sys_PipeRead uc s = Inr (Done r s') \<and> sint (reg uc 2) \<le> cur_len (the_pipe s a)))"

definition pipe_block :: "addr \<Rightarrow> kstate \<Rightarrow> kstate \<Rightarrow> bool" where
  "pipe_block a s s' \<longleftrightarrow> (\<exists>uc k. pipe_call uc a s \<and> sys_PipeRead uc s = Inr (Yield k s') \<and>
     cur_len (the_pipe s a) < sint (reg uc 2))"

lemma write_loads:
  assumes "pipe_call uc a s" and "sys_PipeWrite uc s = Inr r"
  obtains bs where "user_load (reg uc 1) (nat (room (the_pipe s a) (sint (reg uc 2)))) s = Inr bs"
    "int (length bs) = room (the_pipe s a) (sint (reg uc 2))"
proof -
  from assms(1) obtain me q p j where me: "active_proc s = Some me" "pcbs s me = Some q" "user_addr_ok (reg uc 1) q"
    and p: "pipes s a = Some p" "pipe_wf p" and "mem_ok s" and tp: "the_pipe s a = p"
    and f: "find_obj (pipes s) (\<lambda>p. pipeid p = sint (reg uc 0)) 1 (pipe_list s) = Inr (Some (j, a))"
    by (rule pipe_callE)
  have n0: "0 \<le> sint (reg uc 0)" "0 \<le> sint (reg uc 2)" using assms(1) by (auto simp: pipe_call_def)
  have rm: "(if PIPE_BUF_SIZE - cur_len p < sint (reg uc 2) then PIPE_BUF_SIZE - cur_len p else sint (reg uc 2))
      = room p (sint (reg uc 2))"
    by (simp add: room_def min_def)
  have "0 \<le> room p (sint (reg uc 2))" using p(2) n0 by (auto simp: room_def pipe_wf_def)
  moreover obtain bs where bs: "user_load (reg uc 1) (nat (room p (sint (reg uc 2)))) s = Inr bs"
    using assms(2) me p(1) f n0 unfolding sys_PipeWrite_def
    by (auto simp: Let_def rm simp del: PIPE_BUF_SIZE_def)
  moreover from bs me have "length bs = nat (room p (sint (reg uc 2)))"
    by (auto simp: user_load_def dest: vm_load_length)
  ultimately show thesis using that tp by simp
qed

lemma read_stores:
  assumes "pipe_call uc a s" and "sys_PipeRead uc s = Inr r" and "sint (reg uc 2) \<le> cur_len (the_pipe s a)"
  obtains s1 where "user_store (reg uc 1) (take (nat (sint (reg uc 2))) (contents (the_pipe s a))) s = Inr s1"
proof -
  from assms(1) obtain me q p j where me: "active_proc s = Some me" "pcbs s me = Some q" "user_addr_ok (reg uc 1) q"
    and p: "pipes s a = Some p" "pipe_wf p" and "mem_ok s" and tp: "the_pipe s a = p"
    and f: "find_obj (pipes s) (\<lambda>p. pipeid p = sint (reg uc 0)) 1 (pipe_list s) = Inr (Some (j, a))"
    by (rule pipe_callE)
  have n0: "0 \<le> sint (reg uc 0)" "0 \<le> sint (reg uc 2)" using assms(1) by (auto simp: pipe_call_def)
  have "take (nat (sint (reg uc 2))) (contents p) = take (nat (sint (reg uc 2))) (pipe_buffer p)"
    using assms(3) tp n0 by (simp add: contents_def min_def nat_le_eq_zle)
  then show thesis using that assms(2,3) me p(1) f n0 tp
    by (auto simp: sys_PipeRead_def pipe_read_loop_def pipe_take_def Let_def)
qed

interpretation pipe: wait_object "pipe_waiters a" "pipe_wake a" "pipe_block a" for a
proof
  fix s s' assume "pipe_wake a s s'"
  then obtain uc r where c: "pipe_call uc a s" and "sys_PipeWrite uc s = Inr (Done r s') \<or>
      sys_PipeRead uc s = Inr (Done r s') \<and> sint (reg uc 2) \<le> cur_len (the_pipe s a)"
    by (auto simp: pipe_wake_def)
  then show "pipe_waiters a s' = tl (pipe_waiters a s) \<and>
      ready_queue s' = ready_queue s @ take 1 (pipe_waiters a s)"
  proof (elim disjE conjE)
    assume w: "sys_PipeWrite uc s = Inr (Done r s')"
    from c w obtain bs where
      "user_load (reg uc 1) (nat (room (the_pipe s a) (sint (reg uc 2)))) s = Inr bs"
      "int (length bs) = room (the_pipe s a) (sint (reg uc 2))"
      by (rule write_loads)
    from write_eq [OF c this] w show ?thesis by (auto simp: pipe_waiters_def the_pipe_def)
  next
    assume w: "sys_PipeRead uc s = Inr (Done r s')" and n: "sint (reg uc 2) \<le> cur_len (the_pipe s a)"
    from c w n obtain s1 where
      "user_store (reg uc 1) (take (nat (sint (reg uc 2))) (contents (the_pipe s a))) s = Inr s1"
      by (rule read_stores)
    from read_eq [OF c n this] w show ?thesis by (auto simp: pipe_waiters_def the_pipe_def)
  qed
next
  fix s s' assume "pipe_block a s s'"
  then obtain uc k where c: "pipe_call uc a s" "sys_PipeRead uc s = Inr (Yield k s')"
      "cur_len (the_pipe s a) < sint (reg uc 2)"
    by (auto simp: pipe_block_def)
  from read_blocks [OF c(1,3)] c(2) show "\<exists>ys. pipe_waiters a s' = pipe_waiters a s @ ys"
    by (auto simp: pipe_waiters_def the_pipe_def)
qed


section \<open>Properties\<close>

text \<open>
  C27: PipeWrite from a buffer the caller can read stores as many bytes as fit, in order,
  behind what the pipe holds, and returns their number; the pipe never holds more than its
  4096 bytes, and the reader that has waited longest, if any, becomes ready.
\<close>

theorem pipe_write_appends:
  assumes "pipe_call uc a s" and "active_proc s = Some me" and "pcbs s me = Some q"
    and "mapped (u_page_table q) PROT_READ (reg uc 1) (nat (min (sint (reg uc 2)) (4096 - cur_len (the_pipe s a))))"
  shows "\<exists>bs s'. user_load (reg uc 1) (length bs) s = Inr bs \<and>
           int (length bs) = min (sint (reg uc 2)) (4096 - cur_len (the_pipe s a)) \<and>
           sys_PipeWrite uc s = Inr (Done (Some (int (length bs))) s') \<and>
           contents (the_pipe s' a) = contents (the_pipe s a) @ bs \<and>
           0 \<le> cur_len (the_pipe s' a) \<and> cur_len (the_pipe s' a) \<le> 4096 \<and> pipe_ok s' \<and>
           ready_queue s' = ready_queue s @ take 1 (pipe_waiters a s)"
proof -
  have rm: "room (the_pipe s a) (sint (reg uc 2)) = min (sint (reg uc 2)) (4096 - cur_len (the_pipe s a))"
    "0 \<le> room (the_pipe s a) (sint (reg uc 2))"
    using assms(1) by (auto simp: room_def pipe_call_def pipe_ok_def pipe_wf_def)
  from vm_load_total [OF assms(4), of "pmem s"] obtain bs where
    ld: "vm_load (pmem s) (u_page_table q) (reg uc 1) (nat (room (the_pipe s a) (sint (reg uc 2)))) = Inr bs"
      "length bs = nat (room (the_pipe s a) (sint (reg uc 2)))"
    unfolding rm(1) by blast
  then have bs: "user_load (reg uc 1) (nat (room (the_pipe s a) (sint (reg uc 2)))) s = Inr bs"
      "int (length bs) = room (the_pipe s a) (sint (reg uc 2))"
    using assms(2,3) rm(2) by (simp_all add: user_load_def)
  from write_eq [OF assms(1) bs] obtain s' p' where
    s': "sys_PipeWrite uc s = Inr (Done (Some (int (length bs))) s')" "pipe_ok s'"
      "pipes s' = (pipes s)(a \<mapsto> p')" "contents p' = contents (the_pipe s a) @ bs" "pipe_list s' = pipe_list s"
      "ready_queue s' = ready_queue s @ take 1 (pipe_wait_list (the_pipe s a))"
    by blast
  have "user_load (reg uc 1) (length bs) s = Inr bs" using bs by (metis nat_int)
  moreover have "the_pipe s' a = p'" using s'(3) by (simp add: the_pipe_def)
  moreover from this have "pipe_wf p'"
    using s'(2,5) assms(1) by (auto simp: pipe_ok_def pipe_call_def)
  ultimately show ?thesis
    using s' bs(2) rm(1)
    by (intro exI [of _ bs] exI [of _ s']) (simp add: pipe_waiters_def pipe_wf_def)
qed

definition pipe_sample :: kstate where
  "pipe_sample = sample\<lparr>ready_queue := [20], pipe_list := [90],
     pipes := [90 \<mapsto> \<lparr>pipeid = 1, cur_len = 2, pipe_buffer = [7, 8] @ replicate 4094 0,
       pipe_wait_list = [30]\<rparr>]\<rparr>"

lemma pipe_sample_fields [simp]:
  "pipe_list pipe_sample = [90]" "active_proc pipe_sample = Some 10" "pcbs pipe_sample = pcbs sample"
  "the_pipe pipe_sample 90 = \<lparr>pipeid = 1, cur_len = 2, pipe_buffer = [7, 8] @ replicate 4094 0,
     pipe_wait_list = [30]\<rparr>"
  "ready_queue pipe_sample = [20]" "pmem pipe_sample = (\<lambda>_ _. 0)"
  by (simp_all add: pipe_sample_def the_pipe_def) (simp add: sample_def)

lemma pipe_sample_ok: "pipe_ok pipe_sample"
  by (simp add: pipe_ok_def mem_ok_def pipe_wf_def) (simp add: pipe_sample_def)

lemma pipe_sample_call: "0 \<le> sint n \<Longrightarrow> pipe_call (args 1 0x106000 n) 90 pipe_sample"
  using pipe_sample_ok sample_addr_ok by (simp add: pipe_call_def)

lemma pipe_sample_load: "user_load 0x106000 3 pipe_sample = Inr [0, 0, 0]"
  by (simp add: user_load_def numeral_3_eq_3 translate_def sample_page)

theorem pipe_write_appends_witness:
  "\<exists>s'. sys_PipeWrite (args 1 0x106000 3) pipe_sample = Inr (Done (Some 3) s') \<and>
     contents (the_pipe s' 90) = [7, 8, 0, 0, 0] \<and> ready_queue s' = [20, 30]"
proof -
  let ?uc = "args 1 0x106000 3" and ?q = "(sample_pcb 0 200)\<lparr>u_page_table := sample_table\<rparr>"
  have c: "pipe_call ?uc 90 pipe_sample" by (rule pipe_sample_call) simp
  have "active_proc pipe_sample = Some 10" "pcbs pipe_sample 10 = Some ?q"
    "mapped (u_page_table ?q) PROT_READ (reg ?uc 1) (nat (min (sint (reg ?uc 2)) (4096 - cur_len (the_pipe pipe_sample 90))))"
    using sample_mapped [of 1 3] by simp_all
  from pipe_write_appends [OF c this] obtain bs s' where
    "user_load 0x106000 (length bs) pipe_sample = Inr bs" "int (length bs) = 3"
    "sys_PipeWrite ?uc pipe_sample = Inr (Done (Some (int (length bs))) s')"
    "contents (the_pipe s' 90) = contents (the_pipe pipe_sample 90) @ bs"
    "ready_queue s' = ready_queue pipe_sample @ take 1 (pipe_waiters 90 pipe_sample)"
    by auto
  moreover from this have "length bs = 3" by simp
  ultimately show ?thesis using pipe_sample_load by (auto simp: contents_def pipe_waiters_def)
qed

text \<open>
  C28: PipeRead of \<open>n\<close> bytes, when the pipe holds at least \<open>n\<close>, stores the first \<open>n\<close> bytes
  of the pipe to the user's buffer and leaves the rest; with fewer bytes in the pipe the
  caller is appended to the wait list, the pipe keeps its contents, and the caller gives up
  the processor. A successful read of at least one byte frees the old block through a
  pointer into its middle, which is logged.
\<close>

theorem pipe_read_takes:
  assumes "pipe_call uc a s" and "active_proc s = Some me" and "pcbs s me = Some q"
    and "mapped (u_page_table q) PROT_WRITE (reg uc 1) (nat (sint (reg uc 2)))"
  shows "if sint (reg uc 2) \<le> cur_len (the_pipe s a)
         then \<exists>s1 s'. user_store (reg uc 1) (take (nat (sint (reg uc 2))) (contents (the_pipe s a))) s = Inr s1 \<and>
                sys_PipeRead uc s = Inr (Done (Some 0) s') \<and> pmem s' = pmem s1 \<and> pipe_ok s' \<and>
                contents (the_pipe s' a) = drop (nat (sint (reg uc 2))) (contents (the_pipe s a)) \<and>
                ub_log s' = ub_log s @ (if 0 < sint (reg uc 2) then [FreeInterior] else [])
         else \<exists>s'. sys_PipeRead uc s = Inr (Yield (K_PipeRead a (sint (reg uc 0)) (reg uc 1) (sint (reg uc 2)) False) s') \<and>
                contents (the_pipe s' a) = contents (the_pipe s a) \<and>
                pipe_waiters a s' = pipe_waiters a s @ [me]"
proof (cases "sint (reg uc 2) \<le> cur_len (the_pipe s a)")
  case True
  let ?bs = "take (nat (sint (reg uc 2))) (contents (the_pipe s a))"
  have "length ?bs = nat (sint (reg uc 2))"
    using True assms(1) by (auto simp: contents_def pipe_call_def pipe_ok_def pipe_wf_def)
  then have "mapped (u_page_table q) PROT_WRITE (reg uc 1) (length ?bs)" using assms(4) by metis
  from vm_store_total [OF this, of "pmem s"] obtain s1 where s1: "user_store (reg uc 1) ?bs s = Inr s1"
    using assms(2,3) by (auto simp: user_store_def)
  from read_eq [OF assms(1) True s1] s1 True show ?thesis by (auto simp: the_pipe_def)
next
  case False
  with read_blocks [OF assms(1)] assms(2) show ?thesis
    by (auto simp: the_pipe_def contents_def pipe_waiters_def)
qed

theorem pipe_read_takes_witness:
  "\<exists>s'. sys_PipeRead (args 1 0x106000 5) pipe_sample = Inr (Yield (K_PipeRead 90 1 0x106000 5 False) s') \<and>
     pipe_waiters 90 s' = [30, 10]"
proof -
  let ?uc = "args 1 0x106000 5" and ?q = "(sample_pcb 0 200)\<lparr>u_page_table := sample_table\<rparr>"
  have c: "pipe_call ?uc 90 pipe_sample" by (rule pipe_sample_call) simp
  have "active_proc pipe_sample = Some 10" "pcbs pipe_sample 10 = Some ?q"
    "mapped (u_page_table ?q) PROT_WRITE (reg ?uc 1) (nat (sint (reg ?uc 2)))"
    using sample_mapped [of 2 5] by simp_all
  from pipe_read_takes [OF c this] show ?thesis by (auto simp: pipe_waiters_def)
qed

text \<open>
  C12: what is written to an empty pipe is what is read from it. A process writes \<open>n \<le> 4096\<close>
  bytes; later, with the pipe unchanged, a process (the same or another) reads \<open>n\<close> bytes
  into a buffer its page table maps for reading and writing. Then the buffer holds the bytes
  the writer's buffer held.
\<close>

theorem pipe_round_trip:
  assumes "pipe_call uc a s" and "cur_len (the_pipe s a) = 0" and "sint (reg uc 2) \<le> 4096"
    and "user_load (reg uc 1) (nat (sint (reg uc 2))) s = Inr bs"
    and w: "sys_PipeWrite uc s = Inr (Done rc s1)"
    and "pipe_call uc' a s2" and "the_pipe s2 a = the_pipe s1 a" and "reg uc' 2 = reg uc 2"
    and "active_proc s2 = Some b" and "pcbs s2 b = Some q" and "frames_distinct (u_page_table q)"
    and "mapped (u_page_table q) PROT_WRITE (reg uc' 1) (length bs)"
    and "mapped (u_page_table q) PROT_READ (reg uc' 1) (length bs)"
  shows "\<exists>s3. sys_PipeRead uc' s2 = Inr (Done (Some 0) s3) \<and>
           user_load (reg uc' 1) (length bs) s3 = Inr bs"
proof -
  let ?n = "sint (reg uc 2)"
  have n0: "0 \<le> ?n" using assms(1) by (simp add: pipe_call_def)
  have rm: "room (the_pipe s a) ?n = ?n" using assms(2,3) by (simp add: room_def)
  have lb: "length bs = nat ?n" using assms(4) by (auto simp: user_load_def dest: vm_load_length)
  with rm n0 have ld: "user_load (reg uc 1) (nat (room (the_pipe s a) ?n)) s = Inr bs"
    "int (length bs) = room (the_pipe s a) ?n"
    using assms(4) by simp_all
  from write_eq [OF assms(1) ld] w have c1: "contents (the_pipe s1 a) = bs" "cur_len (the_pipe s1 a) = int (length bs)"
    using assms(2) by (auto simp: the_pipe_def contents_def)
  have c2: "contents (the_pipe s2 a) = bs" "sint (reg uc' 2) \<le> cur_len (the_pipe s2 a)"
    using c1 assms(7,8) lb n0 by simp_all
  obtain m where m: "vm_store (pmem s2) (u_page_table q) (reg uc' 1) bs = Inr m"
    using vm_store_total [OF assms(12)] by blast
  have st: "user_store (reg uc' 1) (take (nat (sint (reg uc' 2))) (contents (the_pipe s2 a))) s2 = Inr (s2\<lparr>pmem := m\<rparr>)"
    using m c2(1) assms(8,9,10) lb by (simp add: user_store_def)
  from read_eq [OF assms(6) c2(2) st] obtain s3 where s3: "sys_PipeRead uc' s2 = Inr (Done (Some 0) s3)"
    "pmem s3 = m" "pcbs s3 = pcbs s2" "active_proc s3 = active_proc s2"
    by auto
  have "vm_load m (u_page_table q) (reg uc' 1) (length bs) = Inr bs"
    using lb assms(3) by (intro vm_load_store [OF assms(11) m assms(13)]) auto
  with s3 assms(9,10) show ?thesis by (auto simp: user_load_def)
qed

theorem pipe_round_trip_witness:
  "\<exists>s s1 s3. sys_PipeWrite (args 1 0x106000 3) s = Inr (Done (Some 3) s1) \<and>
     sys_PipeRead (args 1 0x106000 3) s1 = Inr (Done (Some 0) s3) \<and>
     user_load 0x106000 3 s3 = Inr [0, 0, 0]"
proof -
  let ?uc = "args 1 0x106000 3"
  let ?p = "\<lparr>pipeid = 1, cur_len = 0, pipe_buffer = replicate 4096 0, pipe_wait_list = []\<rparr>"
  let ?s = "pipe_sample\<lparr>pipes := [90 \<mapsto> ?p]\<rparr>"
  have p: "the_pipe ?s 90 = ?p" by (simp add: the_pipe_def)
  have "pipe_ok ?s" using p by (simp add: pipe_ok_def mem_ok_def pipe_wf_def) (simp add: pipe_sample_def)
  then have c: "pipe_call ?uc 90 ?s" using sample_addr_ok p by (simp add: pipe_call_def)
  have ld: "user_load 0x106000 3 ?s = Inr [0, 0, 0]" using pipe_sample_load by (simp add: user_load_def)
  have rm: "room (the_pipe ?s 90) (sint (reg ?uc 2)) = 3" using p by (simp add: room_def)
  from write_eq [OF c, of "[0, 0, 0]"] ld rm obtain s1 p' where
    w: "sys_PipeWrite ?uc ?s = Inr (Done (Some 3) s1)" and ok: "pipe_ok s1"
    and pp: "pipes s1 = (pipes ?s)(90 \<mapsto> p')" "pipe_list s1 = pipe_list ?s"
    by auto
  have rest: "pcbs s1 = pcbs ?s" "active_proc s1 = active_proc ?s" "pipeid (the_pipe s1 90) = 1"
    using w p ld by (auto simp: sys_PipeWrite_def Let_def the_pipe_def put_bytes_def split: if_splits)
  then have c': "pipe_call ?uc 90 s1" using ok pp sample_addr_ok by (simp add: pipe_call_def)
  have "\<exists>s3. sys_PipeRead ?uc s1 = Inr (Done (Some 0) s3) \<and> user_load (reg ?uc 1) (length [0, 0, 0 :: byte]) s3 = Inr [0, 0, 0]"
    by (rule pipe_round_trip [OF c _ _ _ w c' refl refl, where b = 10 and
          q = "(sample_pcb 0 200)\<lparr>u_page_table := sample_table\<rparr>"])
      (use rest ld p sample_mapped [unfolded numeral_3_eq_3] sample_frames_distinct in \<open>simp_all\<close>)
  then obtain s3 where "sys_PipeRead ?uc s1 = Inr (Done (Some 0) s3)" "user_load 0x106000 3 s3 = Inr [0, 0, 0]"
    by (auto simp: numeral_3_eq_3)
  with w show ?thesis by blast
qed

text \<open>
  Processes that wait on a pipe are woken in the order they came, one per write or
  successful read: the process at position \<open>n\<close> of the wait list (from 0) is made ready by
  the wake-up number \<open>n + 1\<close> at the latest, whatever reads and writes happen in between.
\<close>

theorem pipe_in_order:
  assumes "trace (pipe_wake a) (pipe_block a) n s t" and "pipe_wake a t u"
    and "n < length (pipe_waiters a s)"
  shows "pipe_waiters a s ! n \<in> set (ready_queue u)"
  using assms by (rule pipe.served_in_turn)

theorem pipe_in_order_witness:
  "\<exists>u. pipe_wake 90 pipe_sample u \<and> 30 \<in> set (ready_queue u)"
proof -
  have c: "pipe_call (args 1 0x106000 3) 90 pipe_sample" by (rule pipe_sample_call) simp
  have rm: "room (the_pipe pipe_sample 90) (sint (reg (args 1 0x106000 3) 2)) = 3" by (simp add: room_def)
  then obtain u where "sys_PipeWrite (args 1 0x106000 3) pipe_sample = Inr (Done (Some 3) u)"
    using write_eq [OF c, of "[0, 0, 0]"] pipe_sample_load by auto
  then have "pipe_wake 90 pipe_sample u" using c unfolding pipe_wake_def by blast
  with pipe_in_order [OF trace_refl this] show ?thesis by (auto simp: pipe_waiters_def)
qed

end
