(* ===== verification/Reclaim_Properties.thy ===== *)
theory Reclaim_Properties
  imports Cvar_Properties Pipe_Properties
begin

text \<open>
  Destroying objects: how many of the waiting processes are woken, and what the choice of
  ids means once an object has been reclaimed.
\<close>

text \<open>
  destroying a condition variable frees it and takes it out of the list, and returns 0;
  of the processes that wait on it only the first half (rounded up) become ready. The others
  are in no queue of the kernel any more.
\<close>

theorem destroy_cvar_wakes_half:
  assumes "cvar_ok s" and "c \<in> set (cvar_list s)" and "cvarid (the_cvar s c) = i" and "0 \<le> i"
  shows "\<exists>s'. destroy_cvar_info i s = Inr (0, s') \<and> cvars s' = (cvars s)(c := None) \<and>
           ready_queue s' = ready_queue s @ take ((length (cvar_waiters c s) + 1) div 2) (cvar_waiters c s) \<and>
           mset (cvar_list s) = add_mset c (mset (cvar_list s'))"
proof -
  from assms(1-3) obtain j where
    f: "find_obj (cvars s) (\<lambda>c. cvarid c = i) 1 (cvar_list s) = Inr (Some (j, c))"
    by (rule find_cvar)
  then obtain k x where k: "k < length (cvar_list s)" "cvar_list s ! k = c" "j = 1 + int k" "cvars s c = Some x"
    by (rule find_obj_Some)
  have rm: "klist_remove (cvar_list s) j = (Some c, take k (cvar_list s) @ drop (Suc k) (cvar_list s))"
    using k by (simp add: klist_remove_def in_range_def remove_at_def nat_add_distrib)
  have ok: "mem_ok s" using assms(1) by (simp add: cvar_ok_def)
  have w: "wake_loop 1 (cvar_wait_list x) s = (drop ((length (cvar_wait_list x) + 1) div 2) (cvar_wait_list x),
      s\<lparr>malloc_cnt := malloc_cnt s + length (take ((length (cvar_wait_list x) + 1) div 2) (cvar_wait_list x)),
        ready_queue := ready_queue s @ take ((length (cvar_wait_list x) + 1) div 2) (cvar_wait_list x)\<rparr>)"
    using wake_loop_half [OF ok, of 1 "cvar_wait_list x"] by simp
  have "mset (cvar_list s) = add_mset c (mset (take k (cvar_list s) @ drop (Suc k) (cvar_list s)))"
    using list_remove_mset [OF k(1)] k(2) by simp
  then show ?thesis
    using f k(4) rm w assms(4) by (simp add: destroy_cvar_info_def Let_def cvar_waiters_def the_cvar_def)
qed

theorem destroy_cvar_wakes_half_witness:
  "\<exists>s'. destroy_cvar_info 3 lock_sample = Inr (0, s') \<and> ready_queue s' = [20, 30] \<and> cvar_list s' = []"
  using destroy_cvar_wakes_half [OF lock_sample_cvar_ok, of 80 3]
  by (auto simp: cvar_waiters_def the_cvar_def)

text \<open>
  LockInit takes as id the length of the list of reclaimable objects plus one. So if
  some lock already has that id, which happens as soon as an older object has been
  reclaimed, the new lock gets the same id.
\<close>

theorem lock_ids_collide:
  assumes "mem_ok s" and "l \<in> set (lock_list s)" and "locks s l \<noteq> None" and "l < malloc_cnt s"
    and "lockid (the_lock s l) = int (length (reclaim_list s)) + 1"
    and "user_store (reg uc 0) (int_bytes (int (length (reclaim_list s)) + 1)) s = Inr s1"
  shows "\<exists>s' l'. sys_LockInit uc s = Inr (Done (Some 0) s') \<and> l' \<noteq> l \<and>
           l \<in> set (lock_list s') \<and> l' \<in> set (lock_list s') \<and>
           lockid (the_lock s' l') = lockid (the_lock s' l)"
proof -
  from assms(6) obtain q m where q: "deref_ptr (pcbs s) (active_proc s) = Inr q"
    "vm_store (pmem s) (u_page_table q) (reg uc 0) (int_bytes (int (length (reclaim_list s)) + 1)) = Inr m"
    by (auto simp: user_store_def)
  then have st: "user_store (reg uc 0) (int_bytes (int (length (reclaim_list s)) + 1)) t = Inr (t\<lparr>pmem := m\<rparr>)"
    if "pcbs t = pcbs s" "active_proc t = active_proc s" "pmem t = pmem s" for t
    using that by (simp add: user_store_def)
  show ?thesis
    using assms(1-5)
    by (intro exI [of _ "kres_state (projr (sys_LockInit uc s))"] exI [of _ "malloc_cnt s"])
      (auto simp: sys_LockInit_def malloc_def mem_ok_def Let_def st klist_append_eq the_lock_def)
qed

definition clash_sample :: kstate where
  "clash_sample = lock_sample\<lparr>reclaim_list := [95], reclaims := [95 \<mapsto> \<lparr>reclaim_id = 2, reclaim_type = 1\<rparr>],
     lock_list := [71]\<rparr>"

lemma clash_sample_fields [simp]:
  "mem_ok clash_sample" "lock_list clash_sample = [71]" "reclaim_list clash_sample = [95]"
  "locks clash_sample = locks lock_sample" "malloc_cnt clash_sample = 100"
  "active_proc clash_sample = Some 10" "pcbs clash_sample = pcbs sample"
  by (simp_all add: clash_sample_def mem_ok_def) (simp add: lock_sample_def)

theorem lock_ids_collide_witness:
  "\<exists>s' l'. sys_LockInit (args 0x106000 0 0) clash_sample = Inr (Done (Some 0) s') \<and> l' \<noteq> 71 \<and>
     lockid (the_lock s' l') = lockid (the_lock s' 71)"
proof -
  have "the_lock clash_sample 71 = the_lock lock_sample 71" by (simp add: the_lock_def)
  moreover have "locks lock_sample 71 \<noteq> None" by (simp add: lock_sample_def)
  moreover have "\<exists>s1. user_store 0x106000 (int_bytes 2) clash_sample = Inr s1"
    using sample_page by (simp add: user_store_def int_bytes_def upt_rec translate_def numeral_3_eq_3)
  ultimately obtain s' l' where "sys_LockInit (args 0x106000 0 0) clash_sample = Inr (Done (Some 0) s')"
    "l' \<noteq> 71" "lockid (the_lock s' l') = lockid (the_lock s' 71)"
    using lock_ids_collide [of clash_sample 71 "args 0x106000 0 0"] by auto
  then show ?thesis by blast
qed

end
