(* ===== verification/Processes.thy ===== *)
theory Processes
  imports Wait_Queues
begin

text \<open>Process creation and termination in syscall.c: Fork, Exit and Wait.\<close>

section \<open>Fork\<close>

text \<open>
  The loop over the parent's page table: the child's table, which is zeroed beforehand, and
  the copies of the pages. It stops with \<open>False\<close> when no frame is left; the entry it was
  working on is valid then, with frame 0.
\<close>

fun copy_pages :: "pte list \<Rightarrow> kstate \<Rightarrow> bool \<times> pte list \<times> kstate" where
  "copy_pages [] s = (True, [], s)"
| "copy_pages (e # es) s =
     (if valid e then
        (case grab_a_frame s of
           (f, s) \<Rightarrow>
             if f = 0 then
               (False, \<lparr>valid = True, prot = prot e, pfn = 0\<rparr> # replicate (length es) null_pte, s)
             else
               (case copy_pages es (copy_frame f (pfn e) s) of
                  (ok, t, s) \<Rightarrow> (ok, \<lparr>valid = True, prot = prot e, pfn = f\<rparr> # t, s)))
      else (case copy_pages es s of (ok, t, s) \<Rightarrow> (ok, null_pte # t, s)))"

definition sys_Fork :: "user_context \<Rightarrow> kstate \<Rightarrow> kres res" where
  "sys_Fork uc s =
     (case malloc s of
        (None, s) \<Rightarrow> Inr (Done (Some ERROR) s)
      | (Some c, s) \<Rightarrow>
          res_bind (deref_ptr (pcbs s) (active_proc s)) (\<lambda>me.
          let a = the (active_proc s);
              n = next_pid s;
              s = s\<lparr>pcbs := (pcbs s)(c \<mapsto> (fresh_pcb s c)\<lparr>state := READY, ppid := pid me, pid := n\<rparr>),
                    next_pid := n + 1\<rparr>
          in
          if n < 0 \<or> n \<ge> MAX_PROC then Inl OutOfBounds
          else
            let s = s\<lparr>pcb_table := (pcb_table s)(n := Some c)\<rparr> in
            (case klist_append (children me) n s of
               (_, ch, s) \<Rightarrow>
                 let s = set_pcb a (\<lambda>p. p\<lparr>children := ch\<rparr>) s;
                     s = set_pcb c (\<lambda>p. p\<lparr>children := []\<rparr>) s
                 in
                 (case malloc s of
                    (None, s) \<Rightarrow> Inr (Done (Some ERROR) s)
                  | (Some _, s) \<Rightarrow>
                      let s = set_pcb c (\<lambda>p. p\<lparr>uctxt := set_ret 0 uc\<rparr>) s in
                      res_bind (init_proc_kernel c s) (\<lambda>s.
                      case copy_pages (u_page_table me) s of
                        (ok, t, s) \<Rightarrow>
                          let s = set_pcb c (\<lambda>p. p\<lparr>u_page_table := t\<rparr>) s in
                          if \<not> ok then Inr (Done (Some ERROR) s)
                          else
                            let s = set_pcb c (\<lambda>p. p\<lparr>next_heap_pn := next_heap_pn me,
                                  next_stack_pn := next_stack_pn me\<rparr>) s
                            in Inr (Done (Some n) (snd (ready_insert c s))))))))"

section \<open>Exit\<close>

text \<open>The loop that clears the parent of every child.\<close>

fun orphan_children :: "int list \<Rightarrow> kstate \<Rightarrow> kstate res" where
  "orphan_children [] s = Inr s"
| "orphan_children (c # cs) s =
     res_bind (get_pcb c s) (\<lambda>a.
     res_bind (deref_ptr (pcbs s) a) (\<lambda>_.
       orphan_children cs (set_pcb (the a) (\<lambda>p. p\<lparr>ppid := -1\<rparr>) s)))"

text \<open>
  Report to the parent: an entry in the dead list, then out of the parent's list of
  children (the first occurrence of the pid).
\<close>

definition report_to_parent :: "pcb \<Rightarrow> int \<Rightarrow> kstate \<Rightarrow> (int \<times> kstate) res" where
  "report_to_parent me status s =
     (if ppid me \<noteq> -1 then
        (case insert_dead_list (ppid me) (pid me) status s of
           (rc, s) \<Rightarrow>
             if rc \<noteq> 0 then Inr (ERROR, s)
             else
               res_bind (get_pcb (ppid me) s) (\<lambda>b.
               res_bind (deref_ptr (pcbs s) b) (\<lambda>_.
                 Inr (0, set_pcb (the b) (\<lambda>p. p\<lparr>children := remove1 (pid me) (children p)\<rparr>) s))))
      else Inr (0, s))"

text \<open>Wake the parent if it is in the list of waiting processes.\<close>

definition wake_parent :: "int \<Rightarrow> kstate \<Rightarrow> (int \<times> kstate) res" where
  "wake_parent pp s =
     res_bind (find_obj (pcbs s) (\<lambda>w. pid w = pp) 1 (wait_list s)) (\<lambda>r.
     case r of
       None \<Rightarrow> Inr (0, s)
     | Some (j, w) \<Rightarrow>
         (case klist_remove (wait_list s) j of
            (None, _) \<Rightarrow> Inr (ERROR, s)
          | (Some q, wl) \<Rightarrow> Inr (0, snd (ready_insert q (s\<lparr>wait_list := wl\<rparr>)))))"

text \<open>The release of the frames of region 1 and of the kernel stack.\<close>

definition free_proc :: "addr \<Rightarrow> pcb \<Rightarrow> kstate \<Rightarrow> kstate" where
  "free_proc a me s =
     (case free_table (u_page_table me) s of
        (t, s) \<Rightarrow>
          (case free_table (k_stack_pt me) s of
             (t', s) \<Rightarrow> set_pcb a (\<lambda>p. p\<lparr>u_page_table := t, k_stack_pt := t'\<rparr>) s))"

definition sys_Exit :: "user_context \<Rightarrow> int \<Rightarrow> kstate \<Rightarrow> kres res" where
  "sys_Exit uc mode s =
     (let status = (if mode = 0 then sint (reg uc 0) else ERROR) in
      res_bind (deref_ptr (pcbs s) (active_proc s)) (\<lambda>me.
      let a = the (active_proc s) in
      res_bind (orphan_children (children me) s) (\<lambda>s.
      res_bind (report_to_parent me status s) (\<lambda>(rc, s).
      if rc \<noteq> 0 then Inr (Done (Some ERROR) s)
      else
        res_bind (wake_parent (ppid me) (free_proc a me s)) (\<lambda>(rc, s).
        if rc \<noteq> 0 then Inr (Done (Some ERROR) s)
        else Inr (Yield K_Exit (s\<lparr>active_proc := None\<rparr>)))))))"

section \<open>Wait\<close>

text \<open>
  The scan of the dead list, from position counter \<open>i\<close>: the status of the first dead child
  goes to the user, its record is freed, and the entry at the counter's position is
  removed. \<open>None\<close> when there is no dead child.
\<close>

definition reap :: "u32 \<Rightarrow> int \<Rightarrow> pcb \<Rightarrow> kstate \<Rightarrow> kres option res" where
  "reap status_ptr i me s =
     res_bind (find_obj (deads s) (\<lambda>d. pid me = dead_ppid d) i (dead_list s)) (\<lambda>r.
     case r of
       None \<Rightarrow> Inr None
     | Some (j, a) \<Rightarrow>
         res_bind (deref (deads s) a) (\<lambda>d.
         res_bind (user_store status_ptr (int_bytes (dead_status d)) s) (\<lambda>s.
           Inr (Some (Done (Some (dead_pid d))
             (s\<lparr>deads := (deads s)(a := None),
                dead_list := snd (klist_remove (dead_list s) j)\<rparr>))))))"

definition sys_Wait :: "user_context \<Rightarrow> kstate \<Rightarrow> kres res" where
  "sys_Wait uc s =
     res_bind (deref_ptr (pcbs s) (active_proc s)) (\<lambda>me.
     let status_ptr = reg uc 0 in
     if \<not> user_addr_ok status_ptr me then Inr (Done (Some ERROR) s)
     else
       res_bind (user_load status_ptr 4 s) (\<lambda>_.
       if children me = [] then Inr (Done (Some ERROR) s)
       else
         res_bind (reap status_ptr 1 me s) (\<lambda>r.
         case r of
           Some k \<Rightarrow> Inr k
         | None \<Rightarrow>
             (case klist_append (wait_list s) (the (active_proc s)) s of
                (_, wl, s) \<Rightarrow>
                  Inr (Yield (K_Wait status_ptr (int (length (dead_list s)) + 1))
                    (s\<lparr>wait_list := wl\<rparr>))))))"

text \<open>After normal_schedule the scan runs once more, with the counter left where it was.\<close>

definition wait_resume :: "u32 \<Rightarrow> int \<Rightarrow> kstate \<Rightarrow> kres res" where
  "wait_resume status_ptr i s =
     res_bind (deref_ptr (pcbs s) (active_proc s)) (\<lambda>me.
     res_bind (reap status_ptr i me s) (\<lambda>r.
     case r of Some k \<Rightarrow> Inr k | None \<Rightarrow> Inr (Done (Some ERROR) s)))"

end
