(* ===== verification/Process_Properties.thy ===== *)
theory Process_Properties
  imports User_Samples Effects Processes
begin

text \<open>Fork, Exit and Wait: the child's memory, the frames of a dead process, exit statuses.\<close>

section \<open>Copying an address space\<close>

text \<open>Table \<open>t\<close> in memory \<open>m\<close> is a copy of table \<open>es\<close> in memory \<open>m0\<close>.\<close>

definition copy_of :: "(nat \<Rightarrow> nat \<Rightarrow> byte) \<Rightarrow> pte list \<Rightarrow> (nat \<Rightarrow> nat \<Rightarrow> byte) \<Rightarrow> pte list \<Rightarrow> bool" where
  "copy_of m t m0 es \<longleftrightarrow> list_all2 (\<lambda>x e. valid x = valid e \<and>
     (valid e \<longrightarrow> prot x = prot e \<and> m (pfn x) = m0 (pfn e))) t es"

lemma copy_pages_ok:
  assumes "length (page_frames es) \<le> length ff" and "free_frames s = ff"
    and "0 \<notin> set (take (length (page_frames es)) ff)"
    and "distinct (take (length (page_frames es)) ff)"
    and "set (take (length (page_frames es)) ff) \<inter> set (page_frames es) = {}"
  shows "\<exists>t m. copy_pages es s = (True, t, s\<lparr>free_frames := drop (length (page_frames es)) ff, pmem := m\<rparr>) \<and>
           page_frames t = take (length (page_frames es)) ff \<and> copy_of m t (pmem s) es \<and>
           (\<forall>f. f \<notin> set (take (length (page_frames es)) ff) \<longrightarrow> m f = pmem s f)"
  using assms
proof (induction es arbitrary: s ff)
  case Nil
  then show ?case by (intro exI [of _ "[]"] exI [of _ "pmem s"]) (simp add: copy_of_def)
next
  case (Cons e es)
  show ?case
  proof (cases "valid e")
    case True
    with Cons.prems(1) obtain f fs where ff: "ff = f # fs" by (cases ff) auto
    define s1 where "s1 = copy_frame f (pfn e) (s\<lparr>free_frames := fs\<rparr>)"
    let ?n = "length (page_frames es)"
    have f: "f \<noteq> 0" "f \<notin> set (take ?n fs)" "f \<notin> set (page_frames es)" "pfn e \<noteq> f"
      using Cons.prems True ff by auto
    have "\<exists>t m. copy_pages es s1 = (True, t, s1\<lparr>free_frames := drop ?n fs, pmem := m\<rparr>) \<and>
           page_frames t = take ?n fs \<and> copy_of m t (pmem s1) es \<and>
           (\<forall>f. f \<notin> set (take ?n fs) \<longrightarrow> m f = pmem s1 f)"
      using Cons.prems True ff by (intro Cons.IH) (auto simp: s1_def copy_frame_def)
    then obtain t m where t: "copy_pages es s1 = (True, t, s1\<lparr>free_frames := drop ?n fs, pmem := m\<rparr>)"
      "page_frames t = take ?n fs" "copy_of m t (pmem s1) es" "\<forall>f. f \<notin> set (take ?n fs) \<longrightarrow> m f = pmem s1 f"
      by blast
    have pm: "pmem s1 = (pmem s)(f := pmem s (pfn e))" by (simp add: s1_def copy_frame_def)
    have "copy_of m t (pmem s) es"
      using t(3) f(3) pm unfolding copy_of_def page_frames_def
      by (elim list.rel_mono_strong) auto
    moreover have "m f = pmem s (pfn e)" using t(4) f(2) pm by simp
    ultimately have "copy_of m (\<lparr>valid = True, prot = prot e, pfn = f\<rparr> # t) (pmem s) (e # es)"
      using True by (simp add: copy_of_def)
    then show ?thesis
      using True ff f t pm Cons.prems(2)
      by (intro exI [of _ "\<lparr>valid = True, prot = prot e, pfn = f\<rparr> # t"] exI [of _ m])
        (auto simp: grab_a_frame_def s1_def copy_frame_def)
  next
    case False
    with Cons.IH [of ff s] Cons.prems obtain t m where
      t: "copy_pages es s = (True, t, s\<lparr>free_frames := drop (length (page_frames es)) ff, pmem := m\<rparr>)"
      "page_frames t = take (length (page_frames es)) ff" "copy_of m t (pmem s) es"
      "\<forall>f. f \<notin> set (take (length (page_frames es)) ff) \<longrightarrow> m f = pmem s f"
      by auto
    then show ?thesis using False
      by (intro exI [of _ "null_pte # t"] exI [of _ m]) (auto simp: copy_of_def)
  qed
qed

lemma init_proc_kernel_ok:
  assumes "free_frames s = f0 # f1 # fs" and "f0 \<noteq> 0" and "f1 \<noteq> 0"
    and "pcbs s c = Some p" and "length (k_stack_pt p) = 2"
  shows "\<exists>m. init_proc_kernel c s = Inr (s\<lparr>pcbs := (pcbs s)(c \<mapsto>
             p\<lparr>kctxt := initial_kc s, k_stack_pt := [fresh_entry f0, fresh_entry f1]\<rparr>),
           free_frames := fs, pmem := m\<rparr>) \<and> (\<forall>f. f \<noteq> f0 \<and> f \<noteq> f1 \<longrightarrow> m f = pmem s f)"
proof -
  from assms(5) obtain e0 e1 where k: "k_stack_pt p = [e0, e1]"
    by (metis (no_types, opaque_lifting) length_0_conv length_Suc_conv numeral_2_eq_2)
  let ?m = "(pmem s)(f0 := pmem s (pfn (initial_ks s ! 0)))"
  have "init_proc_kernel c s = Inr (s\<lparr>pcbs := (pcbs s)(c \<mapsto>
             p\<lparr>kctxt := initial_kc s, k_stack_pt := [fresh_entry f0, fresh_entry f1]\<rparr>),
           free_frames := fs, pmem := ?m(f1 := ?m (pfn (initial_ks s ! 1)))\<rparr>)"
    using assms k
    by (simp add: init_proc_kernel_def set_pcb_def grab_a_frame_def copy_frame_def Let_def)
  then show ?thesis by auto
qed


lemma distinct_nonzero: "0 \<notin> set xs \<Longrightarrow> (\<And>f. f \<in># nonzero xs \<Longrightarrow> count (nonzero xs) f = 1) \<Longrightarrow> distinct xs"
proof -
  assume nz: "0 \<notin> set xs" and one: "\<And>f. f \<in># nonzero xs \<Longrightarrow> count (nonzero xs) f = 1"
  have "nonzero xs = mset xs" using nz by (induction xs) auto
  with one show "distinct xs" by (simp add: distinct_count_atmost_1 count_eq_zero_iff)
qed

lemma free_frames_distinct: "isolated (frames_of s) \<Longrightarrow> 0 \<notin> set (free_frames s) \<Longrightarrow> distinct (free_frames s)"
proof (rule distinct_nonzero)
  fix f assume "isolated (frames_of s)" "f \<in># nonzero (free_frames s)"
  then show "count (nonzero (free_frames s)) f = 1"
    unfolding isolated_def by (metis frames_of.simps(1))
qed

lemma free_not_mapped:
  assumes "isolated (frames_of s)" and "0 \<notin> set (free_frames s)" and "pcbs s a = Some p"
  shows "set (free_frames s) \<inter> set (page_frames (u_page_table p)) = {}"
proof (rule ccontr)
  assume "\<not> ?thesis"
  then obtain f where f: "f \<in> set (free_frames s)" "f \<in> set (page_frames (u_page_table p))" by auto
  then have "f \<noteq> 0" using assms(2) by metis
  then have "f \<in># frames_of s Free" "f \<in># frames_of s (Proc a)"
    using f assms(3) by (auto simp: nonzero_def used_def page_frames_def)
  then show False using assms(1) unfolding isolated_def by blast
qed

section \<open>Fork\<close>

text \<open>
  Enough frames for the child's kernel stack and a copy of every page, and a pid to give.
\<close>

definition can_fork :: "addr \<Rightarrow> pcb \<Rightarrow> kstate \<Rightarrow> bool" where
  "can_fork a p s \<longleftrightarrow> mem_ok s \<and> active_proc s = Some a \<and> pcbs s a = Some p \<and> a \<noteq> malloc_cnt s \<and>
     isolated (frames_of s) \<and> 0 \<notin> set (free_frames s) \<and>
     length (page_frames (u_page_table p)) + 2 \<le> length (free_frames s) \<and>
     0 \<le> next_pid s \<and> next_pid s < MAX_PROC \<and> length (k_stack_pt (fresh_pcb s (malloc_cnt s))) = 2"

lemma fork_eq:
  assumes "can_fork a p s"
  shows "\<exists>s' t m k. sys_Fork uc s = Inr (Done (Some (next_pid s)) s') \<and>
           pcbs s' = (pcbs s)(a \<mapsto> p\<lparr>children := children p @ [next_pid s]\<rparr>,
             malloc_cnt s \<mapsto> (fresh_pcb s (malloc_cnt s))\<lparr>state := READY, ppid := pid p, pid := next_pid s,
               children := [], uctxt := set_ret 0 uc, kctxt := initial_kc s, k_stack_pt := k, u_page_table := t,
               next_heap_pn := next_heap_pn p, next_stack_pn := next_stack_pn p\<rparr>) \<and>
           pcb_table s' = (pcb_table s)(next_pid s := Some (malloc_cnt s)) \<and>
           next_pid s' = next_pid s + 1 \<and> ready_queue s' = ready_queue s @ [malloc_cnt s] \<and>
           pmem s' = m \<and> copy_of m t (pmem s) (u_page_table p) \<and>
           set (page_frames t) \<subseteq> set (free_frames s) \<and>
           (\<forall>f. f \<notin> set (free_frames s) \<longrightarrow> m f = pmem s f)"
proof -
  let ?c = "malloc_cnt s" and ?es = "u_page_table p"
  from assms have ok: "mem_ok s" and a: "active_proc s = Some a" "pcbs s a = Some p" "a \<noteq> ?c"
    and iso: "isolated (frames_of s)" "0 \<notin> set (free_frames s)"
    and n: "0 \<le> next_pid s" "next_pid s < MAX_PROC" and k2: "length (k_stack_pt (fresh_pcb s ?c)) = 2"
    by (auto simp: can_fork_def)
  from assms obtain f0 f1 fs where ff: "free_frames s = f0 # f1 # fs" and len: "length (page_frames ?es) \<le> length fs"
    by (cases "free_frames s"; cases "tl (free_frames s)") (auto simp: can_fork_def)
  let ?q = "(fresh_pcb s ?c)\<lparr>state := READY, ppid := pid p, pid := next_pid s, children := [], uctxt := set_ret 0 uc\<rparr>"
  let ?s1 = "s\<lparr>next_pid := next_pid s + 1, pcb_table := (pcb_table s)(next_pid s \<mapsto> ?c),
    malloc_cnt := Suc (Suc (Suc ?c)),
    pcbs := (pcbs s)(a \<mapsto> p\<lparr>children := children p @ [next_pid s]\<rparr>, ?c \<mapsto> ?q)\<rparr>"
  have nz: "f0 \<noteq> 0" "f1 \<noteq> 0" "0 \<notin> set fs" using iso(2) ff by auto
  have "free_frames ?s1 = f0 # f1 # fs" "pcbs ?s1 ?c = Some ?q" "length (k_stack_pt ?q) = 2"
    using ff a(3) k2 by simp_all
  from init_proc_kernel_ok [OF this(1) nz(1,2) this(2,3)] obtain m1 where
    init: "init_proc_kernel ?c ?s1 = Inr (?s1\<lparr>pcbs := (pcbs ?s1)(?c \<mapsto>
             ?q\<lparr>kctxt := initial_kc ?s1, k_stack_pt := [fresh_entry f0, fresh_entry f1]\<rparr>),
           free_frames := fs, pmem := m1\<rparr>)" (is "_ = Inr ?s2")
    and m1: "\<forall>f. f \<noteq> f0 \<and> f \<noteq> f1 \<longrightarrow> m1 f = pmem ?s1 f"
    by blast
  have dis: "distinct (f0 # f1 # fs)" "set (f0 # f1 # fs) \<inter> set (page_frames ?es) = {}"
    using free_frames_distinct [OF iso] free_not_mapped [OF iso a(2)] ff by simp_all
  have "\<exists>t m. copy_pages ?es ?s2 = (True, t, ?s2\<lparr>free_frames := drop (length (page_frames ?es)) fs, pmem := m\<rparr>) \<and>
           page_frames t = take (length (page_frames ?es)) fs \<and> copy_of m t (pmem ?s2) ?es \<and>
           (\<forall>f. f \<notin> set (take (length (page_frames ?es)) fs) \<longrightarrow> m f = pmem ?s2 f)"
    using len nz(3) dis by (intro copy_pages_ok) (auto dest: in_set_takeD)
  then obtain t m where
    cp: "copy_pages ?es ?s2 = (True, t, ?s2\<lparr>free_frames := drop (length (page_frames ?es)) fs, pmem := m\<rparr>)"
    and t: "page_frames t = take (length (page_frames ?es)) fs" and cpo: "copy_of m t (pmem ?s2) ?es"
    and m: "\<forall>f. f \<notin> set (take (length (page_frames ?es)) fs) \<longrightarrow> m f = pmem ?s2 f"
    by blast
  have cpy: "copy_of m t (pmem s) ?es"
    using cpo m1 dis(2) unfolding copy_of_def page_frames_def by (elim list.rel_mono_strong) force
  have frm: "\<forall>f. f \<notin> set (free_frames s) \<longrightarrow> m f = pmem s f"
    using m m1 ff by (auto dest: in_set_takeD)
  have sub: "set (page_frames t) \<subseteq> set (free_frames s)" using t ff by (auto dest: in_set_takeD)
  have fork: "sys_Fork uc s = res_bind (init_proc_kernel ?c ?s1) (\<lambda>s.
      case copy_pages ?es s of (ok, t, s) \<Rightarrow>
        let s = set_pcb ?c (\<lambda>p. p\<lparr>u_page_table := t\<rparr>) s in
        if \<not> ok then Inr (Done (Some ERROR) s)
        else
          let s = set_pcb ?c (\<lambda>q. q\<lparr>next_heap_pn := next_heap_pn p, next_stack_pn := next_stack_pn p\<rparr>) s
          in Inr (Done (Some (next_pid s0)) (snd (ready_insert ?c s))))" if "s0 = s" for s0
    using ok a n that
    by (simp add: sys_Fork_def malloc_def mem_ok_def Let_def klist_append_eq set_pcb_def cong: if_cong)
  have "\<exists>s'. sys_Fork uc s = Inr (Done (Some (next_pid s)) s') \<and>
           pcbs s' = (pcbs s)(a \<mapsto> p\<lparr>children := children p @ [next_pid s]\<rparr>,
             ?c \<mapsto> ?q\<lparr>kctxt := initial_kc s, k_stack_pt := [fresh_entry f0, fresh_entry f1], u_page_table := t,
               next_heap_pn := next_heap_pn p, next_stack_pn := next_stack_pn p\<rparr>) \<and>
           pcb_table s' = (pcb_table s)(next_pid s \<mapsto> ?c) \<and> next_pid s' = next_pid s + 1 \<and>
           ready_queue s' = ready_queue s @ [?c] \<and> pmem s' = m"
    using ok a unfolding fork [OF refl] init res_bind_simps cp by (simp add: mem_ok_def Let_def set_pcb_def ready_insert_eq)
  then show ?thesis
    using cpy frm sub
    by (elim exE conjE) (rule exI, rule exI [of _ t], rule exI [of _ m],
      rule exI [of _ "[fresh_entry f0, fresh_entry f1]"], intro conjI, assumption+)
qed

text \<open>Reading through a copy of a table gives the same bytes.\<close>

lemma translate_copy:
  assumes c: "copy_of m t m0 es"
  shows "(\<exists>e. translate t need a = Inl e \<and> translate es need a = Inl e) \<or>
     (\<exists>f f0 i. translate t need a = Inr (f, i) \<and> translate es need a = Inr (f0, i) \<and> m f = m0 f0)"
proof -
  let ?i = "(unat a - 0x100000) div PAGESIZE"
  have len: "length t = length es" using c by (simp add: copy_of_def list_all2_lengthD)
  have "valid (t ! ?i) = valid (es ! ?i) \<and> (valid (es ! ?i) \<longrightarrow> prot (t ! ?i) = prot (es ! ?i) \<and>
      m (pfn (t ! ?i)) = m0 (pfn (es ! ?i)))" if "?i < length es"
    using c that by (auto simp: copy_of_def list_all2_conv_all_nth)
  then show ?thesis using len by (auto simp: translate_def Let_def)
qed

lemma vm_load_copy: "copy_of m t m0 es \<Longrightarrow> vm_load m t a n = vm_load m0 es a n"
proof (induction n arbitrary: a)
  case (Suc n)
  from translate_copy [OF Suc.prems, of PROT_READ a] Suc.IH [OF Suc.prems, of "a + 1"] show ?case
    by (auto simp del: PROT_READ_def)
qed simp

text \<open>A memory that agrees on the frames a table maps is the same memory for that table.\<close>

lemma copy_of_self: "(\<And>f. f \<in> set (page_frames es) \<Longrightarrow> m f = m0 f) \<Longrightarrow> copy_of m es m0 es"
  by (auto simp: copy_of_def page_frames_def list_all2_conv_all_nth)

text \<open>
C6: Fork, with enough free frames, a malloc that does not fail and a pid left (below 1000), returns the new pid to the parent and makes a child ready
that has its own copy of the parent's memory: every read of any range through the child's page
table gives what the same read gave the parent before the call, and the parent, like every
process whose frames were not free, still reads what it read before. The child's user context
is the parent's with 0 in register 0, it is a child of the parent, it has no children.
\<close>

theorem fork_copies_memory:
  assumes "can_fork a p s"
  shows "\<exists>s' c q. sys_Fork uc s = Inr (Done (Some (next_pid s)) s') \<and> c = malloc_cnt s \<and> pcbs s' c = Some q \<and>
     pid q = next_pid s \<and> ppid q = pid p \<and> children q = [] \<and> state q = READY \<and> uctxt q = set_ret 0 uc \<and>
     pcbs s' a = Some (p\<lparr>children := children p @ [next_pid s]\<rparr>) \<and>
     ready_queue s' = ready_queue s @ [c] \<and> pcb_table s' (next_pid s) = Some c \<and>
     (\<forall>v n. vm_load (pmem s') (u_page_table q) v n = vm_load (pmem s) (u_page_table p) v n) \<and>
     (\<forall>t v n. set (page_frames t) \<inter> set (free_frames s) = {} \<longrightarrow>
        vm_load (pmem s') t v n = vm_load (pmem s) t v n) \<and>
     set (page_frames (u_page_table p)) \<inter> set (free_frames s) = {} \<and>
     set (page_frames (u_page_table q)) \<subseteq> set (free_frames s)"
proof -
  let ?c = "malloc_cnt s"
  from fork_eq [OF assms, of uc] obtain s' t m k where f: "sys_Fork uc s = Inr (Done (Some (next_pid s)) s')"
    "pcbs s' = (pcbs s)(a \<mapsto> p\<lparr>children := children p @ [next_pid s]\<rparr>,
             ?c \<mapsto> (fresh_pcb s ?c)\<lparr>state := READY, ppid := pid p, pid := next_pid s,
               children := [], uctxt := set_ret 0 uc, kctxt := initial_kc s, k_stack_pt := k, u_page_table := t,
               next_heap_pn := next_heap_pn p, next_stack_pn := next_stack_pn p\<rparr>)"
    "pcb_table s' = (pcb_table s)(next_pid s := Some ?c)" "ready_queue s' = ready_queue s @ [?c]"
    "pmem s' = m" "copy_of m t (pmem s) (u_page_table p)" "set (page_frames t) \<subseteq> set (free_frames s)"
    "\<forall>f. f \<notin> set (free_frames s) \<longrightarrow> m f = pmem s f"
    by blast
  from assms have a: "pcbs s a = Some p" "isolated (frames_of s)" "0 \<notin> set (free_frames s)" "a \<noteq> ?c"
    by (auto simp: can_fork_def)
  have "vm_load m t' v n = vm_load (pmem s) t' v n" if "set (page_frames t') \<inter> set (free_frames s) = {}" for t' v n
    using f(8) that by (intro vm_load_copy copy_of_self) auto
  then show ?thesis using f vm_load_copy [OF f(6)] free_not_mapped [OF a(2,3,1)] a(4) by auto
qed

lemma sample_can_fork: "can_fork 10 ((sample_pcb 0 200)\<lparr>u_page_table := sample_table\<rparr>) sample"
proof -
  have "length (page_frames sample_table) = 1"
    by (simp add: page_frames_def sample_table_def numeral_eq_Suc)
  then show ?thesis using sample_isolated by (simp add: can_fork_def) (simp add: sample_def sample_pcb_def)
qed

theorem fork_copies_memory_witness:
  "\<exists>s' q. sys_Fork (args 0 0 0) sample = Inr (Done (Some 3) s') \<and> pcbs s' 100 = Some q \<and>
     vm_load (pmem s') (u_page_table q) 0x106000 4 = vm_load (pmem sample) sample_table 0x106000 4"
proof -
  let ?p = "(sample_pcb 0 200)\<lparr>u_page_table := sample_table\<rparr>"
  from fork_copies_memory [OF sample_can_fork, of "args 0 0 0"] show ?thesis by auto
qed

section \<open>Exit\<close>

definition has_pcb :: "kstate \<Rightarrow> int \<Rightarrow> bool" where
  "has_pcb s i \<longleftrightarrow> 0 \<le> i \<and> i < MAX_PROC \<and> (\<exists>b q. pcb_table s i = Some b \<and> pcbs s b = Some q)"

text \<open>The children's pcbs after the first loop.\<close>

definition orphaned :: "int list \<Rightarrow> kstate \<Rightarrow> addr \<Rightarrow> pcb option" where
  "orphaned cs s x = (if \<exists>c\<in>set cs. pcb_table s c = Some x then map_option (\<lambda>p. p\<lparr>ppid := -1\<rparr>) (pcbs s x) else pcbs s x)"

lemma orphan_children_ok:
  "\<forall>c\<in>set cs. has_pcb s c \<Longrightarrow> orphan_children cs s = Inr (s\<lparr>pcbs := orphaned cs s\<rparr>)"
proof (induction cs arbitrary: s)
  case Nil
  have "orphaned [] s = pcbs s" by (simp add: orphaned_def fun_eq_iff)
  then show ?case by simp
next
  case (Cons c cs)
  then obtain b q where b: "0 \<le> c" "c < MAX_PROC" "pcb_table s c = Some b" "pcbs s b = Some q" by (auto simp: has_pcb_def)
  let ?s = "set_pcb b (\<lambda>p. p\<lparr>ppid := -1\<rparr>) s"
  have "has_pcb s x \<Longrightarrow> has_pcb ?s x" for x
    by (auto simp: has_pcb_def set_pcb_def intro: exI [of _ "the (pcb_table s x)"])
  then have "\<forall>c\<in>set cs. has_pcb ?s c" using Cons.prems by simp
  from Cons.IH [OF this] have "orphan_children cs ?s = Inr (?s\<lparr>pcbs := orphaned cs ?s\<rparr>)" .
  moreover have "orphaned cs ?s = orphaned (c # cs) s"
    using b by (auto simp: orphaned_def set_pcb_def fun_eq_iff option.map_comp o_def)
  ultimately show ?case using b by (simp add: get_pcb_def set_pcb_def)
qed

lemma orphaned_Some: "pcbs s x = Some q \<Longrightarrow> \<exists>q'. orphaned cs s x = Some q'"
  by (simp add: orphaned_def split: if_splits)

lemma wake_parent_ok:
  assumes ok: "mem_ok s" and lv: "live (pcbs s) (wait_list s)"
  obtains (woken) xs w ys q where "wait_list s = xs @ w # ys" and "pcbs s w = Some q" and "pid q = pp"
      and "\<forall>x\<in>set xs. map_option pid (pcbs s x) \<noteq> Some pp"
      and "wake_parent pp s = Inr (0, s\<lparr>malloc_cnt := Suc (malloc_cnt s), wait_list := xs @ ys,
             ready_queue := ready_queue s @ [w]\<rparr>)"
    | (nobody) "\<forall>x\<in>set (wait_list s). map_option pid (pcbs s x) \<noteq> Some pp" and "wake_parent pp s = Inr (0, s)"
proof -
  let ?f = "find_obj (pcbs s) (\<lambda>w. pid w = pp) 1 (wait_list s)"
  from find_obj_total [OF lv, of "\<lambda>w. pid w = pp" 1] consider (no) "?f = Inr None" | (yes) j w where "?f = Inr (Some (j, w))"
    by blast
  then show thesis
  proof cases
    case no
    then have "\<forall>x\<in>set (wait_list s). map_option pid (pcbs s x) \<noteq> Some pp" by (auto simp: find_obj_None)
    with no nobody show ?thesis by (simp add: wake_parent_def)
  next
    case yes
    then obtain xs ys q where f: "wait_list s = xs @ w # ys" "j = 1 + int (length xs)" "pcbs s w = Some q" "pid q = pp"
      "\<forall>c\<in>set xs. \<exists>y. pcbs s c = Some y \<and> pid y \<noteq> pp" by (rule find_obj_first)
    have "wake_parent pp s = Inr (0, s\<lparr>malloc_cnt := Suc (malloc_cnt s), wait_list := xs @ ys,
             ready_queue := ready_queue s @ [w]\<rparr>)"
      using yes f(1,2) ok klist_remove_mid [of xs w ys] by (simp add: wake_parent_def ready_insert_eq mem_ok_def)
    moreover have "\<forall>x\<in>set xs. map_option pid (pcbs s x) \<noteq> Some pp" using f(5) by auto
    ultimately show ?thesis using woken f(1,3,4) by blast
  qed
qed

text \<open>The process that exits and the processes it refers to exist.\<close>

definition family_exists :: "addr \<Rightarrow> pcb \<Rightarrow> kstate \<Rightarrow> bool" where
  "family_exists a p s \<longleftrightarrow> active_proc s = Some a \<and> pcbs s a = Some p \<and>
     (\<forall>c\<in>set (children p). has_pcb s c) \<and> (ppid p \<noteq> -1 \<longrightarrow> has_pcb s (ppid p)) \<and> live (pcbs s) (wait_list s)"

definition can_exit :: "addr \<Rightarrow> pcb \<Rightarrow> kstate \<Rightarrow> bool" where
  "can_exit a p s \<longleftrightarrow> mem_ok s \<and> family_exists a p s"

lemma family_can_exitI: "family_exists a p s \<Longrightarrow> malloc_fails s = (\<lambda>_. False) \<Longrightarrow> can_exit a p s"
  by (simp add: can_exit_def mem_ok_def)

text \<open>The pcbs after the report to the parent.\<close>

definition reported :: "pcb \<Rightarrow> kstate \<Rightarrow> addr \<Rightarrow> pcb option" where
  "reported p s x =
     (if ppid p \<noteq> -1 \<and> pcb_table s (ppid p) = Some x
      then map_option (\<lambda>q. q\<lparr>children := remove1 (pid p) (children q)\<rparr>) (orphaned (children p) s x)
      else orphaned (children p) s x)"

lemma reported_simps:
  "map_option pid (reported p s x) = map_option pid (pcbs s x)"
  "map_option u_page_table (reported p s x) = map_option u_page_table (pcbs s x)"
  "map_option k_stack_pt (reported p s x) = map_option k_stack_pt (pcbs s x)"
  by (cases "pcbs s x"; simp add: reported_def orphaned_def)+

lemma reported_Some: "pcbs s x = Some q \<Longrightarrow> \<exists>q'. reported p s x = Some q'"
  using reported_simps(1) [of p s x] by auto

lemma report_ok:
  assumes "can_exit a p s"
  shows "\<exists>n. report_to_parent p st (s\<lparr>pcbs := orphaned (children p) s\<rparr>) = Inr (0, s\<lparr>malloc_cnt := n, pcbs := reported p s,
     dead_list := (if ppid p = -1 then dead_list s else dead_list s @ [malloc_cnt s]),
     deads := (if ppid p = -1 then deads s
       else (deads s)(malloc_cnt s \<mapsto> \<lparr>dead_ppid = ppid p, dead_pid = pid p, dead_status = st\<rparr>))\<rparr>)"
proof (cases "ppid p = -1")
  case True
  then have "reported p s = orphaned (children p) s" by (simp add: reported_def fun_eq_iff)
  with True show ?thesis by (intro exI [of _ "malloc_cnt s"]) (simp add: report_to_parent_def)
next
  case False
  with assms obtain b q where b: "0 \<le> ppid p" "ppid p < MAX_PROC" "pcb_table s (ppid p) = Some b" "pcbs s b = Some q"
    by (auto simp: can_exit_def family_exists_def has_pcb_def)
  have ok: "malloc_fails s = (\<lambda>_. False)" using assms by (simp add: can_exit_def family_exists_def mem_ok_def)
  from orphaned_Some [OF b(4)] obtain q' where q': "orphaned (children p) s b = Some q'" by blast
  have r: "reported p s = (orphaned (children p) s)(b \<mapsto> q'\<lparr>children := remove1 (pid p) (children q')\<rparr>)"
    using False b q' by (auto simp: reported_def fun_eq_iff)
  show ?thesis using False b q' ok unfolding r
    by (intro exI [of _ "Suc (Suc (malloc_cnt s))"])
      (simp add: report_to_parent_def insert_dead_list_def malloc_def klist_append_eq get_pcb_def set_pcb_def Let_def)
qed

text \<open>The state after the report and the release of the frames.\<close>

definition exited :: "addr \<Rightarrow> pcb \<Rightarrow> pcb \<Rightarrow> int \<Rightarrow> nat \<Rightarrow> kstate \<Rightarrow> kstate" where
  "exited a p q st n s = s\<lparr>malloc_cnt := n,
     dead_list := (if ppid p = -1 then dead_list s else dead_list s @ [malloc_cnt s]),
     deads := (if ppid p = -1 then deads s
       else (deads s)(malloc_cnt s \<mapsto> \<lparr>dead_ppid = ppid p, dead_pid = pid p, dead_status = st\<rparr>)),
     free_frames := rev (page_frames (k_stack_pt p)) @ rev (page_frames (u_page_table p)) @ free_frames s,
     pcbs := (reported p s)(a \<mapsto> q\<lparr>u_page_table := map invalidate (u_page_table p), k_stack_pt := map invalidate (k_stack_pt p)\<rparr>)\<rparr>"

lemma exit_eq:
  assumes ex: "can_exit a p s"
  obtains n q where "reported p s a = Some q"
    and "sys_Exit uc mode s =
      res_bind (wake_parent (ppid p) (exited a p q (if mode = 0 then sint (reg uc 0) else ERROR) n s)) (\<lambda>(rc, s).
        if rc \<noteq> 0 then Inr (Done (Some ERROR) s) else Inr (Yield K_Exit (s\<lparr>active_proc := None\<rparr>)))"
proof -
  let ?st = "if mode = 0 then sint (reg uc 0) else ERROR"
  have a: "mem_ok s" "active_proc s = Some a" "pcbs s a = Some p" "\<forall>c\<in>set (children p). has_pcb s c"
    using ex by (simp_all add: can_exit_def family_exists_def)
  from reported_Some [OF a(3)] obtain q where q: "reported p s a = Some q" by blast
  from report_ok [OF ex, of ?st] obtain n where r: "report_to_parent p ?st (s\<lparr>pcbs := orphaned (children p) s\<rparr>) =
     Inr (0, s\<lparr>malloc_cnt := n, pcbs := reported p s,
     dead_list := (if ppid p = -1 then dead_list s else dead_list s @ [malloc_cnt s]),
     deads := (if ppid p = -1 then deads s
       else (deads s)(malloc_cnt s \<mapsto> \<lparr>dead_ppid = ppid p, dead_pid = pid p, dead_status = ?st\<rparr>))\<rparr>)" (is "_ = Inr (0, ?s2)")
    by blast
  let ?n = "n + length (filter valid (u_page_table p)) + length (filter valid (k_stack_pt p))"
  have "mem_ok ?s2" using a(1) by (simp add: mem_ok_def)
  then have f: "free_proc a p ?s2 = exited a p q ?st ?n s"
    using q by (simp add: free_proc_def free_table_ok mem_ok_def set_pcb_def page_frames_def exited_def)
  show thesis
    by (rule that [OF q]) (unfold sys_Exit_def a(2) deref_ptr_simps Let_def, use a(3) in
      \<open>simp only: deref_Some res_bind_simps orphan_children_ok [OF a(4)] r prod.case option.sel f, simp\<close>)
qed

lemma page_frames_invalid: "page_frames (map invalidate t) = []"
  by (induction t) (simp_all add: invalidate_def)

text \<open>Without memory for the record of the exit.\<close>

lemma exit_no_memory:
  assumes "family_exists a p s" and "ppid p \<noteq> -1" and "malloc_fails s (malloc_cnt s) \<or> malloc_fails s (Suc (malloc_cnt s))"
  shows "\<exists>s'. sys_Exit uc mode s = Inr (Done (Some ERROR) s') \<and> active_proc s' = Some a \<and>
     pcbs s' = orphaned (children p) s \<and> free_frames s' = free_frames s \<and> dead_list s' = dead_list s \<and>
     wait_list s' = wait_list s \<and> ready_queue s' = ready_queue s"
proof -
  have a: "active_proc s = Some a" "pcbs s a = Some p" "\<forall>c\<in>set (children p). has_pcb s c"
    using assms(1) by (simp_all add: family_exists_def)
  show ?thesis
    using assms(2,3) a orphan_children_ok [OF a(3)]
    by (auto simp: sys_Exit_def report_to_parent_def insert_dead_list_def malloc_def klist_append_eq Let_def)
qed

text \<open>The exit itself, when no allocation fails.\<close>

lemma exit_leaves_nothing:
  assumes "can_exit a p s"
  shows "\<exists>s' q. sys_Exit uc mode s = Inr (Yield K_Exit s') \<and> active_proc s' = None \<and>
     free_frames s' = rev (page_frames (k_stack_pt p)) @ rev (page_frames (u_page_table p)) @ free_frames s \<and>
     pcbs s' a = Some q \<and> page_frames (u_page_table q) = [] \<and> page_frames (k_stack_pt q) = [] \<and>
     (\<forall>x. x \<noteq> a \<longrightarrow> pcbs s' x = reported p s x) \<and>
     dead_list s' = (if ppid p = -1 then dead_list s else dead_list s @ [malloc_cnt s]) \<and>
     deads s' = (if ppid p = -1 then deads s else (deads s)(malloc_cnt s \<mapsto>
       \<lparr>dead_ppid = ppid p, dead_pid = pid p, dead_status = (if mode = 0 then sint (reg uc 0) else ERROR)\<rparr>)) \<and>
     ((\<exists>xs w ys. wait_list s = xs @ w # ys \<and> map_option pid (pcbs s w) = Some (ppid p) \<and>
        (\<forall>x\<in>set xs. map_option pid (pcbs s x) \<noteq> Some (ppid p)) \<and>
        wait_list s' = xs @ ys \<and> ready_queue s' = ready_queue s @ [w]) \<or>
      (\<forall>x\<in>set (wait_list s). map_option pid (pcbs s x) \<noteq> Some (ppid p)) \<and>
        wait_list s' = wait_list s \<and> ready_queue s' = ready_queue s)"
proof -
  let ?st = "if mode = 0 then sint (reg uc 0) else ERROR"
  have a: "mem_ok s" "live (pcbs s) (wait_list s)" using assms by (simp_all add: can_exit_def family_exists_def)
  from assms obtain n q where q: "reported p s a = Some q"
    and run: "sys_Exit uc mode s = res_bind (wake_parent (ppid p) (exited a p q ?st n s)) (\<lambda>(rc, s).
        if rc \<noteq> 0 then Inr (Done (Some ERROR) s) else Inr (Yield K_Exit (s\<lparr>active_proc := None\<rparr>)))"
    by (rule exit_eq)
  let ?s3 = "exited a p q ?st n s"
  have wl: "wait_list ?s3 = wait_list s" "ready_queue ?s3 = ready_queue s" by (simp_all add: exited_def)
  have pids: "map_option pid (pcbs ?s3 x) = map_option pid (pcbs s x)" for x
    using reported_simps(1) [of p s x] q by (auto simp: exited_def)
  have some: "pcbs ?s3 x = None \<longleftrightarrow> pcbs s x = None" for x using pids [of x] by (metis option.map_disc_iff)
  have lv: "live (pcbs ?s3) (wait_list ?s3)" using a(2) by (simp add: live_def some wl)
  have ok: "mem_ok ?s3" using a(1) by (simp add: mem_ok_def exited_def)
  let ?q = "q\<lparr>u_page_table := map invalidate (u_page_table p), k_stack_pt := map invalidate (k_stack_pt p)\<rparr>"
  from ok lv show ?thesis
  proof (cases rule: wake_parent_ok [of ?s3 "ppid p"])
    case (woken xs w ys q')
    have w: "map_option pid (pcbs s w) = Some (ppid p)" using woken(2,3) pids [of w] by simp
    have w': "\<forall>x\<in>set xs. map_option pid (pcbs s x) \<noteq> Some (ppid p)" using woken(4) unfolding pids .
    let ?s' = "?s3\<lparr>malloc_cnt := Suc (malloc_cnt ?s3), wait_list := xs @ ys, ready_queue := ready_queue ?s3 @ [w],
      active_proc := None\<rparr>"
    have "sys_Exit uc mode s = Inr (Yield K_Exit ?s')" unfolding run woken(5) by simp
    then show ?thesis using w w' woken(1)
      by (intro exI [of _ ?s'] exI [of _ ?q]) (auto simp: exited_def wl page_frames_invalid)
  next
    case nobody
    have "sys_Exit uc mode s = Inr (Yield K_Exit (?s3\<lparr>active_proc := None\<rparr>))" unfolding run nobody(2) by simp
    then show ?thesis using nobody(1)
      by (intro exI [of _ "?s3\<lparr>active_proc := None\<rparr>"] exI [of _ ?q])
        (simp add: pids wl, simp add: exited_def page_frames_invalid)
  qed
qed

text \<open>
C20: Exit, for a process whose parent, children and waiting processes exist. When it has a parent and
the record of its exit cannot be allocated, Exit returns ERROR: the process goes on running with its
memory, its page tables and the queues as they were, only its children have lost their parent. When
no allocation fails, Exit does not return to the process: it gives up the processor with no process
running. All frames of its region 1 and of its kernel stack, and no others, go to the front of the free list
and its page tables are empty; no other process's page table changes. If it has a parent, one
record with its pid and status is added at the end of the dead list and the pid leaves the
parent's list of children; its own children have no parent any more. The first process that
waits with the parent's pid, if any, goes from the wait list to the end of the ready queue.
\<close>

theorem exit_exact:
  assumes "family_exists a p s"
  shows "(ppid p \<noteq> -1 \<and> (malloc_fails s (malloc_cnt s) \<or> malloc_fails s (Suc (malloc_cnt s))) \<longrightarrow>
     (\<exists>s'. sys_Exit uc mode s = Inr (Done (Some ERROR) s') \<and> active_proc s' = Some a \<and>
        pcbs s' = orphaned (children p) s \<and> free_frames s' = free_frames s \<and> dead_list s' = dead_list s \<and>
        wait_list s' = wait_list s \<and> ready_queue s' = ready_queue s)) \<and>
   (malloc_fails s = (\<lambda>_. False) \<longrightarrow>
     (\<exists>s' q. sys_Exit uc mode s = Inr (Yield K_Exit s') \<and> active_proc s' = None \<and>
        free_frames s' = rev (page_frames (k_stack_pt p)) @ rev (page_frames (u_page_table p)) @ free_frames s \<and>
        pcbs s' a = Some q \<and> page_frames (u_page_table q) = [] \<and> page_frames (k_stack_pt q) = [] \<and>
        (\<forall>x. x \<noteq> a \<longrightarrow> pcbs s' x = reported p s x) \<and>
        dead_list s' = (if ppid p = -1 then dead_list s else dead_list s @ [malloc_cnt s]) \<and>
        deads s' = (if ppid p = -1 then deads s else (deads s)(malloc_cnt s \<mapsto>
          \<lparr>dead_ppid = ppid p, dead_pid = pid p, dead_status = (if mode = 0 then sint (reg uc 0) else ERROR)\<rparr>)) \<and>
        ((\<exists>xs w ys. wait_list s = xs @ w # ys \<and> map_option pid (pcbs s w) = Some (ppid p) \<and>
           (\<forall>x\<in>set xs. map_option pid (pcbs s x) \<noteq> Some (ppid p)) \<and>
           wait_list s' = xs @ ys \<and> ready_queue s' = ready_queue s @ [w]) \<or>
         (\<forall>x\<in>set (wait_list s). map_option pid (pcbs s x) \<noteq> Some (ppid p)) \<and>
           wait_list s' = wait_list s \<and> ready_queue s' = ready_queue s)))"
  using exit_no_memory [OF assms] exit_leaves_nothing [OF family_can_exitI [OF assms]] by blast

section \<open>A parent and its child\<close>

text \<open>Process 2 at address 30 runs; it is the only child of process 0 at address 10.\<close>

definition parent :: pcb where
  "parent = (sample_pcb 0 200)\<lparr>u_page_table := sample_table, children := [2]\<rparr>"

definition child :: pcb where
  "child = (sample_pcb 2 204)\<lparr>ppid := 0\<rparr>"

definition family :: kstate where
  "family = sample\<lparr>active_proc := Some 30, pcbs := (pcbs sample)(10 \<mapsto> parent, 30 \<mapsto> child)\<rparr>"

lemma family_fields [simp]:
  "pcbs family 10 = Some parent" "pcbs family 30 = Some child" "active_proc family = Some 30"
  "dead_list family = []" "deads family = Map.empty" "wait_list family = []" "mem_ok family"
  "pcb_table family = [0 \<mapsto> 10, 1 \<mapsto> 20, 2 \<mapsto> 30]" "malloc_cnt family = 100"
  by (simp_all add: family_def mem_ok_def)

lemma parent_fields [simp]:
  "pid parent = 0" "children parent = [2]" "pid child = 2" "ppid child = 0" "children child = []"
  "u_page_table parent = sample_table"
  by (simp_all add: parent_def child_def)

lemma family_can_exit: "can_exit 30 child family"
  by (simp add: can_exit_def family_exists_def has_pcb_def)

theorem exit_exact_witness:
  "(\<exists>s'. sys_Exit (args 7 0 0) 0 family = Inr (Yield K_Exit s') \<and> dead_list s' = [100] \<and>
     free_frames s' = [205, 204, 400, 401, 402, 403, 404]) \<and>
   (\<exists>s'. sys_Exit (args 7 0 0) 0 (family\<lparr>malloc_fails := \<lambda>_. True\<rparr>) = Inr (Done (Some ERROR) s') \<and> active_proc s' = Some 30)"
proof -
  have f: "page_frames (k_stack_pt child) = [204, 205]" "page_frames (u_page_table child) = []"
    "free_frames family = [400, 401, 402, 403, 404]" "malloc_fails family = (\<lambda>_. False)"
    by (simp_all add: child_def page_frames_def sample_pcb_def family_def)
  have e: "family_exists 30 child family" "family_exists 30 child (family\<lparr>malloc_fails := \<lambda>_. True\<rparr>)"
    by (simp_all add: family_exists_def has_pcb_def)
  show ?thesis using exit_exact [OF e(1), of "args 7 0 0" 0] exit_exact [OF e(2), of "args 7 0 0" 0] f by auto
qed

end
