(* ===== verification/Wait_Properties.thy ===== *)
theory Wait_Properties
  imports Process_Properties
begin

text \<open>Wait: the status of a dead child, and what happens when Wait and Exit come in either order.\<close>

section \<open>Taking a record from the dead list\<close>

text \<open>The user's status pointer is valid memory of the process.\<close>

definition status_ok :: "u32 \<Rightarrow> pcb \<Rightarrow> bool" where
  "status_ok v p \<longleftrightarrow> mapped (u_page_table p) PROT_READ v 4 \<and> mapped (u_page_table p) PROT_WRITE v 4 \<and>
     frames_distinct (u_page_table p)"

lemma length_int_bytes [simp]: "length (int_bytes v) = 4"
  by (simp add: int_bytes_def)

lemma status_store:
  assumes "status_ok v p" and "active_proc s = Some a" and "pcbs s a = Some p"
  obtains m where "user_store v (int_bytes st) s = Inr (s\<lparr>pmem := m\<rparr>)"
    and "vm_load m (u_page_table p) v 4 = Inr (int_bytes st)"
proof -
  let ?t = "u_page_table p"
  have ok: "mapped ?t PROT_READ v 4" "mapped ?t PROT_WRITE v (length (int_bytes st))" "frames_distinct ?t"
    using assms(1) by (simp_all add: status_ok_def)
  from vm_store_total [OF ok(2)] obtain m where m: "vm_store (pmem s) ?t v (int_bytes st) = Inr m" by blast
  have "vm_load m ?t v (length (int_bytes st)) = Inr (int_bytes st)"
    by (rule vm_load_store [OF ok(3) m]) (simp_all add: ok(1) del: PROT_READ_def)
  then show thesis using that m assms(2,3) by (simp add: user_store_def)
qed

lemma reap_first:
  assumes "status_ok v p" and "active_proc s = Some a" and "pcbs s a = Some p"
    and "dead_list s = xs @ b # ys" and "deads s b = Some d" and "dead_ppid d = pid p"
    and "\<And>c. c \<in> set xs \<Longrightarrow> \<exists>e. deads s c = Some e \<and> dead_ppid e \<noteq> pid p"
  obtains m where "vm_load m (u_page_table p) v 4 = Inr (int_bytes (dead_status d))"
    and "reap v i p s = Inr (Some (Done (Some (dead_pid d)) (s\<lparr>pmem := m, deads := (deads s)(b := None),
           dead_list := snd (klist_remove (dead_list s) (i + int (length xs)))\<rparr>)))"
proof -
  from assms(1-3) obtain m where m: "user_store v (int_bytes (dead_status d)) s = Inr (s\<lparr>pmem := m\<rparr>)"
    "vm_load m (u_page_table p) v 4 = Inr (int_bytes (dead_status d))" by (rule status_store)
  have "find_obj (deads s) (\<lambda>d. pid p = dead_ppid d) i (dead_list s) = Inr (Some (i + int (length xs), b))"
    unfolding assms(4) using assms(5-7) by (intro find_obj_at [of _ _ d]) force+
  then show thesis using that m assms(5) by (simp add: reap_def)
qed

lemma reap_none:
  assumes "\<forall>c\<in>set (dead_list s). \<exists>d. deads s c = Some d \<and> dead_ppid d \<noteq> pid p"
  shows "reap v i p s = Inr None"
proof -
  have "find_obj (deads s) (\<lambda>d. pid p = dead_ppid d) i (dead_list s) = Inr None"
    unfolding find_obj_None using assms by force
  then show ?thesis by (simp add: reap_def)
qed

text \<open>
C21: Wait, for a process whose status pointer is valid, when the dead list holds no freed record (see
\<open>wait_leaves_freed_record\<close>) and malloc does not fail. Without children it returns ERROR and
changes nothing. When the dead list holds a record of one of its children, the first such record
is taken out and freed, its status is where the pointer points, and its pid is returned.
Otherwise the process is put at the end of the wait list and gives up the processor.
\<close>

theorem wait_exact:
  assumes "mem_ok s" and "active_proc s = Some a" and "pcbs s a = Some p" and "user_addr_ok (reg uc 0) p"
    and "status_ok (reg uc 0) p" and "live (deads s) (dead_list s)"
  shows "if children p = [] then sys_Wait uc s = Inr (Done (Some ERROR) s)
    else if \<exists>c\<in>set (dead_list s). map_option dead_ppid (deads s c) = Some (pid p)
    then \<exists>xs b ys d m. dead_list s = xs @ b # ys \<and> deads s b = Some d \<and> dead_ppid d = pid p \<and>
      (\<forall>c\<in>set xs. map_option dead_ppid (deads s c) \<noteq> Some (pid p)) \<and>
      vm_load m (u_page_table p) (reg uc 0) 4 = Inr (int_bytes (dead_status d)) \<and>
      sys_Wait uc s = Inr (Done (Some (dead_pid d)) (s\<lparr>pmem := m, deads := (deads s)(b := None), dead_list := xs @ ys\<rparr>))
    else sys_Wait uc s = Inr (Yield (K_Wait (reg uc 0) (int (length (dead_list s)) + 1))
      (s\<lparr>malloc_cnt := Suc (malloc_cnt s), wait_list := wait_list s @ [a]\<rparr>))"
proof -
  let ?v = "reg uc 0"
  have "mapped (u_page_table p) PROT_READ ?v 4" using assms(5) by (simp add: status_ok_def)
  then obtain bs where ld: "user_load ?v 4 s = Inr bs" using vm_load_total assms(2,3) by (fastforce simp: user_load_def)
  note start = assms(2-4) ld
  consider (none) "children p = []"
    | (dead) "children p \<noteq> []" "\<exists>c\<in>set (dead_list s). map_option dead_ppid (deads s c) = Some (pid p)"
    | (wait) "children p \<noteq> []" "\<forall>c\<in>set (dead_list s). map_option dead_ppid (deads s c) \<noteq> Some (pid p)"
    by blast
  then show ?thesis
  proof cases
    case none
    then show ?thesis using start by (simp add: sys_Wait_def Let_def)
  next
    case dead
    then have "\<not> find_obj (deads s) (\<lambda>d. dead_ppid d = pid p) 1 (dead_list s) = Inr None"
      unfolding find_obj_None by force
    with find_obj_total [OF assms(6), of "\<lambda>d. dead_ppid d = pid p" 1] obtain j b where
      "find_obj (deads s) (\<lambda>d. dead_ppid d = pid p) 1 (dead_list s) = Inr (Some (j, b))" by blast
    then obtain xs ys d where f: "dead_list s = xs @ b # ys" "j = 1 + int (length xs)" "deads s b = Some d" "dead_ppid d = pid p"
      "\<forall>c\<in>set xs. \<exists>e. deads s c = Some e \<and> dead_ppid e \<noteq> pid p" by (rule find_obj_first)
    from assms(5,2,3) f(1,3,4) obtain m where m: "vm_load m (u_page_table p) ?v 4 = Inr (int_bytes (dead_status d))"
      and r: "reap ?v 1 p s = Inr (Some (Done (Some (dead_pid d)) (s\<lparr>pmem := m, deads := (deads s)(b := None),
           dead_list := snd (klist_remove (dead_list s) (1 + int (length xs)))\<rparr>)))"
      by (rule reap_first) (use f(5) in auto)
    have "sys_Wait uc s = Inr (Done (Some (dead_pid d)) (s\<lparr>pmem := m, deads := (deads s)(b := None), dead_list := xs @ ys\<rparr>))"
      using start dead(1) r klist_remove_mid [of xs b ys] f(1) by (simp add: sys_Wait_def Let_def)
    then show ?thesis using dead f m by force
  next
    case wait
    have "reap ?v 1 p s = Inr None"
      using wait(2) assms(6) by (intro reap_none) (force simp: live_def)
    then show ?thesis using start wait assms(1)
      by (simp add: sys_Wait_def Let_def klist_append_eq mem_ok_def)
  qed
qed

section \<open>Exit and Wait together\<close>

text \<open>
C11: the status of a child reaches a parent that blocked in Wait. The parent blocked while the dead
list was empty; a child exits; when the parent runs again, with the dead list as the exit left
it, the rest of Wait returns the child's pid, the status pointer points to the child's status,
and the record is gone from the list.
\<close>

theorem exit_status_delivered:
  assumes ex: "can_exit a p s" and "ppid p \<noteq> -1" and "\<forall>c\<in>set (dead_list s). c < malloc_cnt s"
    and "\<forall>c\<in>set (dead_list s). \<exists>d. deads s c = Some d \<and> dead_ppid d \<noteq> ppid p"
    and run: "sys_Exit uc mode s = Inr (Yield K_Exit s1)"
    and "active_proc t = Some w" and "pcbs t w = Some q" and "pid q = ppid p" and "status_ok v q"
    and "deads t = deads s1" and "dead_list t = dead_list s1"
  shows "\<exists>t'. wait_resume v 1 t = Inr (Done (Some (pid p)) t') \<and> dead_list t' = dead_list s \<and>
     vm_load (pmem t') (u_page_table q) v 4 = Inr (int_bytes (if mode = 0 then sint (reg uc 0) else ERROR))"
proof -
  let ?st = "if mode = 0 then sint (reg uc 0) else ERROR" and ?b = "malloc_cnt s"
  let ?d = "\<lparr>dead_ppid = ppid p, dead_pid = pid p, dead_status = ?st\<rparr>"
  from ex obtain n q0 where "reported p s a = Some q0"
    and e: "sys_Exit uc mode s = res_bind (wake_parent (ppid p) (exited a p q0 ?st n s)) (\<lambda>(rc, s).
        if rc \<noteq> 0 then Inr (Done (Some ERROR) s) else Inr (Yield K_Exit (s\<lparr>active_proc := None\<rparr>)))"
    by (rule exit_eq)
  from run e obtain s2 where "wake_parent (ppid p) (exited a p q0 ?st n s) = Inr (0, s2)"
    and "s1 = s2\<lparr>active_proc := None\<rparr>" by (auto split: if_splits)
  then have d1: "dead_list s1 = dead_list s @ [?b]" "deads s1 = (deads s)(?b \<mapsto> ?d)"
    using assms(2) by (auto simp: wake_parent_def ready_insert_eq exited_def split: option.splits prod.splits)
  have xs: "\<exists>e. deads t c = Some e \<and> dead_ppid e \<noteq> pid q" if "c \<in> set (dead_list s)" for c
    using that assms(3,4,8,10) d1(2) by force
  have "dead_list t = dead_list s @ ?b # []" "deads t ?b = Some ?d" "dead_ppid ?d = pid q"
    using d1 assms(8,10,11) by simp_all
  from assms(9,6,7) this xs obtain m where "vm_load m (u_page_table q) v 4 = Inr (int_bytes (dead_status ?d))"
    and "reap v 1 q t = Inr (Some (Done (Some (dead_pid ?d)) (t\<lparr>pmem := m, deads := (deads t)(?b := None),
           dead_list := snd (klist_remove (dead_list t) (1 + int (length (dead_list s))))\<rparr>)))"
    by (rule reap_first)
  then show ?thesis
    using assms(6,7,11) d1(1) klist_remove_mid [of "dead_list s" ?b "[]"] by (simp add: wait_resume_def)
qed

text \<open>
A parent that blocked in Wait while the dead list was not empty. The counter of positions is not
reset before the second scan, so with \<open>l\<close> records in the list when it blocked, a child's record
followed by fewer than \<open>l\<close> others is freed but not taken out of the list: the call returns the
right pid, and the next scan of the list that gets to this entry reads freed memory.
\<close>

theorem wait_leaves_freed_record:
  assumes "active_proc t = Some w" and "pcbs t w = Some q" and "status_ok v q"
    and "dead_list t = xs @ b # ys" and "deads t b = Some d" and "dead_ppid d = pid q"
    and "\<forall>c\<in>set xs. \<exists>e. deads t c = Some e \<and> dead_ppid e \<noteq> pid q"
    and "b \<notin> set xs" and "length ys < l"
  shows "\<exists>t'. wait_resume v (int l + 1) t = Inr (Done (Some (dead_pid d)) t') \<and>
     dead_list t' = xs @ b # ys \<and> deads t' b = None \<and>
     (\<forall>r v'. (\<forall>c\<in>set xs. map_option dead_ppid (deads t c) \<noteq> Some (pid r)) \<longrightarrow> reap v' 1 r t' = Inl DanglingDeref)"
proof -
  from assms(3,1,2,4-6) obtain m where
    r: "reap v (int l + 1) q t = Inr (Some (Done (Some (dead_pid d)) (t\<lparr>pmem := m, deads := (deads t)(b := None),
           dead_list := snd (klist_remove (dead_list t) (int l + 1 + int (length xs)))\<rparr>)))"
    by (rule reap_first) (use assms(7) in auto)
  have "snd (klist_remove (dead_list t) (int l + 1 + int (length xs))) = dead_list t"
    using assms(4,9) by (simp add: klist_remove_def in_range_def)
  then have w: "wait_resume v (int l + 1) t = Inr (Done (Some (dead_pid d)) (t\<lparr>pmem := m, deads := (deads t)(b := None)\<rparr>))"
    using r assms(1,2) by (simp add: wait_resume_def)
  let ?t = "t\<lparr>pmem := m, deads := (deads t)(b := None)\<rparr>"
  have fo: "find_obj ((deads t)(b := None)) (\<lambda>d. pid r = dead_ppid d) i (xs @ b # ys) = Inl DanglingDeref"
    if "\<forall>c\<in>set xs. map_option dead_ppid (deads t c) \<noteq> Some (pid r)" for r i
    using that assms(7,8)
  proof (induction xs arbitrary: i)
    case Nil
    then show ?case by (simp add: deref_def)
  next
    case (Cons c xs)
    then obtain e where "deads t c = Some e" "dead_ppid e \<noteq> pid r" "c \<noteq> b" by auto
    then show ?case using Cons.IH [of "i + 1"] Cons.prems by (simp add: eq_commute [of "pid r"])
  qed
  have "reap v' 1 r ?t = Inl DanglingDeref" if "\<forall>c\<in>set xs. map_option dead_ppid (deads t c) \<noteq> Some (pid r)" for r v'
    using fo [OF that, of 1] assms(4) by (simp add: reap_def)
  then show ?thesis using w assms(4) by (intro exI [of _ ?t]) simp
qed

text \<open>
C39: a child that exits before its parent calls Wait is lost. Exit takes the pid out of the parent's
list of children, and Wait returns ERROR as soon as that list is empty, although the dead list
holds the child's record.
\<close>

theorem wait_after_exit_error:
  assumes ex: "can_exit a p s" and "ppid p \<noteq> -1" and "pcb_table s (ppid p) = Some b" and "b \<noteq> a"
    and "pcbs s b = Some q" and "children q = [pid p]" and "\<forall>c\<in>set (children p). pcb_table s c \<noteq> Some b"
    and run: "sys_Exit uc mode s = Inr (Yield K_Exit s1)"
    and "active_proc t = Some b" and "pcbs t b = pcbs s1 b" and "dead_list t = dead_list s1" and "deads t = deads s1"
    and "user_addr_ok (reg uc' 0) q" and "mapped (u_page_table q) PROT_READ (reg uc' 0) 4"
  shows "sys_Wait uc' t = Inr (Done (Some ERROR) t) \<and>
     (\<exists>c\<in>set (dead_list t). \<exists>d. deads t c = Some d \<and> dead_ppid d = ppid p \<and> dead_pid d = pid p)"
proof -
  let ?st = "if mode = 0 then sint (reg uc 0) else ERROR"
  from ex obtain n q0 where "reported p s a = Some q0"
    and e: "sys_Exit uc mode s = res_bind (wake_parent (ppid p) (exited a p q0 ?st n s)) (\<lambda>(rc, s).
        if rc \<noteq> 0 then Inr (Done (Some ERROR) s) else Inr (Yield K_Exit (s\<lparr>active_proc := None\<rparr>)))"
    by (rule exit_eq)
  from run e obtain s2 where "wake_parent (ppid p) (exited a p q0 ?st n s) = Inr (0, s2)"
    and "s1 = s2\<lparr>active_proc := None\<rparr>" by (auto split: if_splits)
  then have "pcbs s1 = pcbs (exited a p q0 ?st n s)" "dead_list s1 = dead_list s @ [malloc_cnt s]"
    "deads s1 = (deads s)(malloc_cnt s \<mapsto> \<lparr>dead_ppid = ppid p, dead_pid = pid p, dead_status = ?st\<rparr>)"
    using assms(2) by (auto simp: wake_parent_def ready_insert_eq exited_def split: option.splits prod.splits)
  moreover have "reported p s b = Some (q\<lparr>children := []\<rparr>)"
    using assms(2,3,5-7) by (auto simp: reported_def orphaned_def)
  ultimately have pb: "pcbs t b = Some (q\<lparr>children := []\<rparr>)" and dl: "dead_list t = dead_list s @ [malloc_cnt s]"
    "deads t = (deads s)(malloc_cnt s \<mapsto> \<lparr>dead_ppid = ppid p, dead_pid = pid p, dead_status = ?st\<rparr>)"
    using assms(4,10,11,12) by (simp_all add: exited_def)
  obtain bs where "vm_load (pmem t) (u_page_table q) (reg uc' 0) 4 = Inr bs" using vm_load_total [OF assms(14)] by blast
  then have "sys_Wait uc' t = Inr (Done (Some ERROR) t)"
    using assms(9,13) pb by (simp add: sys_Wait_def Let_def user_load_def user_addr_ok_def)
  then show ?thesis using dl by simp
qed

section \<open>Witnesses\<close>

lemma parent_status: "status_ok 0x106000 parent" "user_addr_ok 0x106000 parent"
proof -
  show "status_ok 0x106000 parent"
    using sample_mapped [of 1 4] sample_mapped [of 2 4] sample_frames_distinct by (simp add: status_ok_def)
  show "user_addr_ok 0x106000 parent" using sample_addr_ok by (simp add: user_addr_ok_def parent_def)
qed

lemma family_exit:
  obtains s1 where "sys_Exit (args 7 0 0) 0 family = Inr (Yield K_Exit s1)"
proof -
  from family_can_exit obtain n q where "reported child family 30 = Some q"
    and e: "sys_Exit (args 7 0 0) 0 family = res_bind (wake_parent (ppid child) (exited 30 child q
      (if (0 :: int) = 0 then sint (reg (args 7 0 0) 0) else ERROR) n family)) (\<lambda>(rc, s).
        if rc \<noteq> 0 then Inr (Done (Some ERROR) s) else Inr (Yield K_Exit (s\<lparr>active_proc := None\<rparr>)))"
    by (rule exit_eq)
  have "wake_parent (ppid child) (exited 30 child q 7 n family) = Inr (0, exited 30 child q 7 n family)"
    by (simp add: wake_parent_def exited_def)
  with e show thesis using that by simp
qed

theorem wait_exact_witness:
  "let s = family\<lparr>active_proc := Some 10\<rparr> in sys_Wait (args 0x106000 0 0) s =
     Inr (Yield (K_Wait 0x106000 1) (s\<lparr>malloc_cnt := 101, wait_list := [10]\<rparr>))"
  using wait_exact [of "family\<lparr>active_proc := Some 10\<rparr>" 10 parent "args 0x106000 0 0"] parent_status
  by (simp add: Let_def mem_ok_def) (simp add: family_def)

theorem exit_status_delivered_witness:
  "\<exists>s1 t'. sys_Exit (args 7 0 0) 0 family = Inr (Yield K_Exit s1) \<and>
     wait_resume 0x106000 1 (s1\<lparr>active_proc := Some 10, pcbs := [10 \<mapsto> parent]\<rparr>) = Inr (Done (Some 2) t') \<and>
     vm_load (pmem t') sample_table 0x106000 4 = Inr (int_bytes 7)"
proof -
  obtain s1 where e: "sys_Exit (args 7 0 0) 0 family = Inr (Yield K_Exit s1)" by (rule family_exit)
  have "\<exists>t'. wait_resume 0x106000 1 (s1\<lparr>active_proc := Some 10, pcbs := [10 \<mapsto> parent]\<rparr>) = Inr (Done (Some (pid child)) t') \<and>
     dead_list t' = dead_list family \<and>
     vm_load (pmem t') (u_page_table parent) 0x106000 4 = Inr (int_bytes (if (0 :: int) = 0 then sint (reg (args 7 0 0) 0) else ERROR))"
    by (rule exit_status_delivered [OF family_can_exit _ _ _ e, where w = 10]) (use parent_status in simp_all)
  with e show ?thesis by auto
qed

theorem wait_after_exit_error_witness:
  "\<exists>s1. sys_Exit (args 7 0 0) 0 family = Inr (Yield K_Exit s1) \<and>
     sys_Wait (args 0x106000 0 0) (s1\<lparr>active_proc := Some 10\<rparr>) = Inr (Done (Some ERROR) (s1\<lparr>active_proc := Some 10\<rparr>))"
proof -
  obtain s1 where e: "sys_Exit (args 7 0 0) 0 family = Inr (Yield K_Exit s1)" by (rule family_exit)
  have "sys_Wait (args 0x106000 0 0) (s1\<lparr>active_proc := Some 10\<rparr>) = Inr (Done (Some ERROR) (s1\<lparr>active_proc := Some 10\<rparr>)) \<and>
     (\<exists>c\<in>set (dead_list (s1\<lparr>active_proc := Some 10\<rparr>)). \<exists>d. deads (s1\<lparr>active_proc := Some 10\<rparr>) c = Some d \<and>
        dead_ppid d = ppid child \<and> dead_pid d = pid child)"
    by (rule wait_after_exit_error [OF family_can_exit _ _ _ _ _ _ e, where b = 10 and q = parent])
      (use parent_status sample_mapped [of 1 4] in simp_all)
  with e show ?thesis by blast
qed

theorem wait_leaves_freed_record_witness:
  "\<exists>s t'. wait_resume 0x106000 2 s = Inr (Done (Some 2) t') \<and> dead_list t' = [90, 91] \<and> deads t' 91 = None"
proof -
  let ?s = "family\<lparr>active_proc := Some 10, dead_list := [90, 91],
     deads := [90 \<mapsto> \<lparr>dead_ppid = 5, dead_pid = 6, dead_status = 0\<rparr>, 91 \<mapsto> \<lparr>dead_ppid = 0, dead_pid = 2, dead_status = 7\<rparr>]\<rparr>"
  have "\<exists>t'. wait_resume 0x106000 (int 1 + 1) ?s = Inr (Done (Some (dead_pid \<lparr>dead_ppid = 0, dead_pid = 2, dead_status = 7\<rparr>)) t') \<and>
     dead_list t' = [90] @ 91 # [] \<and> deads t' 91 = None \<and>
     (\<forall>r v'. (\<forall>c\<in>set [90]. map_option dead_ppid (deads ?s c) \<noteq> Some (pid r)) \<longrightarrow> reap v' 1 r t' = Inl DanglingDeref)"
    by (rule wait_leaves_freed_record [where w = 10 and q = parent]) (use parent_status in simp_all)
  then show ?thesis by auto
qed

end
