(* ===== verification/Terminals.thy ===== *)
theory Terminals
  imports Wait_Queues
begin

text \<open>
  Terminal input and output: sys_TtyRead and sys_TtyWrite of syscall.c and the two terminal
  interrupt handlers of trap.c.
\<close>

section \<open>The system calls\<close>

definition tty_id_ok :: "int \<Rightarrow> bool" where
  "tty_id_ok t \<longleftrightarrow> \<not> (t < 0 \<or> t > NUM_TERMINALS)"

definition sys_TtyRead :: "user_context \<Rightarrow> kstate \<Rightarrow> kres res" where
  "sys_TtyRead uc s =
     (let t = sint (reg uc 0); arg1 = sint (reg uc 2); page_num = user_pn (reg uc 1) in
      if \<not> tty_id_ok t then Inr (Done (Some ERROR) s)
      else if arg1 < 0 then Inr (Done (Some ERROR) s)
      else
        res_bind (deref_ptr (pcbs s) (active_proc s)) (\<lambda>me.
        if page_num \<ge> next_heap_pn me \<and> page_num \<le> next_stack_pn me then
          Inr (Done (Some ERROR) s)
        else if reg uc 1 < VMEM_1_BASE then Inr (Done (Some ERROR) s)
        else
          let a = the (active_proc s);
              s = set_pcb a (\<lambda>p. p\<lparr>tty_id := t, io_buf := reg uc 1, io_len := arg1,
                    state := BLOCKED_R\<rparr>) s
          in
          (case klist_append (io_list s) a s of
             (rc, l, s) \<Rightarrow>
               if rc \<noteq> 0 then Inr (Done (Some ERROR) s)
               else Inr (Yield (K_TtyRead t) (s\<lparr>io_list := l\<rparr>)))))"

definition ttyread_resume :: "int \<Rightarrow> kstate \<Rightarrow> kres res" where
  "ttyread_resume t s =
     res_bind (deref_ptr (pcbs s) (active_proc s)) (\<lambda>me.
     let s = set_pcb (the (active_proc s)) (\<lambda>p. p\<lparr>io_len := string_len s\<rparr>) s in
     if t < 0 \<or> t \<ge> NUM_TERMINALS then Inl OutOfBounds
     else
       res_bind (user_store (io_buf me) (map (receive s t) [0..<nat (string_len s)]) s) (\<lambda>s.
         Inr (Done (Some (string_len s)) s)))"

text \<open>Blocking on a terminal: the common part of the two blocking points of sys_TtyWrite.\<close>

definition tty_block :: "int \<Rightarrow> kcont \<Rightarrow> kstate \<Rightarrow> kres res" where
  "tty_block t k s =
     res_bind (deref_ptr (pcbs s) (active_proc s)) (\<lambda>_.
     let a = the (active_proc s);
         s = set_pcb a (\<lambda>p. p\<lparr>tty_id := t, state := BLOCKED_W\<rparr>) s
     in
     (case klist_append (io_list s) a s of
        (rc, l, s) \<Rightarrow>
          if rc \<noteq> 0 then Inr (Done (Some ERROR) s)
          else Inr (Yield k (s\<lparr>io_list := l\<rparr>))))"

text \<open>
  The loop of sys_TtyWrite: while bytes remain, wait until the terminal is free, hand one
  line to the hardware, block until it is sent. Every line starts at the user's buffer.
\<close>

definition tty_loop :: "user_context \<Rightarrow> int \<Rightarrow> int \<Rightarrow> kstate \<Rightarrow> kres res" where
  "tty_loop uc t remain_bytes s =
     (if remain_bytes > 0 then
        if t < 0 \<or> t \<ge> int (length (busy_terminal s)) then Inl OutOfBounds
        else if busy_terminal s ! nat t = 1 then tty_block t (K_TtyBusy t remain_bytes) s
        else
          let n = (if remain_bytes > TERMINAL_MAX_LINE then TERMINAL_MAX_LINE else remain_bytes);
              s = s\<lparr>busy_terminal := (busy_terminal s)[nat t := 1]\<rparr>
          in
          res_bind (user_load (reg uc 1) (nat n) s) (\<lambda>bs.
            tty_block t (K_TtyDone t (remain_bytes - n)) (s\<lparr>hw := hw s @ [HW_TtyTransmit t bs]\<rparr>))
      else Inr (Done (Some (sint (reg uc 2))) s))"

definition sys_TtyWrite :: "user_context \<Rightarrow> kstate \<Rightarrow> kres res" where
  "sys_TtyWrite uc s =
     (let t = sint (reg uc 0); remain_bytes = sint (reg uc 2) in
      if \<not> tty_id_ok t then Inr (Done (Some ERROR) s)
      else if sint (reg uc 2) < 0 then Inr (Done (Some ERROR) s)
      else if reg uc 1 < VMEM_1_BASE then Inr (Done (Some ERROR) s)
      else
        res_bind (deref_ptr (pcbs s) (active_proc s)) (\<lambda>me.
        let page_num = page_of (DOWN_TO_PAGE (reg uc 1 - VMEM_1_BASE)) in
        if page_num \<ge> next_heap_pn me \<and> page_num \<le> next_stack_pn me then
          Inr (Done (Some ERROR) s)
        else tty_loop uc t remain_bytes s))"

section \<open>The interrupt handlers\<close>

text \<open>
  The loop of trap_tty_receive_hdl over io_list. Its body changes neither the position nor
  the node when the process does not match. \<open>None\<close>: still looping when the fuel is spent.
\<close>

fun receive_scan :: "nat \<Rightarrow> int \<Rightarrow> addr option \<Rightarrow> kstate \<Rightarrow> kstate res option" where
  "receive_scan fuel t None s = Some (Inr s)"
| "receive_scan 0 t (Some a) s = None"
| "receive_scan (Suc fuel) t (Some a) s =
     (case deref (pcbs s) a of
        Inl e \<Rightarrow> Some (Inl e)
      | Inr p \<Rightarrow>
          if state p = BLOCKED_R \<and> t = tty_id p then
            Some (Inr (snd (ready_insert a (s\<lparr>io_list := snd (klist_remove (io_list s) 1)\<rparr>))))
          else receive_scan fuel t (Some a) s)"

text \<open>
  The handler; \<open>line\<close> is what the hardware's TtyReceive delivers. The bytes of an earlier,
  longer line stay behind the new one in the buffer.
\<close>

definition store_line :: "byte list \<Rightarrow> (nat \<Rightarrow> byte) \<Rightarrow> nat \<Rightarrow> byte" where
  "store_line line old = (\<lambda>i. if i < length line then line ! i else old i)"

definition trap_tty_receive_hdl ::
    "nat \<Rightarrow> byte list \<Rightarrow> user_context \<Rightarrow> kstate \<Rightarrow> kstate res option" where
  "trap_tty_receive_hdl fuel line uc s =
     (let t = uc_code uc; n = int (length line) in
      if t < 0 \<or> t \<ge> NUM_TERMINALS \<or> n > TERMINAL_MAX_LINE then Some (Inl OutOfBounds)
      else
        let s = (if n < TERMINAL_MAX_LINE then
                   s\<lparr>receive := (receive s)(t := store_line (line @ [0]) (receive s t)),
                     string_len := n + 1\<rparr>
                 else s\<lparr>receive := (receive s)(t := store_line line (receive s t))\<rparr>)
        in receive_scan fuel t (klist_index (io_list s) 1) s)"

definition trap_tty_transmit_hdl :: "user_context \<Rightarrow> kstate \<Rightarrow> kstate res" where
  "trap_tty_transmit_hdl uc s =
     (let t = uc_code uc in
      if t < 0 \<or> t \<ge> int (length (busy_terminal s)) then Inl OutOfBounds
      else
        let s = s\<lparr>busy_terminal := (busy_terminal s)[nat t := 0]\<rparr> in
        res_bind (find_obj (pcbs s) (\<lambda>p. state p = BLOCKED_W \<and> t = tty_id p) 1 (io_list s)) (\<lambda>r.
        case r of
          None \<Rightarrow> Inr s
        | Some (i, a) \<Rightarrow>
            Inr (snd (ready_insert a (s\<lparr>io_list := snd (klist_remove (io_list s) i)\<rparr>)))))"

end
