(* ===== verification/Terminal_Properties.thy ===== *)
theory Terminal_Properties
  imports User_Samples Effects Terminals
begin

text \<open>
  Terminals: one line at a time goes to the hardware, the interrupt that reports its end wakes a
  writer, a received line reaches the reader that waits for it, and what the handlers do when
  the processes in io_list are not the ones they look for.
\<close>

section \<open>Writing\<close>

text \<open>
C30: the loop of TtyWrite, on every branch. With bytes left and a free terminal it hands the first
bytes of the user's buffer, at most one line of 1024, to the hardware, marks the terminal busy
and blocks with that much less to write; every line of a longer write starts at the beginning
of the buffer again. With a busy terminal it blocks and sends nothing. With nothing left it
returns the length that was asked for.
\<close>

theorem tty_write_exact:
  assumes "mem_ok s" and "active_proc s = Some a" and "pcbs s a = Some p"
    and "0 \<le> t" and "t < int (length (busy_terminal s))"
    and "mapped (u_page_table p) PROT_READ (reg uc 1) (nat (min remain 1024))"
  shows "if remain \<le> 0 then tty_loop uc t remain s = Inr (Done (Some (sint (reg uc 2))) s)
    else if busy_terminal s ! nat t = 1
    then tty_loop uc t remain s = Inr (Yield (K_TtyBusy t remain) (s\<lparr>malloc_cnt := Suc (malloc_cnt s),
      pcbs := (pcbs s)(a \<mapsto> p\<lparr>tty_id := t, state := BLOCKED_W\<rparr>), io_list := io_list s @ [a]\<rparr>))
    else \<exists>bs. vm_load (pmem s) (u_page_table p) (reg uc 1) (nat (min remain 1024)) = Inr bs \<and>
      tty_loop uc t remain s = Inr (Yield (K_TtyDone t (remain - min remain 1024))
        (s\<lparr>busy_terminal := (busy_terminal s)[nat t := 1], hw := hw s @ [HW_TtyTransmit t bs], malloc_cnt := Suc (malloc_cnt s),
           pcbs := (pcbs s)(a \<mapsto> p\<lparr>tty_id := t, state := BLOCKED_W\<rparr>), io_list := io_list s @ [a]\<rparr>))"
proof -
  have blk: "tty_block t k u = Inr (Yield k (u\<lparr>malloc_cnt := Suc (malloc_cnt s),
      pcbs := (pcbs s)(a \<mapsto> p\<lparr>tty_id := t, state := BLOCKED_W\<rparr>), io_list := io_list s @ [a]\<rparr>))"
    if "malloc_fails u = malloc_fails s" "malloc_cnt u = malloc_cnt s" "active_proc u = active_proc s" "pcbs u = pcbs s"
      "io_list u = io_list s" for k u
    using that assms(1-3) by (simp add: tty_block_def set_pcb_def klist_append_eq mem_ok_def Let_def)
  obtain bs where bs: "vm_load (pmem s) (u_page_table p) (reg uc 1) (nat (min remain 1024)) = Inr bs"
    using vm_load_total [OF assms(6)] by blast
  have m: "(if remain > TERMINAL_MAX_LINE then TERMINAL_MAX_LINE else remain) = min remain 1024" by simp
  show ?thesis
    using assms(2-5) bs blk [of s] blk [of "s\<lparr>busy_terminal := (busy_terminal s)[nat t := 1], hw := hw s @ [HW_TtyTransmit t bs]\<rparr>"]
    unfolding tty_loop_def m by (auto simp: Let_def user_load_def)
qed

text \<open>
The transmit interrupt frees the terminal and wakes the process that has waited longest in
io_list to write to it, if there is one; nothing else changes.
\<close>

theorem tty_transmit_exact:
  assumes "mem_ok s" and "live (pcbs s) (io_list s)" and "0 \<le> uc_code uc" and "uc_code uc < int (length (busy_terminal s))"
  shows "let t = uc_code uc; wants = (\<lambda>x. \<exists>p. pcbs s x = Some p \<and> state p = BLOCKED_W \<and> tty_id p = t);
      free = s\<lparr>busy_terminal := (busy_terminal s)[nat t := 0]\<rparr>
    in if \<exists>x\<in>set (io_list s). wants x
    then \<exists>xs a ys. io_list s = xs @ a # ys \<and> wants a \<and> (\<forall>x\<in>set xs. \<not> wants x) \<and>
      trap_tty_transmit_hdl uc s = Inr (free\<lparr>io_list := xs @ ys, malloc_cnt := Suc (malloc_cnt s), ready_queue := ready_queue s @ [a]\<rparr>)
    else trap_tty_transmit_hdl uc s = Inr free"
proof -
  let ?t = "uc_code uc"
  let ?P = "\<lambda>p. state p = BLOCKED_W \<and> ?t = tty_id p" and ?free = "s\<lparr>busy_terminal := (busy_terminal s)[nat ?t := 0]\<rparr>"
  from find_obj_total [OF assms(2), of ?P 1] consider
    (no) "find_obj (pcbs s) ?P 1 (io_list s) = Inr None" | (yes) j a where "find_obj (pcbs s) ?P 1 (io_list s) = Inr (Some (j, a))"
    by blast
  then show ?thesis
  proof cases
    case no
    then have "\<forall>x\<in>set (io_list s). \<exists>p. pcbs s x = Some p \<and> \<not> ?P p" by (simp only: find_obj_None)
    then have "\<not> (\<exists>x\<in>set (io_list s). \<exists>p. pcbs s x = Some p \<and> state p = BLOCKED_W \<and> tty_id p = ?t)" by force
    moreover have "trap_tty_transmit_hdl uc s = Inr ?free"
      using assms(3,4) no by (simp add: trap_tty_transmit_hdl_def Let_def)
    ultimately show ?thesis unfolding Let_def by (simp only: if_False simp_thms)
  next
    case yes
    then obtain xs ys p where f: "io_list s = xs @ a # ys" "j = 1 + int (length xs)" "pcbs s a = Some p" "?P p"
      "\<forall>c\<in>set xs. \<exists>y. pcbs s c = Some y \<and> \<not> ?P y" by (rule find_obj_first)
    have "trap_tty_transmit_hdl uc s =
        Inr (?free\<lparr>io_list := xs @ ys, malloc_cnt := Suc (malloc_cnt s), ready_queue := ready_queue s @ [a]\<rparr>)"
      using assms(1,3,4) yes f(1,2) klist_remove_mid [of xs a ys]
      by (simp add: trap_tty_transmit_hdl_def Let_def ready_insert_eq mem_ok_def)
    moreover have "\<forall>x\<in>set xs. \<not> (\<exists>p. pcbs s x = Some p \<and> state p = BLOCKED_W \<and> tty_id p = ?t)" using f(5) by force
    moreover have "\<exists>p. pcbs s a = Some p \<and> state p = BLOCKED_W \<and> tty_id p = ?t" using f(3,4) by auto
    ultimately show ?thesis using f(1) unfolding Let_def by auto
  qed
qed

section \<open>Reading\<close>

text \<open>
C29: a line typed at a terminal reaches the process that waits for it. When the first process of
io_list waits to read from terminal \<open>t\<close> and a line of fewer than 1024 bytes arrives there, the
handler makes it ready. If neither the buffer of the terminal nor string_len has changed by the time it
runs again, the rest of TtyRead stores the line and a final zero byte in its buffer and returns their
number. The condition matters: string_len is one variable for all terminals, and a line that arrives
at another terminal in between changes it (\<open>tty_lengths_mixed\<close>). malloc does not fail.
\<close>

theorem tty_read_round_trip:
  assumes "mem_ok s" and "uc_code uc = t" and "0 \<le> t" and "t < NUM_TERMINALS" and "length line < 1024"
    and "io_list s = a # rest" and "pcbs s a = Some p" and "state p = BLOCKED_R" and "tty_id p = t"
    and "active_proc u = Some a" and "pcbs u a = Some q" and "frames_distinct (u_page_table q)"
    and "mapped (u_page_table q) PROT_WRITE (io_buf q) (length line + 1)"
    and "mapped (u_page_table q) PROT_READ (io_buf q) (length line + 1)"
  shows "\<exists>s1. trap_tty_receive_hdl (Suc fuel) line uc s = Some (Inr s1) \<and> io_list s1 = rest \<and>
     ready_queue s1 = ready_queue s @ [a] \<and>
     (receive u t = receive s1 t \<and> string_len u = string_len s1 \<longrightarrow>
       (\<exists>u'. ttyread_resume t u = Inr (Done (Some (int (length line) + 1)) u') \<and>
          vm_load (pmem u') (u_page_table q) (io_buf q) (length line + 1) = Inr (line @ [0])))"
proof -
  let ?r = "store_line (line @ [0]) (receive s t)" and ?n = "int (length line) + 1"
  let ?s1 = "s\<lparr>receive := (receive s)(t := ?r), string_len := ?n, io_list := rest, malloc_cnt := Suc (malloc_cnt s),
    ready_queue := ready_queue s @ [a]\<rparr>"
  have "klist_index (a # rest) 1 = Some a" by (simp add: klist_index_def in_range_def)
  then have h: "trap_tty_receive_hdl (Suc fuel) line uc s = Some (Inr ?s1)"
    using assms(1-9) by (simp add: trap_tty_receive_hdl_def Let_def ready_insert_eq mem_ok_def)
  have "\<exists>u'. ttyread_resume t u = Inr (Done (Some ?n) u') \<and>
      vm_load (pmem u') (u_page_table q) (io_buf q) (length line + 1) = Inr (line @ [0])"
    if r: "receive u t = receive ?s1 t" "string_len u = string_len ?s1"
  proof -
    have bs: "map (receive u t) [0..<nat ?n] = line @ [0]"
      using r(1) by (intro nth_equalityI) (simp_all add: store_line_def nat_add_distrib nth_append)
    have "mapped (u_page_table q) PROT_WRITE (io_buf q) (length (line @ [0]))" using assms(13) by simp
    from vm_store_total [OF this] obtain m where m: "vm_store (pmem u) (u_page_table q) (io_buf q) (line @ [0]) = Inr m" by blast
    have "vm_load m (u_page_table q) (io_buf q) (length (line @ [0])) = Inr (line @ [0])"
      by (rule vm_load_store [OF assms(12) m]) (use assms(5,14) in simp_all)
    then show ?thesis
      using assms(3,4,10,11) r(2) bs m
      by (simp add: ttyread_resume_def Let_def set_pcb_def user_store_def)
  qed
  then show ?thesis using h by (intro exI [of _ ?s1]) auto
qed

text \<open>The scan of the receive handler leaves the buffers alone.\<close>

lemma receive_scan_buffers: "receive_scan fuel t p s = Some (Inr s') \<Longrightarrow> receive s' = receive s \<and> string_len s' = string_len s"
  by (induction fuel t p s rule: receive_scan.induct) (auto simp: ready_insert_eq split: sum.splits if_splits)

text \<open>
A line on one terminal spoils a read from another. When a line of fewer than 1024 bytes arrives at
terminal \<open>t'\<close> after the line of a reader of terminal \<open>t\<close> and before that reader runs again, the reader
gets the first bytes of its own terminal's buffer, but as many as the line of terminal \<open>t'\<close> has.
\<close>

theorem tty_lengths_mixed:
  assumes "trap_tty_receive_hdl fuel line uc s = Some (Inr s1)" and "uc_code uc = t'" and "t \<noteq> t'" and "length line < 1024"
    and "0 \<le> t" and "t < NUM_TERMINALS" and "receive u = receive s1" and "string_len u = string_len s1"
    and "active_proc u = Some a" and "pcbs u a = Some q"
    and "mapped (u_page_table q) PROT_WRITE (io_buf q) (length line + 1)"
  shows "\<exists>u' m. ttyread_resume t u = Inr (Done (Some (int (length line) + 1)) u') \<and> pmem u' = m \<and>
     vm_store (pmem u) (u_page_table q) (io_buf q) (map (receive s t) [0..<length line + 1]) = Inr m"
proof -
  from assms(1,2,4) obtain s0 where "receive_scan fuel t' (klist_index (io_list s) 1) s0 = Some (Inr s1)"
    "receive s0 = (receive s)(t' := store_line (line @ [0]) (receive s t'))" "string_len s0 = int (length line) + 1"
    by (auto simp: trap_tty_receive_hdl_def Let_def split: if_splits)
  from receive_scan_buffers [OF this(1)] this(2,3) have r: "receive u t = receive s t" "string_len u = int (length line) + 1"
    using assms(3,7,8) by simp_all
  have n: "nat (int (length line) + 1) = length line + 1" by simp
  have "mapped (u_page_table q) PROT_WRITE (io_buf q) (length (map (receive s t) [0..<length line + 1]))" using assms(11) by simp
  from vm_store_total [OF this] obtain m where
    m: "vm_store (pmem u) (u_page_table q) (io_buf q) (map (receive s t) [0..<length line + 1]) = Inr m" by blast
  then show ?thesis
    using assms(5,6,9,10) r n by (simp add: ttyread_resume_def Let_def set_pcb_def user_store_def del: upt_Suc)
qed

text \<open>
C38: the receive handler never returns when the first process of io_list is not the one that waits
for this terminal: its loop looks at the same process again and again, whatever fuel it is given.
\<close>

theorem tty_receive_hangs:
  assumes "0 \<le> uc_code uc" and "uc_code uc < NUM_TERMINALS" and "length line \<le> 1024"
    and "io_list s = a # rest" and "pcbs s a = Some p" and "\<not> (state p = BLOCKED_R \<and> tty_id p = uc_code uc)"
  shows "trap_tty_receive_hdl fuel line uc s = None"
proof -
  have scan: "receive_scan fuel (uc_code uc) (Some a) u = None" if "pcbs u a = Some p" for u fuel
    using that assms(6) by (induction fuel) auto
  have "klist_index (a # rest) 1 = Some a" by (simp add: klist_index_def in_range_def)
  then show ?thesis using assms(1-5) scan by (simp add: trap_tty_receive_hdl_def Let_def)
qed

text \<open>
The check of terminal numbers lets 4 through although the terminals are 0 to 3: TtyWrite then
reads busy_terminal out of its bounds.
\<close>

theorem tty_write_out_of_bounds:
  assumes "reg uc 0 = 4" and "0 < sint (reg uc 2)" and "VMEM_1_BASE \<le> reg uc 1"
    and "active_proc s = Some a" and "pcbs s a = Some p" and "length (busy_terminal s) = 4"
    and "\<not> (page_of (DOWN_TO_PAGE (reg uc 1 - VMEM_1_BASE)) \<ge> next_heap_pn p \<and>
             page_of (DOWN_TO_PAGE (reg uc 1 - VMEM_1_BASE)) \<le> next_stack_pn p)"
  shows "sys_TtyWrite uc s = Inl OutOfBounds"
proof -
  have "sint (reg uc 0) = 4" using assms(1) by simp
  then have "tty_loop uc (sint (reg uc 0)) (sint (reg uc 2)) s = Inl OutOfBounds"
    using assms(2,6) by (simp add: tty_loop_def)
  moreover have "\<not> reg uc 1 < VMEM_1_BASE" using assms(3) by (simp only: not_less)
  ultimately show ?thesis using assms(2,4,5,7) \<open>sint (reg uc 0) = 4\<close>
    by (simp add: sys_TtyWrite_def tty_id_ok_def Let_def del: VMEM_1_BASE_def)
qed

section \<open>Witnesses\<close>

theorem tty_write_exact_witness:
  "\<exists>s'. tty_loop (args 1 0x106000 3) 1 3 sample = Inr (Yield (K_TtyDone 1 0) s') \<and>
     hw s' = [HW_TtyTransmit 1 [0, 0, 0]] \<and> busy_terminal s' = [0, 1, 0, 0]"
proof -
  let ?p = "(sample_pcb 0 200)\<lparr>u_page_table := sample_table\<rparr>"
  have ld: "vm_load (pmem sample) sample_table 0x106000 3 = Inr bs \<Longrightarrow> bs = [0, 0, 0]" for bs
    using sample_page by (simp add: numeral_3_eq_3 translate_def sample_def)
  have "mapped (u_page_table ?p) PROT_READ (reg (args 1 0x106000 3) 1) (nat (min 3 1024))"
    using sample_mapped [of 1 3] by simp
  then show ?thesis
    using tty_write_exact [of sample 10 ?p 1 "args 1 0x106000 3" 3] ld by auto
qed

definition tty_sample :: kstate where
  "tty_sample = sample\<lparr>io_list := [20, 30], pcbs := (pcbs sample)(20 \<mapsto> (sample_pcb 1 202)\<lparr>state := BLOCKED_W, tty_id := 2\<rparr>,
     30 \<mapsto> (sample_pcb 2 204)\<lparr>state := BLOCKED_R, tty_id := 1\<rparr>)\<rparr>"

lemma tty_sample_fields [simp]:
  "io_list tty_sample = [20, 30]" "pcbs tty_sample 20 = Some ((sample_pcb 1 202)\<lparr>state := BLOCKED_W, tty_id := 2\<rparr>)"
  "pcbs tty_sample 30 = Some ((sample_pcb 2 204)\<lparr>state := BLOCKED_R, tty_id := 1\<rparr>)" "busy_terminal tty_sample = [0, 0, 0, 0]"
  "mem_ok tty_sample"
  by (simp_all add: tty_sample_def mem_ok_def)

theorem tty_transmit_exact_witness:
  "\<exists>s'. trap_tty_transmit_hdl (sample_uc\<lparr>uc_code := 2\<rparr>) tty_sample = Inr s' \<and> io_list s' = [30] \<and>
     ready_queue s' = [20, 30, 20]"
proof -
  have "\<exists>x\<in>set (io_list tty_sample). \<exists>p. pcbs tty_sample x = Some p \<and> state p = BLOCKED_W \<and> tty_id p = 2" by simp
  moreover have "ready_queue tty_sample = [20, 30]" by (simp add: tty_sample_def)
  ultimately show ?thesis
    using tty_transmit_exact [of tty_sample "sample_uc\<lparr>uc_code := 2\<rparr>"]
    by (auto simp: Let_def Cons_eq_append_conv)
qed

theorem tty_receive_hangs_witness:
  "trap_tty_receive_hdl 1000 [65] (sample_uc\<lparr>uc_code := 1\<rparr>) tty_sample = None"
  using tty_receive_hangs [of "sample_uc\<lparr>uc_code := 1\<rparr>" "[65]" tty_sample 20 "[30]" _ 1000] by simp

theorem tty_lengths_mixed_witness:
  "\<exists>s1 u u'. trap_tty_receive_hdl 1 [65, 66] (sample_uc\<lparr>uc_code := 2\<rparr>) (sample\<lparr>io_list := []\<rparr>) = Some (Inr s1) \<and>
     receive u = receive s1 \<and> ttyread_resume 1 u = Inr (Done (Some 3) u')"
proof -
  let ?q = "(sample_pcb 2 204)\<lparr>u_page_table := sample_table, io_buf := 0x106000\<rparr>"
  have map: "mapped (u_page_table ?q) PROT_WRITE (io_buf ?q) (length [65, 66 :: byte] + 1)"
    using sample_mapped [of 2 3] by (simp add: numeral_3_eq_3)
  have "\<exists>s1. trap_tty_receive_hdl 1 [65, 66] (sample_uc\<lparr>uc_code := 2\<rparr>) (sample\<lparr>io_list := []\<rparr>) = Some (Inr s1)"
    by (simp add: trap_tty_receive_hdl_def Let_def klist_index_def in_range_def)
  then obtain s1 where s1: "trap_tty_receive_hdl 1 [65, 66] (sample_uc\<lparr>uc_code := 2\<rparr>) (sample\<lparr>io_list := []\<rparr>) = Some (Inr s1)" by blast
  let ?u = "sample\<lparr>active_proc := Some 30, pcbs := [30 \<mapsto> ?q], receive := receive s1, string_len := string_len s1\<rparr>"
  obtain u' where "ttyread_resume 1 ?u = Inr (Done (Some 3) u')"
    using tty_lengths_mixed [OF s1, of 2 1 ?u 30 ?q] map by auto
  then show ?thesis using s1 by (intro exI [of _ s1] exI [of _ ?u] exI [of _ u'] conjI) simp_all
qed

theorem tty_read_round_trip_witness:
  "\<exists>s1 u u'. trap_tty_receive_hdl 1 [65, 66] (sample_uc\<lparr>uc_code := 1\<rparr>) (tty_sample\<lparr>io_list := [30]\<rparr>) = Some (Inr s1) \<and>
     ttyread_resume 1 u = Inr (Done (Some 3) u') \<and> receive u 1 = receive s1 1 \<and>
     vm_load (pmem u') sample_table 0x106000 3 = Inr [65, 66, 0]"
proof -
  let ?q = "(sample_pcb 2 204)\<lparr>u_page_table := sample_table, io_buf := 0x106000\<rparr>"
  let ?s = "tty_sample\<lparr>io_list := [30]\<rparr>" and ?uc = "sample_uc\<lparr>uc_code := 1\<rparr>"
  have map: "mapped (u_page_table ?q) PROT_WRITE (io_buf ?q) (length [65, 66 :: byte] + 1)"
    "mapped (u_page_table ?q) PROT_READ (io_buf ?q) (length [65, 66 :: byte] + 1)"
    using sample_mapped [of 1 3] sample_mapped [of 2 3] by (simp_all add: numeral_3_eq_3)
  have *: "\<exists>s1. trap_tty_receive_hdl (Suc 0) [65, 66] ?uc ?s = Some (Inr s1) \<and> io_list s1 = [] \<and>
     ready_queue s1 = ready_queue ?s @ [30] \<and>
     (receive u 1 = receive s1 1 \<and> string_len u = string_len s1 \<longrightarrow>
       (\<exists>u'. ttyread_resume 1 u = Inr (Done (Some (int (length [65, 66 :: byte]) + 1)) u') \<and>
          vm_load (pmem u') (u_page_table ?q) (io_buf ?q) (length [65, 66 :: byte] + 1) = Inr ([65, 66] @ [0])))"
    if "active_proc u = Some 30" "pcbs u 30 = Some ?q" for u
    by (rule tty_read_round_trip [OF _ _ _ _ _ _ _ _ _ that _ map, where p = "(sample_pcb 2 204)\<lparr>state := BLOCKED_R, tty_id := 1\<rparr>"])
      (use sample_frames_distinct in \<open>simp_all add: mem_ok_def\<close>, simp add: tty_sample_def)
  let ?u0 = "sample\<lparr>active_proc := Some 30, pcbs := [30 \<mapsto> ?q]\<rparr>"
  from * [of ?u0] obtain s1 where s1: "trap_tty_receive_hdl (Suc 0) [65, 66] ?uc ?s = Some (Inr s1)" by auto
  let ?u = "?u0\<lparr>receive := receive s1, string_len := string_len s1\<rparr>"
  from * [of ?u] s1 obtain u' where "ttyread_resume 1 ?u = Inr (Done (Some 3) u')"
    "vm_load (pmem u') sample_table 0x106000 3 = Inr [65, 66, 0]" by (auto simp: numeral_3_eq_3)
  then show ?thesis using s1 by (intro exI [of _ s1] exI [of _ ?u] exI [of _ u']) simp
qed

theorem tty_write_out_of_bounds_witness:
  "sys_TtyWrite (args 4 0x106000 3) sample = Inl OutOfBounds"
proof -
  have "DOWN_TO_PAGE (0x6000 :: u32) = 0x6000" by (simp add: DOWN_TO_PAGE_def PAGEMASK_def PAGEOFFSET_def)
  then have "page_of (DOWN_TO_PAGE (reg (args 4 0x106000 3) 1 - VMEM_1_BASE)) = 3" by (simp add: page_of_small)
  then show ?thesis
    using tty_write_out_of_bounds [of "args 4 0x106000 3" sample 10 "(sample_pcb 0 200)\<lparr>u_page_table := sample_table\<rparr>"]
    by simp
qed

end
