(* ===== verification/Loader.thy ===== *)
theory Loader
  imports Scheduler
begin

text \<open>
  loadprogram.c and sys_Exec: replacing the address space of a process by the program of an
  executable file. The host's files and the LoadInfo function that reads an executable's
  header are outside the repository; they are the parameter \<open>fs\<close>.
\<close>

section \<open>Executables\<close>

text \<open>The fields of struct load_info that the loader uses; addresses are C longs.\<close>

record load_info =
  li_entry :: u32
  t_vaddr :: u32
  t_faddr :: nat
  t_npg :: nat
  id_vaddr :: u32
  id_faddr :: nat
  id_npg :: nat
  ud_npg :: nat
  id_end :: u32
  ud_end :: u32

text \<open>
  What is behind a file name: the header, \<open>None\<close> when LoadInfo does not accept the file,
  and the bytes. \<open>fs name\<close> is \<open>None\<close> when the file cannot be opened.
\<close>

record program =
  prog_info :: "load_info option"
  prog_bytes :: "byte list"

definition INITIAL_STACK_FRAME_SIZE :: u32 where [simp]: "INITIAL_STACK_FRAME_SIZE = 0"
definition POST_ARGV_NULL_SPACE :: nat where [simp]: "POST_ARGV_NULL_SPACE = 0x20"

section \<open>Strings and argument vectors in user memory\<close>

lemma res_bind_cong [fundef_cong]:
  "r = r' \<Longrightarrow> (\<And>x. r' = Inr x \<Longrightarrow> f x = g x) \<Longrightarrow> res_bind r f = res_bind r' g"
  by (cases r') simp_all

lemma translate_range: "translate pt need a = Inr c \<Longrightarrow> 0x100000 \<le> unat a \<and> unat a < 0x200000"
  by (auto simp: translate_def Let_def split: if_splits)

lemma unat_next: "unat (a :: u32) < 0x200000 \<Longrightarrow> n < 8 \<Longrightarrow> unat (a + of_nat n) = unat a + n"
  by (simp add: unat_word_ariths unat_of_nat)

text \<open>A string ends with the first zero byte; running off the mapped memory is a fault.\<close>

function cstring :: "(nat \<Rightarrow> nat \<Rightarrow> byte) \<Rightarrow> pte list \<Rightarrow> u32 \<Rightarrow> byte list res" where
  "cstring m pt a =
     res_bind (translate pt PROT_READ a) (\<lambda>c.
       if m (fst c) (snd c) = 0 then Inr []
       else res_bind (cstring m pt (a + 1)) (\<lambda>bs. Inr (m (fst c) (snd c) # bs)))"
  by pat_completeness auto
termination
proof (relation "measure (\<lambda>(m, pt, a). 0x200000 - unat a)")
  fix m :: "nat \<Rightarrow> nat \<Rightarrow> byte" and pt a c
  assume "translate pt PROT_READ a = Inr c"
  then have "unat a < 0x200000" by (simp add: translate_range)
  then show "((m, pt, a + 1), m, pt, a) \<in> measure (\<lambda>(m, pt, a). 0x200000 - unat a)"
    using unat_next [of a 1] by simp
qed simp

text \<open>A pointer in memory, least significant byte first.\<close>

definition bytes_word :: "byte list \<Rightarrow> u32" where
  "bytes_word bs = word_of_int (horner_sum uint 256 bs)"

lemma vm_load_4_range:
  assumes "vm_load m pt a 4 = Inr bs"
  shows "unat a < 0x200000" and "unat (a + 4) = unat a + 4"
proof -
  from assms have "\<exists>c. translate pt PROT_READ a = Inr c"
    by (auto simp: numeral_eq_Suc simp del: PROT_READ_def)
  then show "unat a < 0x200000" using translate_range by blast
  then show "unat (a + 4) = unat a + 4" using unat_next [of a 4] by simp
qed

function argv :: "(nat \<Rightarrow> nat \<Rightarrow> byte) \<Rightarrow> pte list \<Rightarrow> u32 \<Rightarrow> byte list list res" where
  "argv m pt a =
     res_bind (vm_load m pt a 4) (\<lambda>p.
       if bytes_word p = 0 then Inr []
       else
         res_bind (cstring m pt (bytes_word p)) (\<lambda>x.
         res_bind (argv m pt (a + 4)) (\<lambda>xs. Inr (x # xs))))"
  by pat_completeness auto
termination
proof (relation "measure (\<lambda>(m, pt, a). 0x200000 - unat a)")
  fix m :: "nat \<Rightarrow> nat \<Rightarrow> byte" and pt a p
  assume "vm_load m pt a 4 = Inr p"
  then show "((m, pt, a + 4), m, pt, a) \<in> measure (\<lambda>(m, pt, a). 0x200000 - unat a)"
    using vm_load_4_range [of m pt a p] by simp
qed simp

declare cstring.simps [simp del] argv.simps [simp del]

section \<open>The layout of the new stack\<close>

definition args_size :: "byte list list \<Rightarrow> nat" where
  "args_size args = sum_list (map (\<lambda>x. length x + 1) args)"

text \<open>Where the strings go (cp), where argc and the pointers go (cpp), the stack pointer.\<close>

definition args_cp :: "byte list list \<Rightarrow> u32" where
  "args_cp args = VMEM_1_LIMIT - of_nat (args_size args)"

definition args_cpp :: "byte list list \<Rightarrow> u32" where
  "args_cpp args = (args_cp args - of_nat ((length args + 3 + POST_ARGV_NULL_SPACE) * 4)) AND NOT 7"

definition args_sp :: "byte list list \<Rightarrow> u32" where
  "args_sp args = args_cpp args - INITIAL_STACK_FRAME_SIZE"

definition stack_npg :: "byte list list \<Rightarrow> int" where
  "stack_npg args = page_of (VMEM_1_LIMIT - DOWN_TO_PAGE (args_sp args))"

definition text_pg1 :: "load_info \<Rightarrow> int" where
  "text_pg1 li = page_of (t_vaddr li - VMEM_1_BASE)"

definition data_pg1 :: "load_info \<Rightarrow> int" where
  "data_pg1 li = page_of (id_vaddr li - VMEM_1_BASE)"

definition data_npg :: "load_info \<Rightarrow> nat" where
  "data_npg li = id_npg li + ud_npg li"

section \<open>The new address space\<close>

text \<open>The loop that maps the stack, downwards from page \<open>i\<close>.\<close>

fun map_down :: "nat \<Rightarrow> int \<Rightarrow> pte list \<Rightarrow> nat list \<Rightarrow> (bool \<times> pte list \<times> nat list) res" where
  "map_down 0 i t ff = Inr (True, t, ff)"
| "map_down (Suc n) i t ff =
     (let (f, ff) = grab ff in
      if f = 0 then Inr (False, t, ff)
      else if 0 \<le> i \<and> i < int (length t) then
        map_down n (i - 1) (t[nat i := \<lparr>valid = True, prot = PROT_READ + PROT_WRITE, pfn = f\<rparr>]) ff
      else Inl OutOfBounds)"

text \<open>
  Free the old region 1, then map text, data and stack. \<open>False\<close> when a frame is missing;
  what was mapped until then stays.
\<close>

definition set_table :: "addr \<Rightarrow> pte list \<Rightarrow> nat list \<Rightarrow> kstate \<Rightarrow> kstate" where
  "set_table a t ff s = set_pcb a (\<lambda>p. p\<lparr>u_page_table := t\<rparr>) (s\<lparr>free_frames := ff\<rparr>)"

declare set_table_def [kernel_simps]

definition map_program :: "load_info \<Rightarrow> nat \<Rightarrow> addr \<Rightarrow> kstate \<Rightarrow> (bool \<times> kstate) res" where
  "map_program li n a s =
     res_bind (deref (pcbs s) a) (\<lambda>p.
     case free_table (u_page_table p) s of
       (t, s) \<Rightarrow>
     res_bind (map_range (text_pg1 li) (text_pg1 li + int (t_npg li)) t (free_frames s)) (\<lambda>(ok, t, ff).
     if \<not> ok then Inr (False, set_table a t ff s)
     else
     res_bind (map_range (data_pg1 li) (data_pg1 li + int (data_npg li)) t ff) (\<lambda>(ok, t, ff).
     if \<not> ok then Inr (False, set_table a t ff s)
     else
       let s = set_pcb a (\<lambda>p. p\<lparr>next_heap_pn := data_pg1 li + int (data_npg li)\<rparr>) s;
           top = page_of (VMEM_1_LIMIT - VMEM_1_BASE) - 1
       in
       res_bind (map_down n top t ff) (\<lambda>(ok, t, ff).
       if \<not> ok then Inr (False, set_table a t ff s)
       else
         let s = set_pcb a (\<lambda>p. p\<lparr>next_stack_pn := top - int n\<rparr>) (set_table a t ff s)
         in Inr (True, s\<lparr>hw := hw s @ [HW_TLB_FLUSH TLB_FLUSH_1]\<rparr>)))))"

text \<open>Writes through the page table of process \<open>a\<close>, which is the one in use.\<close>

definition proc_store :: "addr \<Rightarrow> u32 \<Rightarrow> byte list \<Rightarrow> kstate \<Rightarrow> kstate res" where
  "proc_store a v bs s =
     res_bind (deref (pcbs s) a) (\<lambda>p.
     res_bind (vm_store (pmem s) (u_page_table p) v bs) (\<lambda>m. Inr (s\<lparr>pmem := m\<rparr>)))"

text \<open>lseek and read: \<open>False\<close> when the file is too short.\<close>

definition read_segment :: "program \<Rightarrow> nat \<Rightarrow> u32 \<Rightarrow> nat \<Rightarrow> addr \<Rightarrow> kstate \<Rightarrow> (bool \<times> kstate) res" where
  "read_segment prog faddr v npg a s =
     (let n = npg * PAGESIZE; bs = take n (drop faddr (prog_bytes prog)) in
      res_bind (proc_store a v bs s) (\<lambda>s. Inr (length bs = n, s)))"

definition set_text_prot :: "load_info \<Rightarrow> addr \<Rightarrow> kstate \<Rightarrow> kstate res" where
  "set_text_prot li a s =
     res_bind (deref (pcbs s) a) (\<lambda>p.
     res_bind (fill (text_pg1 li) (text_pg1 li + int (t_npg li)) (\<lambda>_ e. e\<lparr>prot := PROT_READ + PROT_EXEC\<rparr>)
       (u_page_table p)) (\<lambda>t.
       Inr (set_pcb a (\<lambda>p. p\<lparr>u_page_table := t\<rparr>) s)))"

section \<open>Arguments on the new stack\<close>

fun put_args :: "addr \<Rightarrow> byte list list \<Rightarrow> u32 \<Rightarrow> u32 \<Rightarrow> kstate \<Rightarrow> (u32 \<times> kstate) res" where
  "put_args a [] cpp cp s = Inr (cpp, s)"
| "put_args a (x # xs) cpp cp s =
     res_bind (proc_store a cpp (int_bytes (uint cp)) s) (\<lambda>s.
     res_bind (proc_store a cp (x @ [0]) s) (\<lambda>s.
       put_args a xs (cpp + 4) (cp + of_nat (length x + 1)) s))"

definition build_args :: "byte list list \<Rightarrow> addr \<Rightarrow> kstate \<Rightarrow> kstate res" where
  "build_args args a s =
     (let cpp = args_cpp args in
      res_bind (proc_store a cpp (replicate (unat (VMEM_1_LIMIT - cpp)) 0) s) (\<lambda>s.
      res_bind (proc_store a cpp (int_bytes (int (length args))) s) (\<lambda>s.
      res_bind (put_args a args (cpp + 4) (args_cp args) s) (\<lambda>(cpp, s).
      res_bind (proc_store a cpp (int_bytes 0) s) (\<lambda>s.
        proc_store a (cpp + 4) (int_bytes 0) s)))))"

section \<open>load_program\<close>

text \<open>
  The steps after the checks. \<^const>\<open>KILL\<close> is the error code for a file that is too short.
\<close>

definition load_image :: "program \<Rightarrow> load_info \<Rightarrow> byte list list \<Rightarrow> addr \<Rightarrow> kstate \<Rightarrow> (int \<times> kstate) res" where
  "load_image prog li args a s =
     res_bind (map_program li (nat (stack_npg args)) a s) (\<lambda>(ok, s).
     if \<not> ok then Inr (ERROR, s)
     else
     res_bind (read_segment prog (t_faddr li) (t_vaddr li) (t_npg li) a s) (\<lambda>(ok, s).
     if \<not> ok then Inr (KILL, s)
     else
     res_bind (read_segment prog (id_faddr li) (id_vaddr li) (id_npg li) a s) (\<lambda>(ok, s).
     if \<not> ok then Inr (KILL, s)
     else
     res_bind (set_text_prot li a s) (\<lambda>s.
     res_bind (proc_store a (id_end li) (replicate (unat (ud_end li - id_end li)) 0) s) (\<lambda>s.
     let s = set_pcb a (\<lambda>p. p\<lparr>uctxt := (uctxt p)\<lparr>uc_pc := li_entry li\<rparr>\<rparr>) s in
     res_bind (build_args args a s) (\<lambda>s. Inr (0, s)))))))"

text \<open>The arguments are read only once the file has been accepted.\<close>

definition load_program ::
    "(byte list \<Rightarrow> program option) \<Rightarrow> byte list \<Rightarrow> byte list list res \<Rightarrow> addr \<Rightarrow> kstate \<Rightarrow> (int \<times> kstate) res" where
  "load_program fs name args a s =
     (case fs name of
        None \<Rightarrow> Inr (ERROR, s)
      | Some prog \<Rightarrow>
          (case prog_info prog of
             None \<Rightarrow> Inr (-1, s)
           | Some li \<Rightarrow>
               if sint (li_entry li) < sint VMEM_1_BASE then Inr (ERROR, s)
               else
                 res_bind args (\<lambda>args.
                 if stack_npg args + data_pg1 li + int (data_npg li) \<ge> int MAX_PT_LEN then Inr (ERROR, s)
                 else
                   let s = set_pcb a (\<lambda>p. p\<lparr>uctxt := (uctxt p)\<lparr>uc_sp := args_sp args\<rparr>\<rparr>) s in
                   (case malloc s of
                      (None, s) \<Rightarrow> Inr (ERROR, s)
                    | (Some _, s) \<Rightarrow> load_image prog li args a s))))"

section \<open>Exec\<close>

text \<open>Every result of the loader other than ERROR, KILL included, starts the program.\<close>

definition sys_Exec :: "(byte list \<Rightarrow> program option) \<Rightarrow> user_context \<Rightarrow> kstate \<Rightarrow> kres res" where
  "sys_Exec fs uc s =
     res_bind (deref_ptr (pcbs s) (active_proc s)) (\<lambda>me.
     if \<not> user_addr_ok (reg uc 1) me then Inr (Done (Some ERROR) s)
     else
       res_bind (cstring (pmem s) (u_page_table me) (reg uc 0)) (\<lambda>name.
       res_bind (load_program fs name (argv (pmem s) (u_page_table me) (reg uc 1)) (the (active_proc s)) s)
         (\<lambda>(rc, s).
         if rc = ERROR then Inr (Done (Some ERROR) s)
         else Inr (Restart (snd (return_initial_state s))))))"

end
