(* ===== verification/Traps.thy ===== *)
theory Traps
  imports Reclaim Semaphores Processes Terminals Loader
begin

text \<open>
  trap.c: the handlers behind the interrupt vector, the dispatch of system calls, and the
  execution of kernel code across context switches until some process is back in user mode.
\<close>

section \<open>Call numbers (yalnix.h, Linux version)\<close>

definition YALNIX_FORK :: u32 where [simp]: "YALNIX_FORK = 0xABCDEF01"
definition YALNIX_EXEC :: u32 where [simp]: "YALNIX_EXEC = 0xABCDEF02"
definition YALNIX_EXIT :: u32 where [simp]: "YALNIX_EXIT = 0xABCDEF03"
definition YALNIX_WAIT :: u32 where [simp]: "YALNIX_WAIT = 0xABCDEF04"
definition YALNIX_GETPID :: u32 where [simp]: "YALNIX_GETPID = 0xABCDEF05"
definition YALNIX_BRK :: u32 where [simp]: "YALNIX_BRK = 0xABCDEF06"
definition YALNIX_DELAY :: u32 where [simp]: "YALNIX_DELAY = 0xABCDEF07"
definition YALNIX_TTY_READ :: u32 where [simp]: "YALNIX_TTY_READ = 0xABCDEF21"
definition YALNIX_TTY_WRITE :: u32 where [simp]: "YALNIX_TTY_WRITE = 0xABCDEF22"
definition YALNIX_PIPE_INIT :: u32 where [simp]: "YALNIX_PIPE_INIT = 0xABCDEF48"
definition YALNIX_PIPE_READ :: u32 where [simp]: "YALNIX_PIPE_READ = 0xABCDEF49"
definition YALNIX_PIPE_WRITE :: u32 where [simp]: "YALNIX_PIPE_WRITE = 0xABCDEF4A"
definition YALNIX_LOCK_INIT :: u32 where [simp]: "YALNIX_LOCK_INIT = 0xABCDEF63"
definition YALNIX_LOCK_ACQUIRE :: u32 where [simp]: "YALNIX_LOCK_ACQUIRE = 0xABCDEF64"
definition YALNIX_LOCK_RELEASE :: u32 where [simp]: "YALNIX_LOCK_RELEASE = 0xABCDEF65"
definition YALNIX_CVAR_INIT :: u32 where [simp]: "YALNIX_CVAR_INIT = 0xABCDEF66"
definition YALNIX_CVAR_SIGNAL :: u32 where [simp]: "YALNIX_CVAR_SIGNAL = 0xABCDEF67"
definition YALNIX_CVAR_BROADCAST :: u32 where [simp]: "YALNIX_CVAR_BROADCAST = 0xABCDEF68"
definition YALNIX_CVAR_WAIT :: u32 where [simp]: "YALNIX_CVAR_WAIT = 0xABCDEF69"
definition YALNIX_RECLAIM :: u32 where [simp]: "YALNIX_RECLAIM = 0xABCDEF6A"
definition YALNIX_CUSTOM_0 :: u32 where [simp]: "YALNIX_CUSTOM_0 = 0xABCDEF70"
definition YALNIX_CUSTOM_1 :: u32 where [simp]: "YALNIX_CUSTOM_1 = 0xABCDEF71"
definition YALNIX_CUSTOM_2 :: u32 where [simp]: "YALNIX_CUSTOM_2 = 0xABCDEF72"

section \<open>System calls\<close>

text \<open>
  The switch of trap_kernel_hdl; \<open>fs\<close> is what sys_Exec finds on the host's file system. For
  an unknown code the variable ret is never assigned.
\<close>

definition trap_kernel_hdl ::
    "(byte list \<Rightarrow> program option) \<Rightarrow> user_context \<Rightarrow> kstate \<Rightarrow> kres res" where
  "trap_kernel_hdl fs uc s =
     (let code = word_of_int (uc_code uc) :: u32 in
      if code = YALNIX_BRK then sys_Brk uc s
      else if code = YALNIX_FORK then sys_Fork uc s
      else if code = YALNIX_EXEC then sys_Exec fs uc s
      else if code = YALNIX_EXIT then sys_Exit uc 0 s
      else if code = YALNIX_WAIT then sys_Wait uc s
      else if code = YALNIX_DELAY then sys_Delay uc s
      else if code = YALNIX_GETPID then
        res_bind (sys_Getpid s) (\<lambda>p. Inr (Done (Some p) s))
      else if code = YALNIX_TTY_READ then sys_TtyRead uc s
      else if code = YALNIX_TTY_WRITE then sys_TtyWrite uc s
      else if code = YALNIX_PIPE_INIT then sys_PipeInit uc s
      else if code = YALNIX_PIPE_READ then sys_PipeRead uc s
      else if code = YALNIX_PIPE_WRITE then sys_PipeWrite uc s
      else if code = YALNIX_LOCK_INIT then sys_LockInit uc s
      else if code = YALNIX_LOCK_ACQUIRE then sys_Acquire K_Acquire uc 0 s
      else if code = YALNIX_LOCK_RELEASE then
        res_bind (sys_Release (sint (reg uc 0)) s) (\<lambda>(rc, s). Inr (Done (Some rc) s))
      else if code = YALNIX_CVAR_INIT then sys_CvarInit uc s
      else if code = YALNIX_CVAR_SIGNAL then sys_CvarSignal uc s
      else if code = YALNIX_CVAR_BROADCAST then sys_CvarBroadcast uc s
      else if code = YALNIX_CVAR_WAIT then sys_CvarWait uc s
      else if code = YALNIX_RECLAIM then sys_Reclaim uc s
      else if code = YALNIX_CUSTOM_0 then sys_Custom_0 uc s
      else if code = YALNIX_CUSTOM_1 then sys_Custom_1 uc s
      else if code = YALNIX_CUSTOM_2 then sys_Custom_2 uc s
      else Inl UninitRead)"

text \<open>The kernel code after a call of normal_schedule that returned 0.\<close>

fun resume_k :: "kcont \<Rightarrow> user_context \<Rightarrow> kstate \<Rightarrow> kres res" where
  "resume_k K_Start uc s = Inr (Done None s)"
| "resume_k K_Sched uc s = Inr (Done None s)"
| "resume_k K_Delay uc s = Inr (Done (Some 0) s)"
| "resume_k K_Exit uc s = Inr (Done (Some 0) s)"
| "resume_k K_Sem uc s = Inr (Done (Some 0) s)"
| "resume_k (K_Wait status_ptr i) uc s = wait_resume status_ptr i s"
| "resume_k (K_TtyRead t) uc s = ttyread_resume t s"
| "resume_k (K_TtyBusy t remain) uc s = tty_loop uc t remain s"
| "resume_k (K_TtyDone t remain) uc s = tty_loop uc t remain s"
| "resume_k (K_PipeRead a pipe_id buf n exist) uc s = pipe_resume a pipe_id buf n exist s"
| "resume_k (K_Acquire l lock_id exist) uc s = acquire_resume K_Acquire l lock_id exist s"
| "resume_k (K_CvarWait cvar_id lock_id) uc s = cvar_resume uc cvar_id lock_id s"
| "resume_k (K_CvarAcquire l lock_id exist) uc s =
     res_bind (acquire_resume K_CvarAcquire l lock_id exist s) (\<lambda>r. Inr (cvar_rc r))"

section \<open>Other traps\<close>

definition trap_illegal_hdl :: "user_context \<Rightarrow> kstate \<Rightarrow> kres res" where
  "trap_illegal_hdl uc s = sys_Exit uc 1 s"

definition trap_math_hdl :: "user_context \<Rightarrow> kstate \<Rightarrow> kres res" where
  "trap_math_hdl uc s = sys_Exit uc 1 s"

definition trap_undefined_hdl :: "user_context \<Rightarrow> kstate \<Rightarrow> kres res" where
  "trap_undefined_hdl uc s = sys_Exit uc 1 s"

definition trap_disk_hdl :: "user_context \<Rightarrow> kstate \<Rightarrow> kres res" where
  "trap_disk_hdl uc s = Inr (Done None s)"

definition trap_memory_hdl :: "user_context \<Rightarrow> kstate \<Rightarrow> kres res" where
  "trap_memory_hdl uc s =
     res_bind (deref_ptr (pcbs s) (active_proc s)) (\<lambda>p.
     let a = the (active_proc s); pn_end = user_pn (uc_addr uc) - 1 in
     if pn_end \<le> next_stack_pn p \<and> pn_end > next_heap_pn p then
       res_bind (grow_stack (next_stack_pn p) pn_end (u_page_table p) (free_frames s)) (\<lambda>(t, ff).
         Inr (Done None (set_pcb a (\<lambda>p. p\<lparr>u_page_table := t, next_stack_pn := pn_end\<rparr>)
           (s\<lparr>free_frames := ff\<rparr>))))
     else sys_Exit uc 1 s)"

definition trap_clock_hdl :: "user_context \<Rightarrow> kstate \<Rightarrow> sched res" where
  "trap_clock_hdl uc s = res_bind (update_sleep_list s) (\<lambda>(_, s). do_scheduler uc s)"

section \<open>Running kernel code to the return to user mode\<close>

text \<open>
  Every caller of normal_schedule returns ERROR when it fails, goes on at once when it did
  not switch, and otherwise stays blocked while the process switched in runs its own rest.
  One unit of fuel per call of normal_schedule.
\<close>

fun run :: "nat \<Rightarrow> user_context \<Rightarrow> kres \<Rightarrow> (user_context \<times> kstate) res option" where
  "run fuel uc (Done r s) =
     Some (Inr (case r of None \<Rightarrow> uc | Some v \<Rightarrow> set_ret v uc, s))"
| "run fuel uc (Restart s) = Some (switched_in s)"
| "run 0 uc (Yield k s) = None"
| "run (Suc fuel) uc (Yield k s) =
     (case normal_schedule uc k s of
        Inl e \<Rightarrow> Some (Inl e)
      | Inr (SchedErr s) \<Rightarrow> Some (Inr (set_ret ERROR uc, s))
      | Inr (NoSwitch s) \<Rightarrow>
          (case resume_k k uc s of Inl e \<Rightarrow> Some (Inl e) | Inr r \<Rightarrow> run fuel uc r)
      | Inr (Switched k s) \<Rightarrow>
          (case switched_in s of
             Inl e \<Rightarrow> Some (Inl e)
           | Inr (uc, s) \<Rightarrow>
               (case resume_k k uc s of Inl e \<Rightarrow> Some (Inl e) | Inr r \<Rightarrow> run fuel uc r)))"

definition run_res :: "nat \<Rightarrow> user_context \<Rightarrow> kres res \<Rightarrow> (user_context \<times> kstate) res option" where
  "run_res fuel uc r = (case r of Inl e \<Rightarrow> Some (Inl e) | Inr r \<Rightarrow> run fuel uc r)"

text \<open>After do_scheduler the clock handler returns, whatever the scheduler's result.\<close>

definition run_sched :: "nat \<Rightarrow> user_context \<Rightarrow> sched res \<Rightarrow> (user_context \<times> kstate) res option" where
  "run_sched fuel uc r =
     (case r of
        Inl e \<Rightarrow> Some (Inl e)
      | Inr (SchedErr s) \<Rightarrow> Some (Inr (uc, s))
      | Inr (NoSwitch s) \<Rightarrow> Some (Inr (uc, s))
      | Inr (Switched k s) \<Rightarrow>
          (case switched_in s of
             Inl e \<Rightarrow> Some (Inl e)
           | Inr (uc, s) \<Rightarrow> run_res fuel uc (resume_k k uc s)))"

text \<open>
  The interrupt vector set up by init_int_vector: one trap, from user mode to user mode.
  \<open>line\<close> is the terminal input that a receive interrupt finds.
\<close>

definition int_vector ::
    "(byte list \<Rightarrow> program option) \<Rightarrow> nat \<Rightarrow> byte list \<Rightarrow> user_context \<Rightarrow> kstate \<Rightarrow>
     (user_context \<times> kstate) res option" where
  "int_vector fs fuel line uc s =
     (let v = uc_vector uc in
      if v = TRAP_KERNEL then run_res fuel uc (trap_kernel_hdl fs uc s)
      else if v = TRAP_CLOCK then run_sched fuel uc (trap_clock_hdl uc s)
      else if v = TRAP_ILLEGAL then run_res fuel uc (trap_illegal_hdl uc s)
      else if v = TRAP_MEMORY then run_res fuel uc (trap_memory_hdl uc s)
      else if v = TRAP_MATH then run_res fuel uc (trap_math_hdl uc s)
      else if v = TRAP_TTY_RECEIVE then
        map_option (\<lambda>r. res_bind r (\<lambda>s. Inr (uc, s))) (trap_tty_receive_hdl fuel line uc s)
      else if v = TRAP_TTY_TRANSMIT then
        Some (res_bind (trap_tty_transmit_hdl uc s) (\<lambda>s. Inr (uc, s)))
      else if v = TRAP_DISK then run_res fuel uc (trap_disk_hdl uc s)
      else if TRAP_DISK < v \<and> v < TRAP_VECTOR_SIZE then run_res fuel uc (trap_undefined_hdl uc s)
      else Some (Inl OutOfBounds))"

end
