(* ===== verification/Fault_Properties.thy ===== *)
theory Fault_Properties
  imports User_Samples Traps
begin

text \<open>Memory faults: growth of the user stack.\<close>

text \<open>The frame for the \<open>n\<close>-th new page; 0 once the free list is empty.\<close>

definition nth_frame :: "nat list \<Rightarrow> nat \<Rightarrow> nat" where
  "nth_frame ff n = (if n < length ff then ff ! n else 0)"

lemma grab_frames: "grab ff = (nth_frame ff 0, drop 1 ff)"
  by (cases ff) (simp_all add: nth_frame_def)

lemma nth_frame_drop: "nth_frame (drop (Suc 0) ff) n = nth_frame ff (Suc n)"
  by (cases ff) (auto simp: nth_frame_def)

lemma grow_stack_exact:
  "-1 \<le> e \<Longrightarrow> i < int (length t) \<Longrightarrow> \<exists>t'. grow_stack i e t ff = Inr (t', drop (nat (i - e)) ff) \<and> length t' = length t \<and>
     (\<forall>j<length t. t' ! j = (if e < int j \<and> int j \<le> i then rw_entry (nth_frame ff (nat (i - int j))) else t ! j))"
proof (induction i e t ff rule: grow_stack.induct)
  case (1 i e t ff)
  note step = grow_stack_step [OF grab_frames, of i e t ff]
  show ?case
  proof (cases "i > e")
    case False
    then show ?thesis using step by auto
  next
    case True
    let ?t = "t[nat i := rw_entry (nth_frame ff 0)]"
    have rw: "rw_entry f = \<lparr>valid = True, prot = PROT_WRITE + PROT_READ, pfn = f\<rparr>" for f by (simp add: rw_entry_def)
    from "1.IH" [OF True _ grab_frames [symmetric] refl] True "1.prems" obtain t' where
      t': "grow_stack (i - 1) e ?t (drop 1 ff) = Inr (t', drop (nat (i - 1 - e)) (drop 1 ff))" "length t' = length t"
      "\<forall>j<length t. t' ! j = (if e < int j \<and> int j \<le> i - 1 then rw_entry (nth_frame (drop 1 ff) (nat (i - 1 - int j))) else ?t ! j)"
      unfolding rw by auto
    have g: "grow_stack i e t ff = Inr (t', drop (nat (i - e)) ff)"
    proof -
      have "nat (i - 1 - e) + 1 = nat (i - e)" using True by simp
      then have "drop (nat (i - 1 - e)) (drop 1 ff) = drop (nat (i - e)) ff" by (simp only: drop_drop)
      then show ?thesis using step t'(1) True "1.prems" unfolding rw by simp
    qed
    have "t' ! j = (if e < int j \<and> int j \<le> i then rw_entry (nth_frame ff (nat (i - int j))) else t ! j)" if j: "j < length t" for j
    proof (cases "int j = i")
      case True
      then show ?thesis using t'(3) [rule_format, OF j] j \<open>i > e\<close> by auto
    next
      case False
      then have same: "?t ! j = t ! j" using True "1.prems" by (intro nth_list_update_neq) auto
      have "int j < i \<Longrightarrow> nth_frame (drop 1 ff) (nat (i - 1 - int j)) = nth_frame ff (nat (i - int j))"
        by (simp add: nth_frame_drop Suc_nat_eq_nat_zadd1)
      then show ?thesis using t'(3) [rule_format, OF j] False unfolding same by (auto simp del: One_nat_def)
    qed
    then show ?thesis using g t'(2) by blast
  qed
qed

text \<open>
C31: growth of the stack, for a process whose break is not below region 1. A fault at an address whose page is above the heap's end by at least two
pages and not above the page under the stack maps every page from the faulting one up to the
stack, readable and writable, with frames from the head of the free list in order; all other
pages stay as they are, and if the page was not mapped before, the access that faulted can go
on. When the free list runs out the remaining pages are mapped all the same, to frame 0.
\<close>

theorem stack_growth_exact:
  assumes "active_proc s = Some a" and "pcbs s a = Some p" and "length (u_page_table p) = 128"
    and "next_stack_pn p < 128" and "-1 \<le> next_heap_pn p" and "e = user_pn (uc_addr uc) - 1"
    and "next_heap_pn p < e" and "e \<le> next_stack_pn p"
  shows "\<exists>t. trap_memory_hdl uc s = Inr (Done None (s\<lparr>free_frames := drop (nat (next_stack_pn p - e)) (free_frames s),
       pcbs := (pcbs s)(a \<mapsto> p\<lparr>u_page_table := t, next_stack_pn := e\<rparr>)\<rparr>)) \<and> length t = 128 \<and>
     (\<forall>j<128. t ! j = (if e < int j \<and> int j \<le> next_stack_pn p
        then rw_entry (nth_frame (free_frames s) (nat (next_stack_pn p - int j))) else u_page_table p ! j)) \<and>
     (0x100000 \<le> uint (uc_addr uc) \<and> uint (uc_addr uc) < 0x200000 \<and> e < next_stack_pn p \<longrightarrow>
        (\<exists>c. translate t PROT_WRITE (uc_addr uc) = Inr c))"
proof -
  have "-1 \<le> e" "next_stack_pn p < int (length (u_page_table p))" using assms by simp_all
  from grow_stack_exact [OF this, of "free_frames s"] assms(3) obtain t where
    g: "grow_stack (next_stack_pn p) e (u_page_table p) (free_frames s) = Inr (t, drop (nat (next_stack_pn p - e)) (free_frames s))"
    and t: "length t = 128" "\<forall>j<128. t ! j = (if e < int j \<and> int j \<le> next_stack_pn p
        then rw_entry (nth_frame (free_frames s) (nat (next_stack_pn p - int j))) else u_page_table p ! j)"
    by auto
  have run: "trap_memory_hdl uc s = Inr (Done None (s\<lparr>free_frames := drop (nat (next_stack_pn p - e)) (free_frames s),
       pcbs := (pcbs s)(a \<mapsto> p\<lparr>u_page_table := t, next_stack_pn := e\<rparr>)\<rparr>))"
    using assms(1,2,7,8) g unfolding assms(6) by (simp add: trap_memory_hdl_def Let_def set_pcb_def)
  have "\<exists>c. translate t PROT_WRITE (uc_addr uc) = Inr c"
    if a: "0x100000 \<le> uint (uc_addr uc)" "uint (uc_addr uc) < 0x200000" and lt: "e < next_stack_pn p"
  proof -
    let ?n = "unat (uc_addr uc)"
    have u: "uint (uc_addr uc) = int ?n" by simp
    have n: "0x100000 \<le> ?n" "?n < 0x200000" using a unfolding u by linarith+
    have "user_pn (uc_addr uc) = (uint (uc_addr uc) - 0x100000) div 8192" using a by (intro user_pn_region1) simp_all
    also have "\<dots> = int ((?n - 0x100000) div 8192)"
    proof -
      have "int (?n - 0x100000) = uint (uc_addr uc) - 0x100000" using n(1) unfolding u by linarith
      then show ?thesis by (simp only: zdiv_int of_nat_numeral)
    qed
    finally have pn: "int ((?n - 0x100000) div 8192) = e + 1" using assms(6) by simp
    have "(?n - 0x100000) div 8192 < 128" using n by simp
    with t pn lt have "valid (t ! ((?n - 0x100000) div 8192))" "prot (t ! ((?n - 0x100000) div 8192)) = 3"
      by (simp_all add: rw_entry_def)
    then show ?thesis using n t(1) by (simp add: translate_def Let_def)
  qed
  then show ?thesis using run t by blast
qed

theorem stack_growth_exact_witness:
  "\<exists>s'. trap_memory_hdl (sample_uc\<lparr>uc_addr := 0x1FB000\<rparr>) sample = Inr (Done None s') \<and>
     free_frames s' = [402, 403, 404]"
proof -
  let ?p = "(sample_pcb 0 200)\<lparr>u_page_table := sample_table\<rparr>"
  have "user_pn 0x1FB000 = 125" by (subst user_pn_region1) simp_all
  then obtain t where "trap_memory_hdl (sample_uc\<lparr>uc_addr := 0x1FB000\<rparr>) sample =
      Inr (Done None (sample\<lparr>free_frames := drop (nat (next_stack_pn ?p - 124)) (free_frames sample),
       pcbs := (pcbs sample)(10 \<mapsto> ?p\<lparr>u_page_table := t, next_stack_pn := 124\<rparr>)\<rparr>))"
    using stack_growth_exact [of sample 10 ?p 124 "sample_uc\<lparr>uc_addr := 0x1FB000\<rparr>"] sample_page(2) by auto
  then show ?thesis by simp
qed

end
