(* ===== verification/Memory_View.thy ===== *)
theory Memory_View
  imports User_Memory Loader
begin

text \<open>
  Memory as a process sees it: the byte at a virtual address. Stores through a page table that
  maps no frame twice change exactly the bytes of their range; loads, strings and argument
  vectors depend on the bytes only.
\<close>

definition byte_at :: "(nat \<Rightarrow> nat \<Rightarrow> byte) \<Rightarrow> pte list \<Rightarrow> u32 \<Rightarrow> byte option" where
  "byte_at m pt x = (case translate pt PROT_READ x of Inl _ \<Rightarrow> None | Inr (f, i) \<Rightarrow> Some (m f i))"

lemma byte_at_Some: "byte_at m pt x = Some b \<Longrightarrow> \<exists>f i. translate pt PROT_READ x = Inr (f, i) \<and> m f i = b"
  by (auto simp: byte_at_def split: sum.splits prod.splits)

lemma vm_load_bytes:
  "length bs = n \<Longrightarrow> (\<And>k. k < n \<Longrightarrow> byte_at m pt (a + of_nat k) = Some (bs ! k)) \<Longrightarrow> vm_load m pt a n = Inr bs"
proof (induction n arbitrary: a bs)
  case (Suc n)
  then obtain b bs' where bs: "bs = b # bs'" by (cases bs) auto
  have "byte_at m pt a = Some b" using Suc.prems(2) [of 0] bs by simp
  then obtain f i where "translate pt PROT_READ a = Inr (f, i)" "m f i = b" using byte_at_Some by blast
  moreover have "vm_load m pt (a + 1) n = Inr bs'"
  proof (rule Suc.IH)
    show "byte_at m pt (a + 1 + of_nat k) = Some (bs' ! k)" if "k < n" for k
      using Suc.prems(2) [of "Suc k"] that bs by (simp add: add.assoc)
  qed (use Suc.prems(1) bs in simp)
  ultimately show ?case using bs by (simp del: PROT_READ_def)
qed simp

text \<open>A range of addresses that can be read and written.\<close>

definition rw_range :: "pte list \<Rightarrow> u32 \<Rightarrow> nat \<Rightarrow> bool" where
  "rw_range pt a n \<longleftrightarrow> mapped pt PROT_READ a n \<and> mapped pt PROT_WRITE a n"

lemma rw_range_sub: "rw_range pt a n \<Longrightarrow> i + k \<le> n \<Longrightarrow> rw_range pt (a + of_nat i) k"
proof -
  assume r: "rw_range pt a n" and le: "i + k \<le> n"
  have "a + of_nat i + of_nat j = a + of_nat (i + j)" for j by (simp add: add.assoc)
  then show ?thesis using r le unfolding rw_range_def mapped_def by (metis add_less_cancel_left less_le_trans)
qed

text \<open>The bytes after a store.\<close>

lemma byte_at_store:
  assumes dist: "frames_distinct pt" and rw: "rw_range pt a (length bs)" and len: "length bs < 2 ^ 32"
    and st: "vm_store m pt a bs = Inr m'"
  shows "byte_at m' pt x = (if unat (x - a) < length bs then Some (bs ! unat (x - a)) else byte_at m pt x)"
  using rw len st
proof (induction bs arbitrary: a m)
  case (Cons b bs)
  then obtain f i where w: "translate pt PROT_WRITE a = Inr (f, i)"
    and st: "vm_store (m(f := (m f)(i := b))) pt (a + 1) bs = Inr m'"
    by (auto simp del: PROT_WRITE_def)
  let ?m = "m(f := (m f)(i := b))"
  have rd: "translate pt PROT_READ a = Inr (f, i)"
    using Cons.prems(1) translate_same [OF _ w] by (auto simp: rw_range_def mapped_Suc simp del: PROT_READ_def)
  have "rw_range pt (a + of_nat 1) (length bs)" by (rule rw_range_sub [OF Cons.prems(1)]) simp
  then have ih: "byte_at m' pt x = (if unat (x - (a + 1)) < length bs then Some (bs ! unat (x - (a + 1))) else byte_at ?m pt x)"
    using Cons.IH [OF _ _ st] Cons.prems(2) by simp
  have here: "byte_at ?m pt x = (if x = a then Some b else byte_at m pt x)"
  proof (cases "x = a")
    case True
    then show ?thesis using rd by (simp add: byte_at_def del: PROT_READ_def)
  next
    case False
    have "translate pt PROT_READ x \<noteq> Inr (f, i)" using False translate_inj [OF dist _ rd] by blast
    then show ?thesis using False by (auto simp: byte_at_def split: sum.splits)
  qed
  show ?case
  proof (cases "x = a")
    case True
    have "unat (a - (a + 1)) = 2 ^ 32 - 1" by (simp add: unsigned_minus_1_eq_mask mask_eq_exp_minus_1)
    then show ?thesis using ih here True Cons.prems(2) by simp
  next
    case False
    have "unat (x - a) = Suc (unat (x - (a + 1)))"
    proof -
      have e: "1 + (x - (a + 1)) = x - a" by simp
      have "1 + (x - (a + 1)) \<noteq> 0" unfolding e using False by simp
      then have "unat (1 + (x - (a + 1))) = Suc (unat (x - (a + 1)))" by (rule unatSuc)
      then show ?thesis unfolding e .
    qed
    then show ?thesis using ih here False by simp
  qed
qed simp

section \<open>Words, strings and argument vectors\<close>

lemma bytes_word_int_bytes: "bytes_word (int_bytes v) = word_of_int v"
proof -
  have split: "v mod (256 * n) = v mod 256 + 256 * (v div 256 mod n)" if "0 \<le> n" for v n :: int
    using that zmod_zmult2_eq [of n v 256] by simp
  have d: "v div 65536 = v div 256 div 256" "v div 16777216 = v div 256 div 256 div 256"
    using zdiv_zmult2_eq [of 256 v 256] zdiv_zmult2_eq [of 256 "v div 256" 256] zdiv_zmult2_eq [of 65536 v 256] by simp_all
  have "v mod 4294967296 = v mod 256 + 256 * (v div 256 mod 16777216)" using split [of 16777216 v] by simp
  also have "v div 256 mod 16777216 = v div 256 mod 256 + 256 * (v div 256 div 256 mod 65536)"
    using split [of 65536 "v div 256"] by simp
  also have "v div 256 div 256 mod 65536 = v div 256 div 256 mod 256 + 256 * (v div 256 div 256 div 256 mod 256)"
    using split [of 256 "v div 256 div 256"] by simp
  finally have m: "v mod 4294967296 = v mod 256 + 256 * (v div 256 mod 256 + 256 * (v div 65536 mod 256 + 256 * (v div 16777216 mod 256)))"
    unfolding d .
  have ib: "int_bytes v = [word_of_int v, word_of_int (v div 256), word_of_int (v div 65536), word_of_int (v div 16777216)]"
    by (simp add: int_bytes_def upt_rec)
  have u8: "uint (word_of_int w :: byte) = w mod 256" for w by (simp add: uint_word_of_int)
  have "horner_sum uint 256 (int_bytes v) = v mod 4294967296"
    unfolding m ib horner_sum_simps u8 by (simp only: mult_zero_right add_0_right)
  moreover have "(word_of_int (v mod 4294967296) :: u32) = word_of_int v"
    by (rule word_uint_eq_iff [THEN iffD2]) (simp add: uint_word_of_int)
  ultimately show ?thesis by (simp only: bytes_word_def)
qed

text \<open>The word \<open>v\<close> is stored at \<open>a\<close>; the string \<open>x\<close> and its final zero are stored at \<open>a\<close>.\<close>

definition bytes_are :: "(nat \<Rightarrow> nat \<Rightarrow> byte) \<Rightarrow> pte list \<Rightarrow> u32 \<Rightarrow> byte list \<Rightarrow> bool" where
  "bytes_are m pt a bs \<longleftrightarrow> (\<forall>k<length bs. byte_at m pt (a + of_nat k) = Some (bs ! k))"

lemma bytes_are_load: "bytes_are m pt a bs \<Longrightarrow> vm_load m pt a (length bs) = Inr bs"
  by (rule vm_load_bytes) (simp_all add: bytes_are_def)

lemma bytes_are_Cons: "bytes_are m pt a (b # bs) \<longleftrightarrow> byte_at m pt a = Some b \<and> bytes_are m pt (a + 1) bs"
  by (simp add: bytes_are_def All_less_Suc2 add.assoc)

lemma cstring_bytes: "bytes_are m pt a (x @ [0]) \<Longrightarrow> 0 \<notin> set x \<Longrightarrow> cstring m pt a = Inr x"
proof (induction x arbitrary: a)
  case Nil
  then obtain f i where "translate pt PROT_READ a = Inr (f, i)" "m f i = 0"
    using byte_at_Some by (fastforce simp: bytes_are_Cons)
  then show ?case by (subst cstring.simps) (simp del: PROT_READ_def)
next
  case (Cons b x)
  then obtain f i where t: "translate pt PROT_READ a = Inr (f, i)" "m f i = b"
    using byte_at_Some by (fastforce simp: bytes_are_Cons)
  have "cstring m pt (a + 1) = Inr x" using Cons by (simp add: bytes_are_Cons)
  then show ?case using t Cons.prems(2) by (subst cstring.simps) (auto simp del: PROT_READ_def)
qed

text \<open>A NULL-terminated vector of pointers at \<open>cpp\<close> to strings that follow each other from \<open>cp\<close>.\<close>

fun argv_at :: "(nat \<Rightarrow> nat \<Rightarrow> byte) \<Rightarrow> pte list \<Rightarrow> u32 \<Rightarrow> u32 \<Rightarrow> byte list list \<Rightarrow> bool" where
  "argv_at m pt cpp cp [] \<longleftrightarrow> bytes_are m pt cpp (int_bytes 0)"
| "argv_at m pt cpp cp (x # xs) \<longleftrightarrow> bytes_are m pt cpp (int_bytes (uint cp)) \<and> bytes_are m pt cp (x @ [0]) \<and>
     argv_at m pt (cpp + 4) (cp + of_nat (length x + 1)) xs"

lemma int_bytes_length [simp]: "length (int_bytes v) = 4"
  by (simp add: int_bytes_def)

lemma argv_at_argv:
  "argv_at m pt cpp cp xs \<Longrightarrow> \<forall>x\<in>set xs. 0 \<notin> set x \<Longrightarrow> argv m pt cpp = Inr xs"
proof (induction xs arbitrary: cpp cp)
  case Nil
  then have "vm_load m pt cpp 4 = Inr (int_bytes 0)" using bytes_are_load by fastforce
  then show ?case by (subst argv.simps) (simp add: bytes_word_int_bytes)
next
  case (Cons x xs)
  have p: "vm_load m pt cpp 4 = Inr (int_bytes (uint cp))" using Cons.prems(1) bytes_are_load by fastforce
  have x: "cstring m pt cp = Inr x" using Cons.prems by (intro cstring_bytes) simp_all
  have "\<exists>c. translate pt PROT_READ cp = Inr c" using x by (subst (asm) cstring.simps) (auto simp del: PROT_READ_def)
  then have "cp \<noteq> 0" using translate_range by fastforce
  moreover have "argv m pt (cpp + 4) = Inr xs"
    using Cons.IH [of "cpp + 4" "cp + of_nat (length x + 1)"] Cons.prems by simp
  ultimately show ?case using p x by (subst argv.simps) (simp add: bytes_word_int_bytes)
qed

end
