(* ===== verification/Argument_Vector.thy ===== *)
theory Argument_Vector
  imports Memory_View
begin

text \<open>The arguments that load_program builds on the new stack can be read back from there.\<close>

lemma unat_range: "unat (v :: u32) + n \<le> 2 ^ 32 \<Longrightarrow> unat (x - v) < n \<longleftrightarrow> unat v \<le> unat x \<and> unat x < unat v + n"
proof (cases "v \<le> x")
  case True
  then show ?thesis by (auto simp: unat_sub word_le_nat_alt)
next
  case False
  assume le: "unat v + n \<le> 2 ^ 32"
  from False have lt: "unat x < unat v" by (simp add: word_le_nat_alt)
  have "unat (x - v) = unat x + 2 ^ 32 - unat v"
    using lt unsigned_less [of v, where ?'a = nat] by (simp add: unat_sub_if_size word_size)
  then show ?thesis using lt le by auto
qed

lemma unat_add_small: "unat (v :: u32) + n < 2 ^ 32 \<Longrightarrow> unat (v + of_nat n) = unat v + n"
  by (simp add: unat_word_ariths unat_of_nat)

section \<open>One store\<close>

lemma proc_store_bytes:
  assumes "pcbs s a = Some p" and "frames_distinct (u_page_table p)" and "rw_range (u_page_table p) v (length bs)"
    and "unat v + length bs \<le> 0x200000"
  obtains m where "proc_store a v bs s = Inr (s\<lparr>pmem := m\<rparr>)"
    and "\<forall>x. byte_at m (u_page_table p) x = (if unat v \<le> unat x \<and> unat x < unat v + length bs
           then Some (bs ! (unat x - unat v)) else byte_at (pmem s) (u_page_table p) x)"
proof -
  let ?t = "u_page_table p"
  have "mapped ?t PROT_WRITE v (length bs)" using assms(3) by (simp add: rw_range_def)
  from vm_store_total [OF this] obtain m where m: "vm_store (pmem s) ?t v bs = Inr m" by blast
  have len: "length bs < 2 ^ 32" "unat v + length bs \<le> 2 ^ 32" using assms(4) by simp_all
  have "byte_at m ?t x = (if unat v \<le> unat x \<and> unat x < unat v + length bs
           then Some (bs ! (unat x - unat v)) else byte_at (pmem s) ?t x)" for x
  proof -
    have "unat (x - v) = unat x - unat v" if "unat v \<le> unat x" using that by (simp add: unat_sub word_le_nat_alt)
    then show ?thesis using byte_at_store [OF assms(2,3) len(1) m, of x] unat_range [OF len(2), of x] by auto
  qed
  then show thesis using that m assms(1) by (simp add: proc_store_def)
qed

lemma bytes_are_intro:
  assumes "\<And>x. unat v \<le> unat x \<Longrightarrow> unat x < unat v + length bs \<Longrightarrow> byte_at m pt x = Some (bs ! (unat x - unat v))"
    and "unat v + length bs \<le> 0x200000"
  shows "bytes_are m pt v bs"
  unfolding bytes_are_def
proof (intro allI impI)
  fix k assume "k < length bs"
  then have "unat (v + of_nat k) = unat v + k" using assms(2) by (intro unat_add_small) simp
  then show "byte_at m pt (v + of_nat k) = Some (bs ! k)" using assms(1) [of "v + of_nat k"] \<open>k < length bs\<close> by simp
qed

lemma bytes_are_cong: "bytes_are m pt v bs \<Longrightarrow> (\<And>x. byte_at m' pt x = byte_at m pt x) \<Longrightarrow> bytes_are m' pt v bs"
  by (simp add: bytes_are_def)

lemma argv_at_cong: "argv_at m pt cpp cp xs \<Longrightarrow> (\<And>x. byte_at m' pt x = byte_at m pt x) \<Longrightarrow> argv_at m' pt cpp cp xs"
  by (induction xs arbitrary: cpp cp) (auto intro: bytes_are_cong)

section \<open>The pointers and strings\<close>

lemma args_size_simps [simp]: "args_size [] = 0" "args_size (x # xs) = length x + 1 + args_size xs"
  by (simp_all add: args_size_def)

lemma rw_range_inside:
  assumes "rw_range pt b (0x200000 - unat b)" and "unat b \<le> unat v" and "unat v + n \<le> 0x200000"
  shows "rw_range pt v n"
proof -
  have "v = b + of_nat (unat v - unat b)" using assms(2) by (simp add: word_unat_eq_iff unat_word_ariths unat_of_nat)
  then show ?thesis using rw_range_sub [OF assms(1), of "unat v - unat b" n] assms(2,3) by simp
qed

lemma put_args_ok:
  assumes "pcbs s a = Some p" and "frames_distinct (u_page_table p)"
    and "rw_range (u_page_table p) b (0x200000 - unat b)" and "unat b \<le> unat cpp"
    and "unat cpp + 4 * length xs + 4 \<le> unat cp" and "unat cp + args_size xs \<le> 0x200000"
    and "\<And>x. unat cpp + 4 * length xs \<le> unat x \<Longrightarrow> unat x < unat cpp + 4 * length xs + 4 \<Longrightarrow>
           byte_at (pmem s) (u_page_table p) x = Some 0"
  shows "\<exists>m. put_args a xs cpp cp s = Inr (cpp + of_nat (4 * length xs), s\<lparr>pmem := m\<rparr>) \<and>
     argv_at m (u_page_table p) cpp cp xs \<and>
     (\<forall>x. unat x < unat cpp \<or> unat cpp + 4 * length xs \<le> unat x \<and> unat x < unat cp \<or> unat cp + args_size xs \<le> unat x \<longrightarrow>
        byte_at m (u_page_table p) x = byte_at (pmem s) (u_page_table p) x)"
  using assms(1,4-7)
proof (induction xs arbitrary: cpp cp s)
  case Nil
  let ?t = "u_page_table p"
  have "int_bytes 0 = [0, 0, 0, 0]" by (simp add: int_bytes_def upt_rec)
  then have z: "int_bytes 0 ! k = 0" if "k < 4" for k
    using that by (cases k; cases "k - 1"; cases "k - 2"; cases "k - 3") auto
  have "bytes_are (pmem s) ?t cpp (int_bytes 0)"
    using Nil.prems z by (intro bytes_are_intro) auto
  then show ?case by (intro exI [of _ "pmem s"]) simp
next
  case (Cons y xs)
  let ?t = "u_page_table p" and ?cpp = "cpp + 4" and ?cp = "cp + of_nat (length y + 1)"
  have u: "unat ?cpp = unat cpp + 4" "unat ?cp = unat cp + length y + 1"
    using Cons.prems unat_add_small [of cpp 4] unat_add_small [of cp "length y + 1"] by simp_all
  have r1: "rw_range ?t cpp (length (int_bytes (uint cp)))" "unat cpp + length (int_bytes (uint cp)) \<le> 0x200000"
    using Cons.prems by (auto intro!: rw_range_inside [OF assms(3)])
  from Cons.prems(1) assms(2) r1 obtain m1 where
    s1: "proc_store a cpp (int_bytes (uint cp)) s = Inr (s\<lparr>pmem := m1\<rparr>)"
    and m1: "\<forall>x. byte_at m1 ?t x = (if unat cpp \<le> unat x \<and> unat x < unat cpp + length (int_bytes (uint cp))
           then Some (int_bytes (uint cp) ! (unat x - unat cpp)) else byte_at (pmem s) ?t x)"
    by (rule proc_store_bytes)
  have r2: "pcbs (s\<lparr>pmem := m1\<rparr>) a = Some p" "rw_range ?t cp (length (y @ [0]))" "unat cp + length (y @ [0]) \<le> 0x200000"
    using Cons.prems by (auto intro!: rw_range_inside [OF assms(3)])
  from r2(1) assms(2) r2(2,3) obtain m2 where
    s2: "proc_store a cp (y @ [0]) (s\<lparr>pmem := m1\<rparr>) = Inr (s\<lparr>pmem := m1, pmem := m2\<rparr>)"
    and m2: "\<forall>x. byte_at m2 ?t x = (if unat cp \<le> unat x \<and> unat x < unat cp + length (y @ [0])
           then Some ((y @ [0]) ! (unat x - unat cp)) else byte_at (pmem (s\<lparr>pmem := m1\<rparr>)) ?t x)"
    by (rule proc_store_bytes)
  have "\<exists>m. put_args a xs ?cpp ?cp (s\<lparr>pmem := m2\<rparr>) = Inr (?cpp + of_nat (4 * length xs), s\<lparr>pmem := m2, pmem := m\<rparr>) \<and>
     argv_at m ?t ?cpp ?cp xs \<and>
     (\<forall>x. unat x < unat ?cpp \<or> unat ?cpp + 4 * length xs \<le> unat x \<and> unat x < unat ?cp \<or> unat ?cp + args_size xs \<le> unat x \<longrightarrow>
        byte_at m ?t x = byte_at (pmem (s\<lparr>pmem := m2\<rparr>)) ?t x)"
    using Cons.prems u by (intro Cons.IH) (auto simp: m1 m2)
  then obtain m where m: "put_args a xs ?cpp ?cp (s\<lparr>pmem := m2\<rparr>) = Inr (?cpp + of_nat (4 * length xs), s\<lparr>pmem := m\<rparr>)"
    "argv_at m ?t ?cpp ?cp xs"
    and same: "\<And>x. unat x < unat cpp + 4 \<or> unat cpp + 4 + 4 * length xs \<le> unat x \<and> unat x < unat cp + length y + 1 \<or>
      unat cp + length y + 1 + args_size xs \<le> unat x \<Longrightarrow> byte_at m ?t x = byte_at m2 ?t x"
    unfolding u by auto
  have "bytes_are m ?t cpp (int_bytes (uint cp))"
    using Cons.prems r1 by (intro bytes_are_intro) (auto simp: same m1 m2)
  moreover have "bytes_are m ?t cp (y @ [0])"
    using Cons.prems r2 by (intro bytes_are_intro) (auto simp: same m1 m2)
  moreover have "byte_at m ?t x = byte_at (pmem s) ?t x"
    if "unat x < unat cpp \<or> unat cpp + 4 * length (y # xs) \<le> unat x \<and> unat x < unat cp \<or> unat cp + args_size (y # xs) \<le> unat x" for x
    using that Cons.prems by (auto simp: same m1 m2)
  ultimately show ?case using s1 s2 m by (intro exI [of _ m]) (simp add: add.assoc)
qed

section \<open>Where things are\<close>

text \<open>The strings, the pointers and the reserved words fit into region 1.\<close>

definition small_args :: "byte list list \<Rightarrow> bool" where
  "small_args xs \<longleftrightarrow> args_size xs + (length xs + 35) * 4 + 8 \<le> 0x100000"

lemma unat_and_not_7: "unat (w AND NOT 7 :: u32) = unat w div 8 * 8"
proof -
  have 7: "(7 :: u32) = mask 3" by (simp add: mask_eq_exp_minus_1)
  have "w AND NOT 7 = push_bit 3 (drop_bit 3 w)" unfolding 7 by (rule bit_word_eqI) (auto simp: bit_simps)
  then have "unat (w AND NOT 7) = unat (drop_bit 3 w * 8)" by (simp add: push_bit_eq_mult)
  also have "\<dots> = unat w div 8 * 8"
    using unsigned_less [of w, where ?'a = nat] by (simp add: unat_word_ariths unat_drop_bit_eq drop_bit_eq_div)
  finally show ?thesis .
qed

lemma args_layout:
  assumes "small_args xs"
  shows "unat (args_cp xs) = 0x200000 - args_size xs"
    and "unat (args_cpp xs) \<le> 0x200000 - args_size xs - (length xs + 35) * 4"
    and "0x200000 - args_size xs - (length xs + 35) * 4 < unat (args_cpp xs) + 8"
proof -
  let ?n = "(length xs + 35) * 4"
  have b: "args_size xs + ?n \<le> 0xFFFF8" using assms by (simp add: small_args_def)
  have sub: "unat (w - of_nat k :: u32) = unat w - k" if "k \<le> unat w" for w k
  proof -
    have "k < 2 ^ 32" using that unsigned_less [of w, where ?'a = nat] by simp
    then have "unat (of_nat k :: u32) = k" by (simp add: unat_of_nat)
    then show ?thesis using that by (simp add: unat_sub word_le_nat_alt)
  qed
  show cp: "unat (args_cp xs) = 0x200000 - args_size xs"
    unfolding args_cp_def using b sub [of "args_size xs" VMEM_1_LIMIT] by simp
  have "unat (args_cp xs - of_nat ((length xs + 3 + POST_ARGV_NULL_SPACE) * 4)) = 0x200000 - args_size xs - ?n"
    using b sub [of "(length xs + 3 + POST_ARGV_NULL_SPACE) * 4" "args_cp xs"] cp by simp
  then have e: "unat (args_cpp xs) = (0x200000 - args_size xs - ?n) div 8 * 8"
    unfolding args_cpp_def unat_and_not_7 by simp
  show "unat (args_cpp xs) \<le> 0x200000 - args_size xs - ?n"
    and "0x200000 - args_size xs - ?n < unat (args_cpp xs) + 8"
    unfolding e by (rule div_times_less_eq_dividend) (metis add.commute dividend_less_div_times zero_less_numeral)
qed

section \<open>build_args\<close>

lemma zero_bytes: "k < 4 \<Longrightarrow> int_bytes 0 ! k = 0"
proof -
  have "int_bytes 0 = replicate 4 0" by (simp add: int_bytes_def upt_rec numeral_eq_Suc)
  then show "k < 4 \<Longrightarrow> int_bytes 0 ! k = 0" by (simp only: nth_replicate)
qed

text \<open>Storing zeros over zeros changes nothing.\<close>

lemma store_zero_again:
  assumes "pcbs s a = Some p" and "frames_distinct (u_page_table p)" and "rw_range (u_page_table p) v 4"
    and "unat v + 4 \<le> 0x200000"
    and "\<And>x. unat v \<le> unat x \<Longrightarrow> unat x < unat v + 4 \<Longrightarrow> byte_at (pmem s) (u_page_table p) x = Some 0"
  obtains m where "proc_store a v (int_bytes 0) s = Inr (s\<lparr>pmem := m\<rparr>)"
    and "\<forall>x. byte_at m (u_page_table p) x = byte_at (pmem s) (u_page_table p) x"
proof -
  have r: "rw_range (u_page_table p) v (length (int_bytes 0))" "unat v + length (int_bytes 0) \<le> 0x200000"
    using assms(3,4) by simp_all
  from assms(1,2) r obtain m where m: "proc_store a v (int_bytes 0) s = Inr (s\<lparr>pmem := m\<rparr>)"
    "\<forall>x. byte_at m (u_page_table p) x = (if unat v \<le> unat x \<and> unat x < unat v + length (int_bytes 0)
           then Some (int_bytes 0 ! (unat x - unat v)) else byte_at (pmem s) (u_page_table p) x)"
    by (rule proc_store_bytes)
  have "byte_at m (u_page_table p) x = byte_at (pmem s) (u_page_table p) x" for x
    using m(2) assms(5) [of x] zero_bytes [of "unat x - unat v"] by auto
  with m(1) that show thesis by blast
qed

lemma build_args_ok:
  assumes p: "pcbs s a = Some p" and d: "frames_distinct (u_page_table p)" and small: "small_args xs"
    and rw: "rw_range (u_page_table p) (args_cpp xs) (0x200000 - unat (args_cpp xs))"
  shows "\<exists>m. build_args xs a s = Inr (s\<lparr>pmem := m\<rparr>) \<and>
     bytes_are m (u_page_table p) (args_cpp xs) (int_bytes (int (length xs))) \<and>
     argv_at m (u_page_table p) (args_cpp xs + 4) (args_cp xs) xs \<and>
     (\<forall>x. unat x < unat (args_cpp xs) \<longrightarrow> byte_at m (u_page_table p) x = byte_at (pmem s) (u_page_table p) x)"
proof -
  let ?t = "u_page_table p" and ?b = "args_cpp xs" and ?cp = "args_cp xs"
  let ?argc = "int_bytes (int (length xs))" and ?c = "args_cpp xs + 4 + of_nat (4 * length xs)"
  note lay = args_layout [OF small]
  have cp: "unat ?cp + args_size xs = 0x200000" "unat ?b + 4 * length xs + 140 \<le> unat ?cp"
    using lay small by (simp_all add: small_args_def)
  have lim: "unat (VMEM_1_LIMIT - ?b) = 0x200000 - unat ?b" using cp by (subst unat_sub) (simp_all add: word_le_nat_alt)
  have u: "unat (?b + 4) = unat ?b + 4" "unat ?c = unat ?b + 4 + 4 * length xs" "unat (?c + 4) = unat ?b + 8 + 4 * length xs"
  proof -
    show b4: "unat (?b + 4) = unat ?b + 4" using cp unat_add_small [of ?b 4] by simp
    show c: "unat ?c = unat ?b + 4 + 4 * length xs" using cp b4 by (subst unat_add_small) simp_all
    show "unat (?c + 4) = unat ?b + 8 + 4 * length xs" using cp c unat_add_small [of ?c 4] by simp
  qed
  let ?z = "replicate (unat (VMEM_1_LIMIT - ?b)) (0 :: byte)"
  have r1: "rw_range ?t ?b (length ?z)" "unat ?b + length ?z \<le> 0x200000" using rw cp by (simp_all only: length_replicate lim)
  from p d r1 obtain m1 where s1: "proc_store a ?b ?z s = Inr (s\<lparr>pmem := m1\<rparr>)"
    and "\<forall>x. byte_at m1 ?t x = (if unat ?b \<le> unat x \<and> unat x < unat ?b + length ?z
           then Some (?z ! (unat x - unat ?b)) else byte_at (pmem s) ?t x)"
    by (rule proc_store_bytes)
  then have m1: "\<forall>x. byte_at m1 ?t x = (if unat ?b \<le> unat x \<and> unat x < 0x200000 then Some 0 else byte_at (pmem s) ?t x)"
    using cp unfolding length_replicate lim by (auto simp del: VMEM_1_LIMIT_def)
  have r2: "pcbs (s\<lparr>pmem := m1\<rparr>) a = Some p" "rw_range ?t ?b (length ?argc)" "unat ?b + length ?argc \<le> 0x200000"
    using p cp by (auto intro!: rw_range_inside [OF rw])
  from r2(1) d r2(2,3) obtain m2 where s2: "proc_store a ?b ?argc (s\<lparr>pmem := m1\<rparr>) = Inr (s\<lparr>pmem := m1, pmem := m2\<rparr>)"
    and m2: "\<forall>x. byte_at m2 ?t x = (if unat ?b \<le> unat x \<and> unat x < unat ?b + length ?argc
           then Some (?argc ! (unat x - unat ?b)) else byte_at (pmem (s\<lparr>pmem := m1\<rparr>)) ?t x)"
    by (rule proc_store_bytes)
  have "\<exists>m. put_args a xs (?b + 4) ?cp (s\<lparr>pmem := m2\<rparr>) = Inr (?c, s\<lparr>pmem := m2, pmem := m\<rparr>) \<and>
     argv_at m ?t (?b + 4) ?cp xs \<and>
     (\<forall>x. unat x < unat (?b + 4) \<or> unat (?b + 4) + 4 * length xs \<le> unat x \<and> unat x < unat ?cp \<or> unat ?cp + args_size xs \<le> unat x \<longrightarrow>
        byte_at m ?t x = byte_at (pmem (s\<lparr>pmem := m2\<rparr>)) ?t x)"
    using cp u by (intro put_args_ok [OF _ d rw]) (auto simp: p m1 m2)
  then obtain m3 where s3: "put_args a xs (?b + 4) ?cp (s\<lparr>pmem := m2\<rparr>) = Inr (?c, s\<lparr>pmem := m3\<rparr>)"
    and av: "argv_at m3 ?t (?b + 4) ?cp xs"
    and m3: "\<And>x. unat x < unat ?b + 4 \<or> unat ?b + 4 + 4 * length xs \<le> unat x \<and> unat x < unat ?cp \<Longrightarrow> byte_at m3 ?t x = byte_at m2 ?t x"
    unfolding u by auto
  have zero: "byte_at m3 ?t x = Some 0" if "unat ?c \<le> unat x" "unat x < unat ?c + 8" for x
    using that cp u by (auto simp: m3 m2 m1)
  have r4: "pcbs (s\<lparr>pmem := m3\<rparr>) a = Some p" "rw_range ?t ?c 4" "unat ?c + 4 \<le> 0x200000"
    using p cp u by (auto intro!: rw_range_inside [OF rw])
  have "byte_at (pmem (s\<lparr>pmem := m3\<rparr>)) ?t x = Some 0" if "unat ?c \<le> unat x" "unat x < unat ?c + 4" for x
    using zero that by simp
  from r4(1) d r4(2,3) this obtain m4 where s4: "proc_store a ?c (int_bytes 0) (s\<lparr>pmem := m3\<rparr>) = Inr (s\<lparr>pmem := m3, pmem := m4\<rparr>)"
    and m4: "\<forall>x. byte_at m4 ?t x = byte_at (pmem (s\<lparr>pmem := m3\<rparr>)) ?t x"
    by (rule store_zero_again)
  have r5: "pcbs (s\<lparr>pmem := m4\<rparr>) a = Some p" "rw_range ?t (?c + 4) 4" "unat (?c + 4) + 4 \<le> 0x200000"
    using p cp u by (auto intro!: rw_range_inside [OF rw])
  have "byte_at (pmem (s\<lparr>pmem := m4\<rparr>)) ?t x = Some 0" if "unat (?c + 4) \<le> unat x" "unat x < unat (?c + 4) + 4" for x
    using zero [of x] that m4 u by simp
  from r5(1) d r5(2,3) this obtain m5 where s5: "proc_store a (?c + 4) (int_bytes 0) (s\<lparr>pmem := m4\<rparr>) = Inr (s\<lparr>pmem := m4, pmem := m5\<rparr>)"
    and m5: "\<forall>x. byte_at m5 ?t x = byte_at (pmem (s\<lparr>pmem := m4\<rparr>)) ?t x"
    by (rule store_zero_again)
  have same: "byte_at m5 ?t x = byte_at m3 ?t x" for x using m4 m5 by simp
  have "build_args xs a s = Inr (s\<lparr>pmem := m5\<rparr>)"
    using s1 s2 s3 s4 s5 by (simp add: build_args_def Let_def)
  moreover have "bytes_are m5 ?t ?b ?argc"
    using cp r2 by (intro bytes_are_intro) (auto simp: same m3 m2)
  moreover have "argv_at m5 ?t (?b + 4) ?cp xs" using av same by (rule argv_at_cong)
  moreover have "byte_at m5 ?t x = byte_at (pmem s) ?t x" if "unat x < unat ?b" for x
    using that by (auto simp: same m3 m2 m1)
  ultimately show ?thesis by blast
qed

end
