(* ===== verification/Isolation.thy ===== *)
theory Isolation
  imports Effects Traps
begin

text \<open>
  No trap makes two owners share a frame. Most handlers leave page tables and the free list
  alone; the others are clients of the frame contract.
\<close>

section \<open>Code that leaves frames alone\<close>

definition tables :: "pcb \<Rightarrow> pte list \<times> pte list" where
  "tables p = (u_page_table p, k_stack_pt p)"

definition quiet :: "kstate \<Rightarrow> kstate \<Rightarrow> bool" where
  "quiet s s' \<longleftrightarrow> free_frames s' = free_frames s \<and> krnl_page_table s' = krnl_page_table s \<and>
     initial_ks s' = initial_ks s \<and> malloc_fails s' = malloc_fails s \<and> fresh_pcb s' = fresh_pcb s \<and>
     malloc_cnt s \<le> malloc_cnt s' \<and>
     (\<forall>a. map_option tables (pcbs s' a) = map_option tables (pcbs s a))"

lemma quiet_refl [simp]: "quiet s s"
  by (simp add: quiet_def)

lemma quiet_trans: "quiet s t \<Longrightarrow> quiet t u \<Longrightarrow> quiet s u"
  by (auto simp: quiet_def)

lemma quiet_frames:
  assumes "quiet s s'"
  shows "frames_of s' a = frames_of s a"
proof (cases a)
  case (Proc b)
  have "map_option tables (pcbs s' b) = map_option tables (pcbs s b)" using assms by (simp add: quiet_def)
  with Proc show ?thesis by (cases "pcbs s' b"; cases "pcbs s b") (auto simp: tables_def)
qed (use assms in \<open>simp_all add: quiet_def\<close>)

text \<open>The arrays of a pcb have the sizes that kernel.h declares.\<close>

definition sized :: "pcb \<Rightarrow> bool" where
  "sized p \<longleftrightarrow> length (k_stack_pt p) = KERNEL_STACK_PAGETABLE_SIZE \<and> length (u_page_table p) = USER_PAGETABLE_SIZE"

lemma sized_upd [simp]:
  "sized (p\<lparr>children := c\<rparr>) = sized p" "sized (p\<lparr>next_stack_pn := i\<rparr>) = sized p" "sized (p\<lparr>next_heap_pn := i\<rparr>) = sized p"
  "sized (p\<lparr>kctxt := k\<rparr>) = sized p" "sized (p\<lparr>uctxt := u\<rparr>) = sized p"
  by (simp_all add: sized_def)

text \<open>The two pages of the kernel stack are mapped, always.\<close>

definition kstack_mapped :: "pte list \<Rightarrow> bool" where
  "kstack_mapped t \<longleftrightarrow> length t = 128 \<and> valid (t ! 126) \<and> valid (t ! 127)"

text \<open>The state of the machine between traps.\<close>

definition kernel_inv :: "kstate \<Rightarrow> bool" where
  "kernel_inv s \<longleftrightarrow> mem_ok s \<and> isolated (frames_of s) \<and> (\<forall>c. sized (fresh_pcb s c)) \<and> kstack_mapped (krnl_page_table s) \<and>
     (\<forall>a p. pcbs s a = Some p \<longrightarrow> a < malloc_cnt s \<and> sized p)"

lemma quiet_pcb: "quiet s s' \<Longrightarrow> pcbs s' a = Some p \<Longrightarrow> \<exists>q. pcbs s a = Some q \<and> tables q = tables p"
proof -
  assume q: "quiet s s'" and p: "pcbs s' a = Some p"
  from q have "map_option tables (pcbs s' a) = map_option tables (pcbs s a)" by (simp add: quiet_def)
  with p show ?thesis by (cases "pcbs s a") auto
qed

lemma quiet_inv:
  assumes "kernel_inv s" and "quiet s s'"
  shows "kernel_inv s'"
proof -
  have "frames_of s' = frames_of s" using quiet_frames [OF assms(2)] by blast
  moreover have "a < malloc_cnt s' \<and> sized p" if p: "pcbs s' a = Some p" for a p
  proof -
    from quiet_pcb [OF assms(2) p] obtain q where q: "pcbs s a = Some q" "tables q = tables p" by blast
    with assms(1) have "a < malloc_cnt s" "sized q" by (auto simp: kernel_inv_def)
    with q assms(2) show ?thesis by (auto simp: quiet_def tables_def sized_def)
  qed
  moreover have "mem_ok s' \<and> (\<forall>c. sized (fresh_pcb s' c)) \<and> kstack_mapped (krnl_page_table s')"
    using assms by (simp add: kernel_inv_def quiet_def mem_ok_def)
  ultimately show ?thesis using assms(1) by (simp add: kernel_inv_def)
qed

lemma quiet_set_pcb [simp]: "(\<And>p. tables (f p) = tables p) \<Longrightarrow> quiet s (set_pcb a f s)"
  by (auto simp: quiet_def set_pcb_def option.map_comp o_def)

lemma quiet_ready_insert [simp]: "quiet s (snd (ready_insert p s))"
  by (simp add: quiet_def ready_insert_eq)

lemma quiet_append: "klist_append xs x s = (rc, ys, s') \<Longrightarrow> quiet s s'"
  by (auto simp: quiet_def dest: klist_append_effect)

lemma quiet_malloc: "malloc s = (p, s') \<Longrightarrow> quiet s s'"
  by (auto simp: quiet_def dest: malloc_effect)

lemma quiet_store: "user_store a bs s = Inr s' \<Longrightarrow> quiet s s'"
  by (auto simp: quiet_def dest: user_store_effect)

lemma quiet_wake: "wake_loop j w s = (w', s') \<Longrightarrow> quiet s s'"
  by (auto simp: quiet_def dest: wake_loop_effect)

section \<open>The quiet system calls\<close>

lemma tables_upd [simp]:
  "tables (p\<lparr>state := a\<rparr>) = tables p" "tables (p\<lparr>children := c\<rparr>) = tables p"
  "tables (p\<lparr>uctxt := u\<rparr>) = tables p" "tables (p\<lparr>kctxt := k\<rparr>) = tables p"
  "tables (p\<lparr>ppid := i\<rparr>) = tables p" "tables (p\<lparr>tty_id := i\<rparr>) = tables p"
  "tables (p\<lparr>io_buf := b\<rparr>) = tables p" "tables (p\<lparr>io_len := i\<rparr>) = tables p"
  by (simp_all add: tables_def)

lemmas quiet_code = quiet_def set_pcb_def ready_insert_eq klist_append_eq malloc_def Let_def
  option.map_comp o_def

lemma delay_quiet: "sys_Delay uc s = Inr r \<Longrightarrow> quiet s (kres_state r)"
  by (auto simp: sys_Delay_def insert_sleep_list_def quiet_code split: if_splits option.splits)

lemma wait_quiet: "sys_Wait uc s = Inr r \<Longrightarrow> quiet s (kres_state r)"
  by (auto simp: sys_Wait_def reap_def quiet_code split: if_splits option.splits dest!: user_store_effect)

lemma wait_resume_quiet: "wait_resume a i s = Inr r \<Longrightarrow> quiet s (kres_state r)"
  by (auto simp: wait_resume_def reap_def quiet_code split: if_splits option.splits dest!: user_store_effect)

lemma tty_block_quiet: "tty_block t k s = Inr r \<Longrightarrow> quiet s (kres_state r)"
  by (auto simp: tty_block_def quiet_code split: if_splits option.splits)

lemma tty_read_quiet: "sys_TtyRead uc s = Inr r \<Longrightarrow> quiet s (kres_state r)"
  by (auto simp: sys_TtyRead_def quiet_code split: if_splits option.splits)

lemma tty_read_resume_quiet: "ttyread_resume t s = Inr r \<Longrightarrow> quiet s (kres_state r)"
  by (auto simp: ttyread_resume_def quiet_code split: if_splits option.splits dest!: user_store_effect)

lemma tty_loop_quiet: "tty_loop uc t n s = Inr r \<Longrightarrow> quiet s (kres_state r)"
  by (auto simp: tty_loop_def Let_def quiet_def split: if_splits dest!: tty_block_quiet)

lemma tty_write_quiet: "sys_TtyWrite uc s = Inr r \<Longrightarrow> quiet s (kres_state r)"
  by (auto simp: sys_TtyWrite_def Let_def split: if_splits dest!: tty_loop_quiet)


lemma pipe_init_quiet: "sys_PipeInit uc s = Inr r \<Longrightarrow> quiet s (kres_state r)"
  by (auto simp: sys_PipeInit_def quiet_code split: if_splits option.splits dest!: user_store_effect)

lemma pipe_take_quiet: "pipe_take a p buf n s = Inr r \<Longrightarrow> quiet s (kres_state r)"
proof -
  assume run: "pipe_take a p buf n s = Inr r"
  then obtain s1 where s1: "user_store buf (take (nat n) (pipe_buffer p)) s = Inr s1"
    by (auto simp: pipe_take_def)
  have "quiet s1 (kres_state r)"
    using run s1 by (auto simp: pipe_take_def Let_def malloc_def quiet_def ready_insert_eq split: if_splits list.splits)
  then show ?thesis using quiet_store [OF s1] by (rule quiet_trans [rotated])
qed

lemma pipe_loop_quiet: "pipe_read_loop a i buf n e s = Inr r \<Longrightarrow> quiet s (kres_state r)"
  by (auto simp: pipe_read_loop_def quiet_def klist_append_eq split: if_splits option.splits
      dest!: pipe_take_quiet)

lemma pipe_read_quiet: "sys_PipeRead uc s = Inr r \<Longrightarrow> quiet s (kres_state r)"
  by (auto simp: sys_PipeRead_def Let_def split: if_splits option.splits dest!: pipe_loop_quiet)

lemma pipe_resume_quiet: "pipe_resume a i buf n e s = Inr r \<Longrightarrow> quiet s (kres_state r)"
  by (auto simp: pipe_resume_def Let_def split: if_splits dest!: pipe_loop_quiet)

lemma pipe_write_quiet: "sys_PipeWrite uc s = Inr r \<Longrightarrow> quiet s (kres_state r)"
  by (auto simp: sys_PipeWrite_def quiet_code split: if_splits option.splits list.splits)

lemma lock_init_quiet: "sys_LockInit uc s = Inr r \<Longrightarrow> quiet s (kres_state r)"
  by (auto simp: sys_LockInit_def quiet_code split: if_splits option.splits dest!: user_store_effect)

lemma acquire_loop_quiet: "acquire_loop K l i e s = Inr r \<Longrightarrow> quiet s (kres_state r)"
  by (auto simp: acquire_loop_def quiet_code split: if_splits option.splits)

lemma acquire_quiet: "sys_Acquire K uc i s = Inr r \<Longrightarrow> quiet s (kres_state r)"
  by (auto simp: sys_Acquire_def Let_def split: if_splits option.splits dest!: acquire_loop_quiet)

lemma acquire_resume_quiet: "acquire_resume K l i e s = Inr r \<Longrightarrow> quiet s (kres_state r)"
  by (auto simp: acquire_resume_def Let_def split: if_splits dest!: acquire_loop_quiet)

lemma release_quiet: "sys_Release i s = Inr (rc, s') \<Longrightarrow> quiet s s'"
  by (auto simp: sys_Release_def quiet_code split: option.splits list.splits)

lemma cvar_init_quiet: "sys_CvarInit uc s = Inr r \<Longrightarrow> quiet s (kres_state r)"
  by (auto simp: sys_CvarInit_def quiet_code split: if_splits option.splits dest!: user_store_effect)

lemma signal_quiet: "sys_CvarSignal uc s = Inr r \<Longrightarrow> quiet s (kres_state r)"
  by (auto simp: sys_CvarSignal_def quiet_code split: if_splits option.splits list.splits)

lemma broadcast_loop_quiet: "broadcast_loop w s = (rc, w', s') \<Longrightarrow> quiet s s'"
proof (induction w arbitrary: s)
  case (Cons p w)
  have "quiet s (snd (ready_insert p s))" by simp
  then show ?case
    using Cons.prems Cons.IH [of "snd (ready_insert p s)"] quiet_trans [of s "snd (ready_insert p s)" s']
    by (auto simp: split_beta split: if_splits)
qed simp

lemma quiet_cvars [simp]: "quiet s (s'\<lparr>cvars := c\<rparr>) = quiet s s'"
  by (simp add: quiet_def)

lemma broadcast_quiet: "sys_CvarBroadcast uc s = Inr r \<Longrightarrow> quiet s (kres_state r)"
  by (auto simp: sys_CvarBroadcast_def Let_def split: if_splits option.splits prod.splits
      dest!: broadcast_loop_quiet)

lemma cvar_wait_quiet: "sys_CvarWait uc s = Inr r \<Longrightarrow> quiet s (kres_state r)"
  by (auto simp: sys_CvarWait_def quiet_code split: if_splits option.splits dest!: release_quiet)

lemma cvar_rc_quiet [simp]: "kres_state (cvar_rc r) = kres_state r"
  by (cases r rule: cvar_rc.cases) simp_all

lemma cvar_resume_quiet: "cvar_resume uc c i s = Inr r \<Longrightarrow> quiet s (kres_state r)"
  using acquire_quiet [of K_CvarAcquire uc i s] by (auto simp: cvar_resume_def split: option.splits)

lemma destroy_quiet:
  "destroy_pipe_info i s = Inr (rc, s') \<Longrightarrow> quiet s s'"
  "destroy_lock_info i s = Inr (rc, s') \<Longrightarrow> quiet s s'"
  "destroy_cvar_info i s = Inr (rc, s') \<Longrightarrow> quiet s s'"
  by (auto simp: destroy_pipe_info_def destroy_lock_info_def destroy_cvar_info_def Let_def quiet_def
      split: if_splits option.splits prod.splits dest!: wake_loop_effect)

lemma reclaim_quiet: "sys_Reclaim uc s = Inr r \<Longrightarrow> quiet s (kres_state r)"
proof -
  have d: "destroy_by_type ty i s = Inr (rc, s') \<Longrightarrow> quiet s s'" for ty i rc s'
    by (auto simp: destroy_by_type_def split: if_splits dest!: destroy_quiet)
  show "sys_Reclaim uc s = Inr r \<Longrightarrow> quiet s (kres_state r)"
    by (auto simp: sys_Reclaim_def Let_def quiet_def split: if_splits option.splits dest!: d)
qed

lemma sem_quiet:
  "sys_Custom_0 uc s = Inr r \<Longrightarrow> quiet s (kres_state r)"
  "sys_Custom_1 uc s = Inr r \<Longrightarrow> quiet s (kres_state r)"
  "sys_Custom_2 uc s = Inr r \<Longrightarrow> quiet s (kres_state r)"
  by (auto simp: sys_Custom_0_def sys_Custom_1_def sys_Custom_2_def quiet_code
      split: if_splits option.splits list.splits)

lemma receive_quiet:
  "receive_scan fuel t p s = Some (Inr s') \<Longrightarrow> quiet s s'"
  by (induction fuel t p s rule: receive_scan.induct)
    (auto simp: quiet_def ready_insert_eq split: sum.splits if_splits)

lemma tty_receive_quiet: "trap_tty_receive_hdl fuel l uc s = Some (Inr s') \<Longrightarrow> quiet s s'"
  by (auto simp: trap_tty_receive_hdl_def Let_def quiet_def split: if_splits dest!: receive_quiet)

lemma tty_transmit_quiet: "trap_tty_transmit_hdl uc s = Inr s' \<Longrightarrow> quiet s s'"
  by (auto simp: trap_tty_transmit_hdl_def Let_def quiet_def ready_insert_eq split: if_splits option.splits)

lemma update_sleep_quiet: "update_sleep l i s = Inr (rc, s') \<Longrightarrow> quiet s s'"
proof (induction l arbitrary: i s)
  case (Cons a rest)
  from Cons.prems obtain si where si: "sleeps s a = Some si" by auto
  let ?u = "set_pcb (sleep_pcb si) (\<lambda>p. p\<lparr>state := READY\<rparr>)
    (s\<lparr>sleeps := (sleeps s)(a \<mapsto> si\<lparr>ticks_left := ticks_left si - 1\<rparr>)\<rparr>)"
  let ?v = "snd (ready_insert (sleep_pcb si) ?u)"
  have v: "quiet s ?v" by (auto simp: quiet_code)
  show ?case
  proof (cases "ticks_left si - 1 \<le> 0")
    case False
    let ?t = "s\<lparr>sleeps := (sleeps s)(a \<mapsto> si\<lparr>ticks_left := ticks_left si - 1\<rparr>)\<rparr>"
    have "update_sleep rest (i + 1) ?t = Inr (rc, s')" using Cons.prems si False by (simp add: Let_def)
    then have "quiet ?t s'" by (rule Cons.IH)
    moreover have "quiet s ?t" by (simp add: quiet_def)
    ultimately show ?thesis by (rule quiet_trans [rotated])
  next
    case True
    then consider "s' = ?v" | l where "update_sleep rest i (?v\<lparr>sleep_list := l, sleeps := (sleeps ?v)(a := None),
        ub_log := ub_log ?v @ [ReadFreedNode]\<rparr>) = Inr (rc, s')"
      using Cons.prems si by (auto simp: Let_def split_beta split: option.splits prod.splits)
    then show ?thesis
    proof cases
      case 1
      then show ?thesis using v by simp
    next
      case 2
      from Cons.IH [OF 2] v show ?thesis by (auto simp: quiet_def)
    qed
  qed
qed simp


section \<open>The clients of the frame contract\<close>

text \<open>Stack growth in trap_memory_hdl.\<close>

definition grow_step :: "kstate \<Rightarrow> kstate \<Rightarrow> bool" where
  "grow_step s s' \<longleftrightarrow> (\<exists>a p e t ff. active_proc s = Some a \<and> pcbs s a = Some p \<and>
     grow_stack (next_stack_pn p) e (u_page_table p) (free_frames s) = Inr (t, ff) \<and>
     s' = s\<lparr>free_frames := ff, pcbs := (pcbs s)(a \<mapsto> p\<lparr>u_page_table := t, next_stack_pn := e\<rparr>)\<rparr>)"

interpretation stack: frame_client grow_step running
proof
  fix s s' assume "grow_step s s'"
  then obtain a p e t ff where a: "active_proc s = Some a" "pcbs s a = Some p"
    and g: "grow_stack (next_stack_pn p) e (u_page_table p) (free_frames s) = Inr (t, ff)"
    and s': "s' = s\<lparr>free_frames := ff, pcbs := (pcbs s)(a \<mapsto> p\<lparr>u_page_table := t, next_stack_pn := e\<rparr>)\<rparr>"
    by (auto simp: grow_step_def)
  show "running s \<noteq> Free" by (simp add: running_def)
  show "frames_of s' Free + frames_of s' (running s) \<subseteq># frames_of s Free + frames_of s (running s)"
    using grow_stack_frames [OF g] a s' by (simp add: running_def ac_simps subset_mset.add_mono)
  show "c \<noteq> Free \<Longrightarrow> c \<noteq> running s \<Longrightarrow> frames_of s' c = frames_of s c" for c
    using a s' by (cases c) (auto simp: running_def)
qed

text \<open>The release of a process's frames in sys_Exit.\<close>

definition exit_step :: "kstate \<Rightarrow> kstate \<Rightarrow> bool" where
  "exit_step s s' \<longleftrightarrow> (\<exists>a p q. active_proc s = Some a \<and> pcbs s a = Some q \<and> tables p = tables q \<and>
     s' = free_proc a p s)"

lemma free_table_effect: "free_table t s = (t', s') \<Longrightarrow>
    \<exists>n ff. s' = s\<lparr>malloc_cnt := n, free_frames := ff\<rparr> \<and> malloc_cnt s \<le> n \<and> length t' = length t"
proof (induction t arbitrary: s t' s')
  case Nil
  then show ?case by (intro exI [of _ "malloc_cnt s"] exI [of _ "free_frames s"]) simp
next
  case (Cons e t)
  show ?case
  proof (cases "valid e")
    case True
    let ?s = "s\<lparr>malloc_cnt := Suc (malloc_cnt s),
      free_frames := (if malloc_fails s (malloc_cnt s) then free_frames s else pfn e # free_frames s)\<rparr>"
    obtain t1 s1 where r: "free_table t ?s = (t1, s1)" by (cases "free_table t ?s")
    with Cons.prems True have "t' = e\<lparr>valid := False, prot := 0\<rparr> # t1" "s' = s1"
      by (auto simp: klist_insert_front split: if_splits)
    with Cons.IH [OF r] show ?thesis by auto
  next
    case False
    obtain t1 s1 where r: "free_table t s = (t1, s1)" by (cases "free_table t s")
    with Cons.prems False Cons.IH [OF r] show ?thesis by auto
  qed
qed

lemma free_proc_effect:
  assumes "pcbs s a = Some q"
  obtains n ff t k where "free_proc a p s =
      s\<lparr>malloc_cnt := n, free_frames := ff, pcbs := (pcbs s)(a \<mapsto> q\<lparr>u_page_table := t, k_stack_pt := k\<rparr>)\<rparr>"
    and "malloc_cnt s \<le> n" and "used t = {#}" and "used k = {#}" and "length k = length (k_stack_pt p)"
    and "length t = length (u_page_table p)"
    and "nonzero ff \<subseteq># used (u_page_table p) + used (k_stack_pt p) + nonzero (free_frames s)"
proof -
  obtain t s1 where f1: "free_table (u_page_table p) s = (t, s1)" by (cases "free_table (u_page_table p) s")
  obtain k s2 where f2: "free_table (k_stack_pt p) s1 = (k, s2)" by (cases "free_table (k_stack_pt p) s1")
  from free_table_effect [OF f1] obtain n1 ff1 where
    e1: "s1 = s\<lparr>malloc_cnt := n1, free_frames := ff1\<rparr>" "malloc_cnt s \<le> n1" "length t = length (u_page_table p)" by blast
  from free_table_effect [OF f2] obtain n ff where
    e2: "s2 = s1\<lparr>malloc_cnt := n, free_frames := ff\<rparr>" "malloc_cnt s1 \<le> n" "length k = length (k_stack_pt p)"
    by blast
  note u1 = free_table_frames [OF f1] and u2 = free_table_frames [OF f2]
  have "nonzero ff \<subseteq># used (k_stack_pt p) + nonzero ff1" using u2 e1 e2 by simp
  moreover have "nonzero ff1 \<subseteq># used (u_page_table p) + nonzero (free_frames s)" using u1 e1 by simp
  then have "used (k_stack_pt p) + nonzero ff1
      \<subseteq># used (k_stack_pt p) + (used (u_page_table p) + nonzero (free_frames s))" by simp
  ultimately have "nonzero ff \<subseteq># used (k_stack_pt p) + (used (u_page_table p) + nonzero (free_frames s))"
    by (rule subset_mset.order_trans)
  then have "nonzero ff \<subseteq># used (u_page_table p) + used (k_stack_pt p) + nonzero (free_frames s)"
    by (simp add: ac_simps)
  moreover have "free_proc a p s =
      s\<lparr>malloc_cnt := n, free_frames := ff, pcbs := (pcbs s)(a \<mapsto> q\<lparr>u_page_table := t, k_stack_pt := k\<rparr>)\<rparr>"
    using assms f1 f2 e1 e2 by (simp add: free_proc_def set_pcb_def)
  ultimately show thesis using that u1 u2 e1 e2 by simp
qed

interpretation exit: frame_client exit_step running
proof
  fix s s' assume "exit_step s s'"
  then obtain a p q where a: "active_proc s = Some a" "pcbs s a = Some q" "tables p = tables q"
    and s': "s' = free_proc a p s"
    by (auto simp: exit_step_def)
  from a(2) obtain n ff t k where eq: "free_proc a p s =
      s\<lparr>malloc_cnt := n, free_frames := ff, pcbs := (pcbs s)(a \<mapsto> q\<lparr>u_page_table := t, k_stack_pt := k\<rparr>)\<rparr>"
    and "malloc_cnt s \<le> n" and u: "used t = {#}" "used k = {#}" and "length k = length (k_stack_pt p)"
    and "length t = length (u_page_table p)"
    and nz: "nonzero ff \<subseteq># used (u_page_table p) + used (k_stack_pt p) + nonzero (free_frames s)"
    by (rule free_proc_effect)
  show "running s \<noteq> Free" by (simp add: running_def)
  show "frames_of s' Free + frames_of s' (running s) \<subseteq># frames_of s Free + frames_of s (running s)"
    using nz u a unfolding s' eq by (simp add: running_def tables_def ac_simps)
  show "c \<noteq> Free \<Longrightarrow> c \<noteq> running s \<Longrightarrow> frames_of s' c = frames_of s c" for c
    using a unfolding s' eq by (cases c) (auto simp: running_def)
qed

text \<open>The kernel stack of a process that is switched in for the first time.\<close>

definition kstack_step :: "addr \<Rightarrow> kstate \<Rightarrow> kstate \<Rightarrow> bool" where
  "kstack_step c s s' \<longleftrightarrow> (\<exists>p. pcbs s c = Some p \<and> length (k_stack_pt p) = 2) \<and> init_proc_kernel c s = Inr s'"

lemma init_proc_kernel_effect:
  assumes "init_proc_kernel c s = Inr s'" and "pcbs s c = Some p" and "length (k_stack_pt p) = 2"
  obtains f0 f1 ff m where "free_frames s = f0 # f1 # ff" and "f0 \<noteq> 0" and "f1 \<noteq> 0"
    and "s' = s\<lparr>free_frames := ff, pcbs := (pcbs s)(c \<mapsto> p\<lparr>kctxt := initial_kc s,
           k_stack_pt := [fresh_entry f0, fresh_entry f1]\<rparr>), pmem := m\<rparr>"
proof -
  from assms(3) obtain e0 e1 where k: "k_stack_pt p = [e0, e1]"
    by (metis (no_types, opaque_lifting) length_0_conv length_Suc_conv numeral_2_eq_2)
  obtain f0 f1 ff where ff: "free_frames s = f0 # f1 # ff" "f0 \<noteq> 0" "f1 \<noteq> 0"
    using assms(1,2)
    by (cases "free_frames s"; cases "tl (free_frames s)")
      (auto simp: init_proc_kernel_def set_pcb_def grab_a_frame_def copy_frame_def Let_def split: if_splits)
  let ?m = "(pmem s)(f0 := pmem s (pfn (initial_ks s ! 0)))"
  have "s' = s\<lparr>free_frames := ff, pcbs := (pcbs s)(c \<mapsto> p\<lparr>kctxt := initial_kc s,
           k_stack_pt := [fresh_entry f0, fresh_entry f1]\<rparr>), pmem := ?m(f1 := ?m (pfn (initial_ks s ! 1)))\<rparr>"
    using assms k ff by (auto simp: init_proc_kernel_def set_pcb_def grab_a_frame_def copy_frame_def Let_def)
  with ff show thesis by (rule that)
qed

interpretation kstack: frame_client "kstack_step c" "\<lambda>_. Proc c" for c
proof
  fix s s' assume "kstack_step c s s'"
  then obtain p where "init_proc_kernel c s = Inr s'" and p: "pcbs s c = Some p" and "length (k_stack_pt p) = 2"
    by (auto simp: kstack_step_def)
  then obtain f0 f1 ff m where f: "free_frames s = f0 # f1 # ff" "f0 \<noteq> 0" "f1 \<noteq> 0"
    and s': "s' = s\<lparr>free_frames := ff, pcbs := (pcbs s)(c \<mapsto> p\<lparr>kctxt := initial_kc s,
           k_stack_pt := [fresh_entry f0, fresh_entry f1]\<rparr>), pmem := m\<rparr>"
    by (rule init_proc_kernel_effect)
  show "frames_of s' Free + frames_of s' (Proc c) \<subseteq># frames_of s Free + frames_of s (Proc c)"
    using f p s' by (simp add: fresh_entry_def)
  show "d \<noteq> Free \<Longrightarrow> d \<noteq> Proc c \<Longrightarrow> frames_of s' d = frames_of s d" for d
    using s' by (cases d) auto
qed simp


section \<open>Fork\<close>

lemma copy_pages_frames:
  "copy_pages es s = (ok, t, s') \<Longrightarrow> length t = length es \<and> used t + nonzero (free_frames s') \<subseteq># nonzero (free_frames s) \<and>
     (\<exists>ff m. s' = s\<lparr>free_frames := ff, pmem := m\<rparr>)"
proof (induction es arbitrary: s ok t s')
  case Nil
  have "s = s\<lparr>free_frames := free_frames s, pmem := pmem s\<rparr>" by simp
  then have "\<exists>ff m. s = s\<lparr>free_frames := ff, pmem := m\<rparr>" by blast
  with Nil show ?case by simp
next
  case (Cons e es)
  have null: "used (replicate n null_pte) = {#}" for n by (induction n) simp_all
  show ?case
  proof (cases "valid e")
    case False
    obtain ok1 t1 s1 where "copy_pages es s = (ok1, t1, s1)" by (cases "copy_pages es s") auto
    with Cons.IH [OF this] Cons.prems False show ?thesis by auto
  next
    case True
    obtain f ff1 where gr: "grab (free_frames s) = (f, ff1)" by (cases "grab (free_frames s)")
    note nz = nonzero_grab [OF gr, of "prot e"]
    have g: "grab_a_frame s = (f, s\<lparr>free_frames := ff1\<rparr>)" using gr by (simp add: grab_a_frame_grab)
    show ?thesis
    proof (cases "f = 0")
      case True
      then have r: "t = \<lparr>valid = True, prot = prot e, pfn = 0\<rparr> # replicate (length es) null_pte"
        "s' = s\<lparr>free_frames := ff1\<rparr>"
        using Cons.prems \<open>valid e\<close> g by auto
      have "s' = s\<lparr>free_frames := ff1, pmem := pmem s\<rparr>" using r(2) by simp
      then have "\<exists>ff m. s' = s\<lparr>free_frames := ff, pmem := m\<rparr>" by blast
      moreover have "used t + nonzero (free_frames s') \<subseteq># nonzero (free_frames s)"
        using r nz True null by auto
      ultimately show ?thesis using r(1) by simp
    next
      case False
      let ?s = "copy_frame f (pfn e) (s\<lparr>free_frames := ff1\<rparr>)"
      obtain ok1 t1 s2 where c: "copy_pages es ?s = (ok1, t1, s2)" by (cases "copy_pages es ?s") auto
      with Cons.prems \<open>valid e\<close> g False have r: "t = \<lparr>valid = True, prot = prot e, pfn = f\<rparr> # t1" "s' = s2" by auto
      from Cons.IH [OF c] have "length t1 = length es" "used t1 + nonzero (free_frames s2) \<subseteq># nonzero ff1"
        "\<exists>ff m. s2 = s\<lparr>free_frames := ff, pmem := m\<rparr>"
        by (auto simp: copy_frame_def)
      then show ?thesis using r nz False by auto
    qed
  qed
qed

text \<open>The child's pcb and the state before its memory is set up.\<close>

definition fork_child :: "user_context \<Rightarrow> pcb \<Rightarrow> kstate \<Rightarrow> pcb" where
  "fork_child uc p s = (fresh_pcb s (malloc_cnt s))\<lparr>state := READY, ppid := pid p, pid := next_pid s,
     children := [], uctxt := set_ret 0 uc\<rparr>"

definition fork_start :: "user_context \<Rightarrow> addr \<Rightarrow> pcb \<Rightarrow> kstate \<Rightarrow> kstate" where
  "fork_start uc a p s =
     s\<lparr>next_pid := next_pid s + 1, pcb_table := (pcb_table s)(next_pid s \<mapsto> malloc_cnt s),
       malloc_cnt := Suc (Suc (Suc (malloc_cnt s))),
       pcbs := (pcbs s)(a \<mapsto> p\<lparr>children := children p @ [next_pid s]\<rparr>, malloc_cnt s \<mapsto> fork_child uc p s)\<rparr>"

lemma fork_unfold:
  assumes "mem_ok s" and "active_proc s = Some a" and "pcbs s a = Some p" and "a \<noteq> malloc_cnt s"
    and "0 \<le> next_pid s" and "next_pid s < MAX_PROC"
  shows "sys_Fork uc s = res_bind (init_proc_kernel (malloc_cnt s) (fork_start uc a p s)) (\<lambda>s1.
      case copy_pages (u_page_table p) s1 of (ok, t, s2) \<Rightarrow>
        let s3 = set_pcb (malloc_cnt s) (\<lambda>p. p\<lparr>u_page_table := t\<rparr>) s2 in
        if \<not> ok then Inr (Done (Some ERROR) s3)
        else
          let s4 = set_pcb (malloc_cnt s) (\<lambda>q. q\<lparr>next_heap_pn := next_heap_pn p, next_stack_pn := next_stack_pn p\<rparr>) s3
          in Inr (Done (Some (next_pid s)) (snd (ready_insert (malloc_cnt s) s4))))"
  using assms
  by (simp add: sys_Fork_def malloc_def mem_ok_def Let_def klist_append_eq set_pcb_def fork_start_def
      fork_child_def cong: if_cong)

text \<open>What Fork does to pcbs and frames, whether it succeeds or runs out of frames.\<close>

lemma fork_effect:
  assumes inv: "kernel_inv s" and run: "sys_Fork uc s = Inr r"
  obtains a p q where "active_proc s = Some a" "pcbs s a = Some p" "sized q"
    "pcbs (kres_state r) = (pcbs s)(a \<mapsto> p\<lparr>children := children p @ [next_pid s]\<rparr>, malloc_cnt s \<mapsto> q)"
    "used (u_page_table q) + used (k_stack_pt q) + nonzero (free_frames (kres_state r)) \<subseteq># nonzero (free_frames s)"
    "malloc_cnt s < malloc_cnt (kres_state r)" "malloc_fails (kres_state r) = malloc_fails s"
    "fresh_pcb (kres_state r) = fresh_pcb s" "krnl_page_table (kres_state r) = krnl_page_table s"
    "initial_ks (kres_state r) = initial_ks s"
    "active_proc (kres_state r) = Some a" "initial_kc (kres_state r) = initial_kc s"
    "ready_queue (kres_state r) = ready_queue s \<or> ready_queue (kres_state r) = ready_queue s @ [malloc_cnt s]"
proof -
  let ?c = "malloc_cnt s"
  have ok: "mem_ok s" using inv by (simp add: kernel_inv_def)
  obtain a where a: "active_proc s = Some a"
    using run ok by (cases "active_proc s") (auto simp: sys_Fork_def malloc_ok)
  obtain p where p: "pcbs s a = Some p" using run ok a by (auto simp: sys_Fork_def malloc_ok)
  have n: "0 \<le> next_pid s" "next_pid s < MAX_PROC"
    using run ok a p by (auto simp: sys_Fork_def malloc_ok Let_def split: if_splits)
  have ac: "a \<noteq> ?c" using inv p by (auto simp: kernel_inv_def)
  let ?s0 = "fork_start uc a p s"
  from run [unfolded fork_unfold [OF ok a p ac n]] obtain s1 where
    i: "init_proc_kernel ?c ?s0 = Inr s1" by blast
  have "pcbs ?s0 ?c = Some (fork_child uc p s)" "length (k_stack_pt (fork_child uc p s)) = 2"
    using inv by (simp_all add: fork_start_def fork_child_def kernel_inv_def sized_def)
  from i this obtain f0 f1 ff m where ff: "free_frames ?s0 = f0 # f1 # ff" "f0 \<noteq> 0" "f1 \<noteq> 0"
    and s1: "s1 = ?s0\<lparr>free_frames := ff, pcbs := (pcbs ?s0)(?c \<mapsto> (fork_child uc p s)\<lparr>kctxt := initial_kc ?s0,
           k_stack_pt := [fresh_entry f0, fresh_entry f1]\<rparr>), pmem := m\<rparr>"
    by (rule init_proc_kernel_effect)
  obtain ok1 t s2 where c: "copy_pages (u_page_table p) s1 = (ok1, t, s2)"
    by (cases "copy_pages (u_page_table p) s1") auto
  from copy_pages_frames [OF c] obtain ff2 m2 where
    u: "used t + nonzero ff2 \<subseteq># nonzero ff" and len: "length t = length (u_page_table p)" and s2: "s2 = s1\<lparr>free_frames := ff2, pmem := m2\<rparr>"
    using s1 by auto
  let ?q = "(fork_child uc p s)\<lparr>kctxt := initial_kc s, k_stack_pt := [fresh_entry f0, fresh_entry f1], u_page_table := t\<rparr>"
  let ?q' = "if ok1 then ?q\<lparr>next_heap_pn := next_heap_pn p, next_stack_pn := next_stack_pn p\<rparr> else ?q"
  note r = run [unfolded fork_unfold [OF ok a p ac n] i res_bind_simps c]
  have rs: "pcbs (kres_state r) = (pcbs s)(a \<mapsto> p\<lparr>children := children p @ [next_pid s]\<rparr>, ?c \<mapsto> ?q')"
    "free_frames (kres_state r) = ff2" "malloc_cnt s < malloc_cnt (kres_state r)"
    "malloc_fails (kres_state r) = malloc_fails s" "fresh_pcb (kres_state r) = fresh_pcb s"
    "krnl_page_table (kres_state r) = krnl_page_table s" "initial_ks (kres_state r) = initial_ks s"
    "active_proc (kres_state r) = Some a" "initial_kc (kres_state r) = initial_kc s"
    "ready_queue (kres_state r) = ready_queue s \<or> ready_queue (kres_state r) = ready_queue s @ [?c]"
    using r ac a unfolding s2 s1
    by (auto simp: Let_def set_pcb_def fork_start_def ready_insert_eq split: if_splits)
  have "used t + nonzero ff2 + {#f0, f1#} \<subseteq># nonzero (free_frames s)"
    using u ff by (simp add: fork_start_def)
  moreover have "sized p" using inv p by (auto simp: kernel_inv_def)
  ultimately show thesis using ff(2,3) len
    by (intro that [OF a p _ rs(1) _ rs(3-10)]) (simp_all add: fresh_entry_def rs(2) ac_simps sized_def)
qed

definition fork_step :: "kstate \<Rightarrow> kstate \<Rightarrow> bool" where
  "fork_step s s' \<longleftrightarrow> kernel_inv s \<and> (\<exists>uc r. sys_Fork uc s = Inr r \<and> s' = kres_state r)"

interpretation fork: frame_client fork_step "\<lambda>s. Proc (malloc_cnt s)"
proof
  fix s s' assume "fork_step s s'"
  then obtain uc r where inv: "kernel_inv s" and r: "sys_Fork uc s = Inr r" "s' = kres_state r"
    by (auto simp: fork_step_def)
  from inv r(1) obtain a p q where p: "active_proc s = Some a" "pcbs s a = Some p" "sized q"
    "pcbs (kres_state r) = (pcbs s)(a \<mapsto> p\<lparr>children := children p @ [next_pid s]\<rparr>, malloc_cnt s \<mapsto> q)"
    "used (u_page_table q) + used (k_stack_pt q) + nonzero (free_frames (kres_state r)) \<subseteq># nonzero (free_frames s)"
    "malloc_cnt s < malloc_cnt (kres_state r)" "malloc_fails (kres_state r) = malloc_fails s"
    "fresh_pcb (kres_state r) = fresh_pcb s" "krnl_page_table (kres_state r) = krnl_page_table s"
    "initial_ks (kres_state r) = initial_ks s"
    by (rule fork_effect)
  have none: "pcbs s (malloc_cnt s) = None"
    using inv unfolding kernel_inv_def by (metis less_irrefl not_Some_eq)
  show "frames_of s' Free + frames_of s' (Proc (malloc_cnt s)) \<subseteq># frames_of s Free + frames_of s (Proc (malloc_cnt s))"
    using p(4,5) none r(2) by (simp add: ac_simps)
  show "c \<noteq> Free \<Longrightarrow> c \<noteq> Proc (malloc_cnt s) \<Longrightarrow> frames_of s' c = frames_of s c" for c
    using p r(2) by (cases c) auto
qed simp

lemma inv_intro:
  assumes "kernel_inv s" and "malloc_fails s' = malloc_fails s" and "fresh_pcb s' = fresh_pcb s"
    and "isolated (frames_of s')"
    and "\<And>a p. pcbs s' a = Some p \<Longrightarrow> a < malloc_cnt s' \<and> sized p"
    and "krnl_page_table s' = krnl_page_table s"
  shows "kernel_inv s'"
  using assms by (auto simp: kernel_inv_def mem_ok_def)

lemma fork_inv:
  assumes inv: "kernel_inv s" and run: "sys_Fork uc s = Inr r"
  shows "kernel_inv (kres_state r)"
proof -
  have "fork_step s (kres_state r)" using assms by (auto simp: fork_step_def)
  from fork.keeps_isolation [OF this] inv have iso: "isolated (frames_of (kres_state r))"
    by (simp add: kernel_inv_def)
  from inv run obtain a p q where p: "active_proc s = Some a" "pcbs s a = Some p" "sized q"
    "pcbs (kres_state r) = (pcbs s)(a \<mapsto> p\<lparr>children := children p @ [next_pid s]\<rparr>, malloc_cnt s \<mapsto> q)"
    "used (u_page_table q) + used (k_stack_pt q) + nonzero (free_frames (kres_state r)) \<subseteq># nonzero (free_frames s)"
    "malloc_cnt s < malloc_cnt (kres_state r)" "malloc_fails (kres_state r) = malloc_fails s"
    "fresh_pcb (kres_state r) = fresh_pcb s" "krnl_page_table (kres_state r) = krnl_page_table s"
    "initial_ks (kres_state r) = initial_ks s"
    by (rule fork_effect)
  show ?thesis
  proof (rule inv_intro [OF inv p(7,8) iso])
    fix b x assume "pcbs (kres_state r) b = Some x"
    then have "b = malloc_cnt s \<and> x = q \<or> (\<exists>y. pcbs s b = Some y \<and> sized x = sized y)"
      using p(2,4) by (auto split: if_splits)
    then show "b < malloc_cnt (kres_state r) \<and> sized x"
      using inv p(3,6) unfolding kernel_inv_def by (metis less_trans)
  qed (rule p(9))
qed


section \<open>Exit\<close>

lemma orphan_quiet: "orphan_children cs s = Inr s' \<Longrightarrow> quiet s s' \<and> active_proc s' = active_proc s"
proof (induction cs arbitrary: s)
  case (Cons c cs)
  then obtain a where r: "orphan_children cs (set_pcb a (\<lambda>p. p\<lparr>ppid := -1\<rparr>) s) = Inr s'" by auto
  have "quiet s (set_pcb a (\<lambda>p. p\<lparr>ppid := -1\<rparr>) s)" by simp
  then show ?case using Cons.IH [OF r] quiet_trans by (auto simp: set_pcb_def)
qed simp

lemma report_quiet: "report_to_parent me st s = Inr (rc, s') \<Longrightarrow> quiet s s' \<and> active_proc s' = active_proc s"
  by (auto simp: report_to_parent_def insert_dead_list_def quiet_code split: if_splits option.splits)

lemma wake_parent_quiet: "wake_parent pp s = Inr (rc, s') \<Longrightarrow> quiet s s'"
  by (auto simp: wake_parent_def quiet_def ready_insert_eq split: option.splits prod.splits)

lemma free_proc_inv:
  assumes inv: "kernel_inv s" and a: "active_proc s = Some a" "pcbs s a = Some q" "tables p = tables q"
  shows "kernel_inv (free_proc a p s)"
proof -
  have "exit_step s (free_proc a p s)" using a by (auto simp: exit_step_def)
  from exit.keeps_isolation [OF this] inv have iso: "isolated (frames_of (free_proc a p s))"
    by (simp add: kernel_inv_def)
  from a(2) obtain n ff t k where eq: "free_proc a p s =
      s\<lparr>malloc_cnt := n, free_frames := ff, pcbs := (pcbs s)(a \<mapsto> q\<lparr>u_page_table := t, k_stack_pt := k\<rparr>)\<rparr>"
    and n: "malloc_cnt s \<le> n" and "used t = {#}" and "used k = {#}" and k: "length k = length (k_stack_pt p)"
    "length t = length (u_page_table p)"
    and "nonzero ff \<subseteq># used (u_page_table p) + used (k_stack_pt p) + nonzero (free_frames s)"
    by (rule free_proc_effect)
  have q: "a < malloc_cnt s" "sized q" using inv a(2) by (auto simp: kernel_inv_def)
  show ?thesis
  proof (rule inv_intro [OF inv _ _ iso])
    fix b x assume "pcbs (free_proc a p s) b = Some x"
    then show "b < malloc_cnt (free_proc a p s) \<and> sized x"
      using inv q n k a(3) unfolding eq
      by (auto simp: kernel_inv_def tables_def sized_def split: if_splits) (meson less_le_trans)+
  qed (simp_all add: eq)
qed

lemma exit_inv:
  assumes inv: "kernel_inv s" and run: "sys_Exit uc mode s = Inr r"
  shows "kernel_inv (kres_state r)"
proof -
  from run obtain me s1 rc s2 where me: "deref_ptr (pcbs s) (active_proc s) = Inr me"
    and o: "orphan_children (children me) s = Inr s1"
    and rp: "report_to_parent me (if mode = 0 then sint (reg uc 0) else ERROR) s1 = Inr (rc, s2)"
    by (auto simp: sys_Exit_def Let_def)
  from me obtain a where a: "active_proc s = Some a" "pcbs s a = Some me" by (cases "active_proc s") auto
  have q: "quiet s s2" "active_proc s2 = Some a"
    using orphan_quiet [OF o] report_quiet [OF rp] a(1) quiet_trans by auto
  have inv2: "kernel_inv s2" using quiet_inv [OF inv q(1)] .
  show ?thesis
  proof (cases "rc = 0")
    case False
    then show ?thesis using run me o rp inv2 by (auto simp: sys_Exit_def Let_def)
  next
    case True
    have "map_option tables (pcbs s2 a) = Some (tables me)" using q(1) a(2) by (simp add: quiet_def)
    then obtain q2 where "pcbs s2 a = Some q2" "tables me = tables q2" by auto
    then have inv3: "kernel_inv (free_proc a me s2)" using inv2 q(2) by (intro free_proc_inv) auto
    from run me o rp True a(1) obtain rc' s3 where w: "wake_parent (ppid me) (free_proc a me s2) = Inr (rc', s3)"
      and r: "quiet s3 (kres_state r)"
      by (auto simp: sys_Exit_def Let_def quiet_def split: if_splits)
    show ?thesis using quiet_inv [OF quiet_inv [OF inv3 wake_parent_quiet [OF w]] r] .
  qed
qed

section \<open>Heap and stack growth\<close>

lemma brk_inv:
  assumes inv: "kernel_inv s" and run: "sys_Brk uc s = Inr r"
  shows "kernel_inv (kres_state r)"
proof -
  from run obtain rv s' where r: "r = Done rv s'" by (auto simp: sys_Brk_def Let_def split: if_splits)
  with run have step: "brk_step s s'" unfolding brk_step_def by blast
  from run r obtain a p ok t ff where a: "active_proc s = Some a" "pcbs s a = Some p"
    and m: "map_range (next_heap_pn p) (page_of (UP_TO_PAGE (reg uc 0) - VMEM_1_BASE))
           (u_page_table p) (free_frames s) = Inr (ok, t, ff)"
    using sys_Brk_result by blast
  show ?thesis unfolding r kres_state.simps
  proof (rule inv_intro [OF inv])
    show "isolated (frames_of s')" using brk.keeps_isolation [OF step] inv by (simp add: kernel_inv_def)
    show "malloc_fails s' = malloc_fails s" "fresh_pcb s' = fresh_pcb s" "krnl_page_table s' = krnl_page_table s"
      using run [unfolded sys_Brk_eq [OF a m] r] by (auto split: if_splits)
    show "b < malloc_cnt s' \<and> sized x" if "pcbs s' b = Some x" for b x
      using run [unfolded sys_Brk_eq [OF a m] r] that inv a map_range_frames [OF m]
      by (auto simp: kernel_inv_def sized_def split: if_splits)
  qed
qed

lemma memory_inv:
  assumes inv: "kernel_inv s" and run: "trap_memory_hdl uc s = Inr r"
  shows "kernel_inv (kres_state r)"
proof -
  from run obtain p where p: "deref_ptr (pcbs s) (active_proc s) = Inr p" by (auto simp: trap_memory_hdl_def)
  then obtain a where a: "active_proc s = Some a" "pcbs s a = Some p" by (cases "active_proc s") auto
  let ?e = "user_pn (uc_addr uc) - 1"
  show ?thesis
  proof (cases "?e \<le> next_stack_pn p \<and> ?e > next_heap_pn p")
    case False
    then show ?thesis using run p exit_inv [OF inv] by (auto simp: trap_memory_hdl_def Let_def)
  next
    case True
    then obtain t ff where g: "grow_stack (next_stack_pn p) ?e (u_page_table p) (free_frames s) = Inr (t, ff)"
      and r: "kres_state r = s\<lparr>free_frames := ff, pcbs := (pcbs s)(a \<mapsto> p\<lparr>u_page_table := t, next_stack_pn := ?e\<rparr>)\<rparr>"
      using run p a by (auto simp: trap_memory_hdl_def Let_def set_pcb_def)
    then have step: "grow_step s (kres_state r)" using a unfolding grow_step_def by blast
    show ?thesis
    proof (rule inv_intro [OF inv])
      show "isolated (frames_of (kres_state r))" using stack.keeps_isolation [OF step] inv by (simp add: kernel_inv_def)
      show "b < malloc_cnt (kres_state r) \<and> sized x" if "pcbs (kres_state r) b = Some x" for b x
        using that inv a r grow_stack_frames [OF g] by (auto simp: kernel_inv_def sized_def split: if_splits)
    qed (simp_all add: r)
  qed
qed


section \<open>Switching processes\<close>

lemma init_proc_kernel_inv:
  assumes inv: "kernel_inv s" and run: "init_proc_kernel c s = Inr s'" and p: "pcbs s c = Some p"
  shows "kernel_inv s'"
proof -
  have k: "length (k_stack_pt p) = 2" using inv p by (auto simp: kernel_inv_def sized_def)
  then have step: "kstack_step c s s'" using run p by (simp add: kstack_step_def)
  from run p k obtain f0 f1 ff m where "free_frames s = f0 # f1 # ff" "f0 \<noteq> 0" "f1 \<noteq> 0"
    and s': "s' = s\<lparr>free_frames := ff, pcbs := (pcbs s)(c \<mapsto> p\<lparr>kctxt := initial_kc s,
           k_stack_pt := [fresh_entry f0, fresh_entry f1]\<rparr>), pmem := m\<rparr>"
    by (rule init_proc_kernel_effect)
  show ?thesis
  proof (rule inv_intro [OF inv])
    show "isolated (frames_of s')" using kstack.keeps_isolation [OF step] inv by (simp add: kernel_inv_def)
    show "b < malloc_cnt s' \<and> sized x" if "pcbs s' b = Some x" for b x
      using that inv p s' by (auto simp: kernel_inv_def sized_def split: if_splits)
  qed (simp_all add: s')
qed

lemma switch_kernel_quiet: "switch_kernel_context k old new s = Inr (k', s') \<Longrightarrow> quiet s s'"
  by (auto simp: switch_kernel_context_def save_stack_def restore_stack_def copy_frame_def quiet_code
      split: option.splits)

lemma context_switch_inv:
  assumes inv: "kernel_inv s" and run: "context_switch uc old new k s = Inr (k', s')"
  shows "kernel_inv s'"
proof -
  let ?s = "s\<lparr>active_proc := Some new\<rparr>"
  from run obtain s1 p s2 where s1: "(case old of None \<Rightarrow> Inr ?s | Some a \<Rightarrow>
      res_bind (deref (pcbs ?s) a) (\<lambda>_. Inr (set_pcb a (\<lambda>p. p\<lparr>uctxt := uc\<rparr>) ?s))) = Inr s1"
    and p: "pcbs s1 new = Some p"
    and s2: "(if pfn (k_stack_pt p ! 0) = 0 then init_proc_kernel new s1 else Inr s1) = Inr s2"
    and sw: "switch_kernel_context k old (Some new) s2 = Inr (k', s')"
    by (auto simp: context_switch_def Let_def)
  have "quiet s s1" using s1 by (auto simp: quiet_def set_pcb_def option.map_comp o_def split: option.splits)
  then have inv1: "kernel_inv s1" by (rule quiet_inv [OF inv])
  then have "kernel_inv s2" using s2 init_proc_kernel_inv [OF inv1 _ p] by (auto split: if_splits)
  then show ?thesis using switch_kernel_quiet [OF sw] by (rule quiet_inv)
qed

fun sched_state :: "sched \<Rightarrow> kstate" where
  "sched_state (SchedErr s) = s"
| "sched_state (NoSwitch s) = s"
| "sched_state (Switched k s) = s"

lemma inv_queue [simp]: "kernel_inv (s\<lparr>ready_queue := q\<rparr>) = kernel_inv s"
proof -
  have "quiet s (s\<lparr>ready_queue := q\<rparr>)" "quiet (s\<lparr>ready_queue := q\<rparr>) s" by (simp_all add: quiet_def)
  then show ?thesis using quiet_inv by blast
qed

lemma inv_ready_insert: "kernel_inv s \<Longrightarrow> kernel_inv (snd (ready_insert p s))"
  by (rule quiet_inv [OF _ quiet_ready_insert])

lemma context_switch_sched_inv:
  assumes "kernel_inv s" and "res_bind (context_switch uc old new k s) (\<lambda>(k, s). Inr (Switched k s)) = Inr r"
  shows "kernel_inv (sched_state r)"
  using assms(2) context_switch_inv [OF assms(1)] by auto

lemma normal_schedule_inv:
  assumes inv: "kernel_inv s" and run: "normal_schedule uc k s = Inr r"
  shows "kernel_inv (sched_state r)"
proof (cases "ready_queue s")
  case Nil
  then show ?thesis using run inv by (auto simp: normal_schedule_def)
next
  case (Cons nxt q)
  let ?s = "s\<lparr>ready_queue := q\<rparr>"
  have inv1: "kernel_inv ?s" using inv by simp
  from run Cons obtain p where p: "pcbs s nxt = Some p" by (auto simp: normal_schedule_def Let_def)
  show ?thesis
  proof (cases "pid p = 1")
    case False
    then have "res_bind (context_switch uc (active_proc ?s) nxt k ?s) (\<lambda>(k, s). Inr (Switched k s)) = Inr r"
      using run Cons p by (simp add: normal_schedule_def Let_def)
    then show ?thesis by (rule context_switch_sched_inv [OF inv1])
  next
    case True
    obtain rc t where t: "ready_insert nxt ?s = (rc, t)" by (cases "ready_insert nxt ?s")
    have inv2: "kernel_inv t" using inv_ready_insert [OF inv1, of nxt] t by simp
    have "r = SchedErr t \<or> (\<exists>nxt' q' k' s'. r = Switched k' s' \<and>
        context_switch uc (active_proc t) nxt' k (t\<lparr>ready_queue := q'\<rparr>) = Inr (k', s'))"
      using run Cons p t True by (auto simp: normal_schedule_def Let_def split: prod.splits option.splits)
    then show ?thesis
    proof (elim disjE exE conjE)
      fix nxt' q' k' s'
      assume r: "r = Switched k' s'" "context_switch uc (active_proc t) nxt' k (t\<lparr>ready_queue := q'\<rparr>) = Inr (k', s')"
      show ?thesis using context_switch_inv [OF _ r(2)] inv2 r(1) by simp
    qed (use inv2 in simp)
  qed
qed


lemma do_scheduler_inv:
  assumes inv: "kernel_inv s" and run: "do_scheduler uc s = Inr r"
  shows "kernel_inv (sched_state r)"
proof (cases "ready_queue s = []")
  case True
  then show ?thesis using run inv by (auto simp: do_scheduler_def)
next
  case False
  then obtain old where old: "active_proc s = Some old"
    using run by (cases "active_proc s") (auto simp: do_scheduler_def)
  obtain rc t where t: "ready_insert old s = (rc, t)" by (cases "ready_insert old s")
  have invt: "kernel_inv t" using inv_ready_insert [OF inv, of old] t by simp
  show ?thesis
  proof (cases "ready_queue t")
    case Nil
    then show ?thesis using run False old t invt by (auto simp: do_scheduler_def)
  next
    case (Cons nxt q)
    let ?t = "t\<lparr>ready_queue := q\<rparr>"
    have inv1: "kernel_inv ?t" using invt by simp
    from run False old t Cons obtain p where p: "pcbs t nxt = Some p" by (auto simp: do_scheduler_def Let_def)
    show ?thesis
    proof (cases "pid p = 1")
      case other: False
      then show ?thesis using run False old t Cons p context_switch_inv [OF inv1]
        by (auto simp: do_scheduler_def Let_def)
    next
      case True
      obtain rc' u where u: "ready_insert nxt ?t = (rc', u)" by (cases "ready_insert nxt ?t")
      have inv2: "kernel_inv u" using inv_ready_insert [OF inv1, of nxt] u by simp
      have "r = SchedErr u \<or> (\<exists>nxt' q' k' s'. r = Switched k' s' \<and>
          context_switch uc (Some old) nxt' K_Sched (u\<lparr>ready_queue := q'\<rparr>) = Inr (k', s'))"
        using run False old t Cons p u True
        by (auto simp: do_scheduler_def Let_def split: prod.splits option.splits)
      then show ?thesis
      proof (elim disjE exE conjE)
        fix nxt' q' k' s'
        assume r: "r = Switched k' s'" "context_switch uc (Some old) nxt' K_Sched (u\<lparr>ready_queue := q'\<rparr>) = Inr (k', s')"
        show ?thesis using context_switch_inv [OF _ r(2)] inv2 r(1) by simp
      qed (use inv2 in simp)
    qed
  qed
qed

end
