(* ===== verification/Places.thy ===== *)
theory Places
  imports Effects
begin

text \<open>
  The places where a process can be: the processor, the ready queue, the lists of waiting and of
  blocked processes, an entry of the sleep list, the wait list of an object. \<open>places\<close> reads them off
  a state; \<open>shifts\<close> says that no process was put into a second place and none came from nowhere.
\<close>

section \<open>Places\<close>

datatype place =
    Running | In_Ready | In_Wait | In_Io | Asleep addr
  | At_Pipe addr | At_Lock addr | At_Cvar addr | At_Sem addr

text \<open>
  The process on the processor is an argument: inside the kernel the process in active_proc may
  already be in a queue.
\<close>

fun places :: "addr option \<Rightarrow> kstate \<Rightarrow> place \<Rightarrow> addr multiset" where
  "places r s Running = (case r of None \<Rightarrow> {#} | Some a \<Rightarrow> {#a#})"
| "places r s In_Ready = mset (ready_queue s)"
| "places r s In_Wait = mset (wait_list s)"
| "places r s In_Io = mset (io_list s)"
| "places r s (Asleep a) = (case sleeps s a of None \<Rightarrow> {#} | Some e \<Rightarrow> {#sleep_pcb e#})"
| "places r s (At_Pipe a) = (case pipes s a of None \<Rightarrow> {#} | Some p \<Rightarrow> mset (pipe_wait_list p))"
| "places r s (At_Lock a) = (case locks s a of None \<Rightarrow> {#} | Some l \<Rightarrow> mset (lock_wait_list l))"
| "places r s (At_Cvar a) = (case cvars s a of None \<Rightarrow> {#} | Some c \<Rightarrow> mset (cvar_wait_list c))"
| "places r s (At_Sem a) = (case sems s a of None \<Rightarrow> {#} | Some m \<Rightarrow> mset (sem_waiting m))"

lemma places_eqI: "(\<And>x. F x = G x) \<Longrightarrow> F = (G :: place \<Rightarrow> addr multiset)"
  by (rule ext)

lemma places_processor: "places None s' = places None s \<Longrightarrow> places r s' = places r s"
proof (rule places_eqI)
  fix x assume "places None s' = places None s"
  from fun_cong [OF this, of x] show "places r s' x = places r s x" by (cases x) simp_all
qed

lemma places_cong:
  assumes "ready_queue s' = ready_queue s" and "wait_list s' = wait_list s" and "io_list s' = io_list s"
    and "sleeps s' = sleeps s" and "pipes s' = pipes s" and "locks s' = locks s" and "cvars s' = cvars s"
    and "sems s' = sems s"
  shows "places r s' = places r s"
proof (rule places_eqI)
  fix x show "places r s' x = places r s x" using assms by (cases x) simp_all
qed

lemma places_frame [simp]:
  "places r (s\<lparr>malloc_cnt := x0\<rparr>) = places r s" "places r (s\<lparr>pmem := x1\<rparr>) = places r s"
  "places r (s\<lparr>hw := x2\<rparr>) = places r s" "places r (s\<lparr>ub_log := x3\<rparr>) = places r s"
  "places r (s\<lparr>free_frames := x4\<rparr>) = places r s" "places r (s\<lparr>sleep_list := x5\<rparr>) = places r s"
  "places r (s\<lparr>dead_list := x6\<rparr>) = places r s" "places r (s\<lparr>pipe_list := x7\<rparr>) = places r s"
  "places r (s\<lparr>lock_list := x8\<rparr>) = places r s" "places r (s\<lparr>cvar_list := x9\<rparr>) = places r s"
  "places r (s\<lparr>sem_list := x10\<rparr>) = places r s" "places r (s\<lparr>reclaim_list := x11\<rparr>) = places r s"
  "places r (s\<lparr>active_proc := x12\<rparr>) = places r s" "places r (s\<lparr>pcbs := x13\<rparr>) = places r s"
  "places r (s\<lparr>deads := x14\<rparr>) = places r s" "places r (s\<lparr>reclaims := x15\<rparr>) = places r s"
  "places r (s\<lparr>busy_terminal := x16\<rparr>) = places r s" "places r (s\<lparr>receive := x17\<rparr>) = places r s"
  "places r (s\<lparr>string_len := x18\<rparr>) = places r s" "places r (s\<lparr>krnl_page_table := x19\<rparr>) = places r s"
  "places r (s\<lparr>initial_kc := x20\<rparr>) = places r s" "places r (s\<lparr>initial_ks := x21\<rparr>) = places r s"
  "places r (s\<lparr>next_pid := x22\<rparr>) = places r s" "places r (s\<lparr>next_sem := x23\<rparr>) = places r s"
  "places r (s\<lparr>pcb_table := x24\<rparr>) = places r s" "places r (s\<lparr>p_init := x25\<rparr>) = places r s"
  "places r (s\<lparr>p_idle := x26\<rparr>) = places r s" "places r (s\<lparr>kernel_brk := x27\<rparr>) = places r s"
  "places r (s\<lparr>vmem_enabled := x28\<rparr>) = places r s" "places r (s\<lparr>total_frames := x29\<rparr>) = places r s"
  by (rule places_cong; simp)+

lemma places_set_pcb [simp]: "places r (set_pcb a f s) = places r s"
  by (simp add: set_pcb_def)

lemma dom_set_pcb [simp]: "dom (pcbs (set_pcb a f s)) = dom (pcbs s)"
  by (cases "pcbs s a") (auto simp: set_pcb_def dom_def)

lemma set_pcb_same [simp]: "ready_queue (set_pcb a f s) = ready_queue s" "active_proc (set_pcb a f s) = active_proc s"
  by (simp_all add: set_pcb_def)

lemma places_upd [simp]:
  "places r (s\<lparr>ready_queue := q\<rparr>) = (places r s)(In_Ready := mset q)"
  "places r (s\<lparr>wait_list := q\<rparr>) = (places r s)(In_Wait := mset q)"
  "places r (s\<lparr>io_list := q\<rparr>) = (places r s)(In_Io := mset q)"
  "sleeps s = m1 \<Longrightarrow> places r (s\<lparr>sleeps := m1(a \<mapsto> e)\<rparr>) = (places r s)(Asleep a := {#sleep_pcb e#})"
  "sleeps s = m1 \<Longrightarrow> places r (s\<lparr>sleeps := m1(a := None)\<rparr>) = (places r s)(Asleep a := {#})"
  "pipes s = m2 \<Longrightarrow> places r (s\<lparr>pipes := m2(a \<mapsto> p)\<rparr>) = (places r s)(At_Pipe a := mset (pipe_wait_list p))"
  "pipes s = m2 \<Longrightarrow> places r (s\<lparr>pipes := m2(a := None)\<rparr>) = (places r s)(At_Pipe a := {#})"
  "locks s = m3 \<Longrightarrow> places r (s\<lparr>locks := m3(a \<mapsto> l)\<rparr>) = (places r s)(At_Lock a := mset (lock_wait_list l))"
  "locks s = m3 \<Longrightarrow> places r (s\<lparr>locks := m3(a := None)\<rparr>) = (places r s)(At_Lock a := {#})"
  "cvars s = m4 \<Longrightarrow> places r (s\<lparr>cvars := m4(a \<mapsto> c)\<rparr>) = (places r s)(At_Cvar a := mset (cvar_wait_list c))"
  "cvars s = m4 \<Longrightarrow> places r (s\<lparr>cvars := m4(a := None)\<rparr>) = (places r s)(At_Cvar a := {#})"
  "sems s = m5 \<Longrightarrow> places r (s\<lparr>sems := m5(a \<mapsto> m)\<rparr>) = (places r s)(At_Sem a := mset (sem_waiting m))"
  by (rule places_eqI, case_tac x; simp)+

section \<open>Moving between places\<close>

definition placed :: "(place \<Rightarrow> addr multiset) \<Rightarrow> addr set" where
  "placed F = {c. \<exists>x. c \<in># F x}"

definition shifts :: "(place \<Rightarrow> addr multiset) \<Rightarrow> (place \<Rightarrow> addr multiset) \<Rightarrow> bool" where
  "shifts F G \<longleftrightarrow> (isolated F \<longrightarrow> isolated G) \<and> placed G \<subseteq> placed F"

lemma shifts_refl [simp]: "shifts F F"
  by (simp add: shifts_def)

lemma shifts_trans: "shifts F G \<Longrightarrow> shifts G H \<Longrightarrow> shifts F H"
  by (auto simp: shifts_def)

lemma isolated_less:
  assumes "isolated F" and sub: "\<And>x. G x \<subseteq># F x"
  shows "isolated G"
  unfolding isolated_def
proof (intro allI impI conjI)
  fix x c assume c: "c \<in># G x"
  then have f: "c \<in># F x" using sub [of x] mset_subset_eqD by metis
  then have "count (F x) c = 1" using assms(1) by (simp add: isolated_def)
  moreover have "count (G x) c \<le> count (F x) c" using sub [of x] by (rule mset_subset_eq_count)
  moreover have "0 < count (G x) c" using c by simp
  ultimately show "count (G x) c = 1" by linarith
  fix y assume "c \<in># G y"
  then have "c \<in># F y" using sub [of y] mset_subset_eqD by metis
  then show "y = x" using f assms(1) by (auto simp: isolated_def)
qed

lemma shifts_less:
  assumes sub: "\<And>x. G x \<subseteq># F x"
  shows "shifts F G"
  using isolated_less [of F G, OF _ sub] mset_subset_eqD [OF sub] by (fastforce simp: shifts_def placed_def)

text \<open>From two places to the same two places.\<close>

lemma shifts_move:
  assumes xy: "x \<noteq> y" and sub: "A + B \<subseteq># F x + F y"
  shows "shifts F (F(x := A, y := B))"
proof -
  have "isolated F \<Longrightarrow> isolated (F(x := A, y := B))"
    by (rule isolated_transfer [OF _ xy sub]) (use xy in auto)
  moreover have "c \<in> placed F" if "c \<in> placed (F(x := A, y := B))" for c
  proof -
    have "c \<in># F x + F y" if "c \<in># A + B" using mset_subset_eqD [OF sub that] .
    with that show ?thesis unfolding placed_def by (auto split: if_splits)
  qed
  ultimately show ?thesis by (auto simp: shifts_def)
qed

text \<open>The running process goes into a queue.\<close>

lemma shifts_block:
  assumes "places None s x = M" and "x \<noteq> Running"
  shows "shifts (places (Some a) s) ((places None s)(x := add_mset a M))"
proof -
  have "(places None s)(x := add_mset a M) = (places (Some a) s)(Running := {#}, x := add_mset a M)"
    (is "?F = ?G")
  proof (rule places_eqI)
    fix y show "?F y = ?G y" by (cases y) auto
  qed
  moreover have "places (Some a) s x = M" using assms by (cases x) auto
  ultimately show ?thesis using assms(2) shifts_move [of Running x "{#}" "add_mset a M" "places (Some a) s"] by simp
qed

lemma shifts_block_fresh:
  assumes "x \<noteq> Running"
  shows "shifts (places (Some a) s) ((places None s)(x := {#a#}))"
proof -
  have "shifts (places (Some a) s) ((places None s)(x := add_mset a (places None s x)))"
    using assms by (intro shifts_block) simp_all
  moreover have "shifts ((places None s)(x := add_mset a (places None s x))) ((places None s)(x := {#a#}))"
    by (rule shifts_less) simp
  ultimately show ?thesis by (rule shifts_trans)
qed

text \<open>A process of a queue becomes ready.\<close>

lemma shifts_wake:
  assumes "F x = add_mset q M" and "x \<noteq> In_Ready" and "F In_Ready = R"
  shows "shifts F (F(x := M, In_Ready := add_mset q R))"
  using assms shifts_move [of x In_Ready M "add_mset q R" F] by simp

lemma shifts_wake_all:
  assumes "M' + R' \<subseteq># F x + F In_Ready" and "x \<noteq> In_Ready"
  shows "shifts F (F(x := M', In_Ready := R'))" "shifts F (F(In_Ready := R', x := M'))"
  using shifts_move [of x In_Ready M' R' F] assms by (simp_all add: fun_upd_twist)

text \<open>A queue loses processes, or an object is made with an empty queue.\<close>

lemma shifts_drop: "M \<subseteq># F x \<Longrightarrow> shifts F (F(x := M))"
  by (rule shifts_less) auto

text \<open>The processor is given up.\<close>

lemma shifts_leave: "shifts (places r s) (places None s)"
  by (rule shifts_less, case_tac x; simp)

text \<open>A process that was nowhere.\<close>

lemma isolated_new:
  assumes iso: "isolated F" and new: "\<And>x. c \<notin># F x"
  shows "isolated (F(z := add_mset c (F z)))"
  unfolding isolated_def
proof (intro allI impI conjI)
  let ?G = "F(z := add_mset c (F z))"
  fix x d assume d: "d \<in># ?G x"
  show "count (?G x) d = 1"
  proof (cases "d = c")
    case True
    then have "x = z" using d new [of x] by (auto split: if_splits)
    then show ?thesis using True new [of z] by (simp add: not_in_iff)
  next
    case False
    then show ?thesis using d iso by (auto simp: isolated_def split: if_splits)
  qed
  fix y assume e: "d \<in># ?G y"
  show "y = x"
  proof (cases "d = c")
    case True
    then show ?thesis using d e new [of x] new [of y] by (auto split: if_splits)
  next
    case False
    then have "d \<in># F x" "d \<in># F y" using d e by (auto split: if_splits)
    then show ?thesis using iso by (simp add: isolated_def)
  qed
qed

lemma placed_new: "placed (F(z := add_mset c (F z))) = insert c (placed F)"
  by (auto simp: placed_def)

end
