(* ===== verification/Object_Lists.thy ===== *)
theory Object_Lists
  imports Effects
begin

text \<open>
  The kernel's lists of objects: pipes, locks, condition variables, semaphores, reclaimable ids and
  sleep records. An entry is the address of an object that malloc has handed out and nobody has freed,
  and no object is listed twice.
\<close>

definition listed :: "(addr \<Rightarrow> 'a option) \<Rightarrow> addr list \<Rightarrow> nat \<Rightarrow> bool" where
  "listed m xs n \<longleftrightarrow> distinct xs \<and> (\<forall>a\<in>set xs. m a \<noteq> None \<and> a < n)"

lemma listed_Nil [simp]: "listed m [] n"
  by (simp add: listed_def)

lemma listed_more: "listed m xs n \<Longrightarrow> n \<le> n' \<Longrightarrow> listed m xs n'"
  by (auto simp: listed_def)

lemma listed_Suc: "listed m xs n \<Longrightarrow> listed m xs (Suc n)"
  by (erule listed_more) simp

lemma listed_upd: "listed m xs n \<Longrightarrow> listed (m(a \<mapsto> x)) xs n"
  by (auto simp: listed_def)

lemma listed_new: "listed m xs a \<Longrightarrow> a < n \<Longrightarrow> listed (m(a \<mapsto> x)) (xs @ [a]) n"
  by (auto simp: listed_def)

lemma listed_undo: "listed m xs a \<Longrightarrow> a \<le> n \<Longrightarrow> listed (m(a := None)) xs n"
  by (fastforce simp: listed_def)

lemma listed_middle: "listed m (ps @ a # qs) n \<Longrightarrow> listed (m(a := None)) (ps @ qs) n"
  by (auto simp: listed_def)

lemma find_obj_remove:
  assumes f: "find_obj m P 1 xs = Inr (Some (j, a))"
  obtains ps qs where "xs = ps @ a # qs" and "klist_remove xs j = (Some a, ps @ qs)"
proof -
  from f obtain ps qs x where l: "xs = ps @ a # qs" "j = 1 + int (length ps)" "m a = Some x" "P x"
    "\<forall>c\<in>set ps. \<exists>y. m c = Some y \<and> \<not> P y"
    by (rule find_obj_first)
  then show thesis using klist_remove_mid [of ps a qs] that by (simp add: add.commute)
qed

text \<open>The object found is taken out of its list and freed.\<close>

lemma listed_remove:
  assumes f: "find_obj m P 1 xs = Inr (Some (j, a))" and l: "listed m xs n" and r: "klist_remove xs j = (b, ys)"
  shows "listed (m(a := None)) ys n" and "b \<noteq> None"
proof -
  from f obtain ps qs where x: "xs = ps @ a # qs" "klist_remove xs j = (Some a, ps @ qs)"
    by (rule find_obj_remove)
  then have y: "ys = ps @ qs" using r by simp
  show "listed (m(a := None)) ys n" using listed_middle l unfolding x(1) y .
  show "b \<noteq> None" using r x(2) by auto
qed

section \<open>The lists of the kernel\<close>

definition objects_listed :: "kstate \<Rightarrow> bool" where
  "objects_listed s \<longleftrightarrow>
     listed (sleeps s) (sleep_list s) (malloc_cnt s) \<and> listed (pipes s) (pipe_list s) (malloc_cnt s) \<and>
     listed (locks s) (lock_list s) (malloc_cnt s) \<and> listed (cvars s) (cvar_list s) (malloc_cnt s) \<and>
     listed (sems s) (sem_list s) (malloc_cnt s) \<and> listed (reclaims s) (reclaim_list s) (malloc_cnt s)"

text \<open>What \<open>objects_listed\<close> looks at, but for the number of calls of malloc.\<close>

definition shelves where
  "shelves s = (sleeps s, sleep_list s, pipes s, pipe_list s, locks s, lock_list s, cvars s, cvar_list s,
     sems s, sem_list s, reclaims s, reclaim_list s)"

lemma objects_listed_cong:
  "objects_listed s \<Longrightarrow> shelves s' = shelves s \<Longrightarrow> malloc_cnt s \<le> malloc_cnt s' \<Longrightarrow> objects_listed s'"
  by (auto simp: objects_listed_def shelves_def intro: listed_more)

lemma shelves_frame [simp]:
  "shelves (s\<lparr>malloc_cnt := x0\<rparr>) = shelves s" "shelves (s\<lparr>pmem := x1\<rparr>) = shelves s"
  "shelves (s\<lparr>hw := x2\<rparr>) = shelves s" "shelves (s\<lparr>ub_log := x3\<rparr>) = shelves s"
  "shelves (s\<lparr>free_frames := x4\<rparr>) = shelves s" "shelves (s\<lparr>ready_queue := x5\<rparr>) = shelves s"
  "shelves (s\<lparr>wait_list := x6\<rparr>) = shelves s" "shelves (s\<lparr>io_list := x7\<rparr>) = shelves s"
  "shelves (s\<lparr>dead_list := x8\<rparr>) = shelves s" "shelves (s\<lparr>deads := x9\<rparr>) = shelves s"
  "shelves (s\<lparr>active_proc := x10\<rparr>) = shelves s" "shelves (s\<lparr>pcbs := x11\<rparr>) = shelves s"
  "shelves (s\<lparr>busy_terminal := x12\<rparr>) = shelves s" "shelves (s\<lparr>receive := x13\<rparr>) = shelves s"
  "shelves (s\<lparr>string_len := x14\<rparr>) = shelves s" "shelves (s\<lparr>krnl_page_table := x15\<rparr>) = shelves s"
  "shelves (s\<lparr>initial_kc := x16\<rparr>) = shelves s" "shelves (s\<lparr>initial_ks := x17\<rparr>) = shelves s"
  "shelves (s\<lparr>next_pid := x18\<rparr>) = shelves s" "shelves (s\<lparr>next_sem := x19\<rparr>) = shelves s"
  "shelves (s\<lparr>pcb_table := x20\<rparr>) = shelves s" "shelves (s\<lparr>p_init := x21\<rparr>) = shelves s"
  "shelves (s\<lparr>p_idle := x22\<rparr>) = shelves s" "shelves (s\<lparr>kernel_brk := x23\<rparr>) = shelves s"
  "shelves (s\<lparr>vmem_enabled := x24\<rparr>) = shelves s" "shelves (s\<lparr>total_frames := x25\<rparr>) = shelves s"
  by (simp_all add: shelves_def)

lemma shelves_set_pcb [simp]: "shelves (set_pcb a f s) = shelves s"
  by (simp add: set_pcb_def)

end
