(* ===== verification/Loader_Isolation.thy ===== *)
theory Loader_Isolation
  imports Isolation User_Memory Places Object_Lists
begin

text \<open>Loading a program only moves frames between the free list and the process.\<close>

text \<open>The parts of the state the loader has nothing to do with.\<close>

definition keeps :: "kstate \<Rightarrow> kstate \<Rightarrow> bool" where
  "keeps s s' \<longleftrightarrow> malloc_fails s' = malloc_fails s \<and> fresh_pcb s' = fresh_pcb s \<and>
     krnl_page_table s' = krnl_page_table s \<and> initial_ks s' = initial_ks s \<and> initial_kc s' = initial_kc s \<and>
     ready_queue s' = ready_queue s \<and> next_pid s' = next_pid s \<and> p_init s' = p_init s \<and>
     p_idle s' = p_idle s \<and> pcb_table s' = pcb_table s \<and> active_proc s' = active_proc s \<and>
     places None s' = places None s \<and> shelves s' = shelves s"

lemma keeps_trans: "keeps s t \<Longrightarrow> keeps t u \<Longrightarrow> keeps s u"
  by (simp add: keeps_def)

definition same_pcb :: "pcb \<Rightarrow> pcb \<Rightarrow> bool" where
  "same_pcb p p' \<longleftrightarrow> k_stack_pt p' = k_stack_pt p \<and> length (u_page_table p') = length (u_page_table p) \<and> pid p' = pid p \<and> state p' = state p"

text \<open>
  From \<open>s\<close> to \<open>s'\<close> only process \<open>a\<close> changed, its kernel stack not, and its region 1 and
  the free list have no frame they did not have before; no other frames were written.
\<close>

definition moves :: "addr \<Rightarrow> kstate \<Rightarrow> kstate \<Rightarrow> bool" where
  "moves a s s' \<longleftrightarrow> (\<exists>p p'. pcbs s a = Some p \<and> pcbs s' = (pcbs s)(a \<mapsto> p') \<and> same_pcb p p' \<and>
     used (u_page_table p') + nonzero (free_frames s') \<subseteq># used (u_page_table p) + nonzero (free_frames s) \<and>
     malloc_cnt s \<le> malloc_cnt s' \<and> keeps s s' \<and>
     confined (table_frames (u_page_table p) \<union> set (free_frames s)) s s')"

lemma moves_trans:
  assumes "moves a s t" and "moves a t u"
  shows "moves a s u"
proof -
  from assms(1) obtain p p' where st: "pcbs s a = Some p" "pcbs t = (pcbs s)(a \<mapsto> p')" "same_pcb p p'"
    "used (u_page_table p') + nonzero (free_frames t) \<subseteq># used (u_page_table p) + nonzero (free_frames s)"
    "malloc_cnt s \<le> malloc_cnt t" "keeps s t" "confined (table_frames (u_page_table p) \<union> set (free_frames s)) s t"
    by (auto simp: moves_def)
  from assms(2) st(2) obtain p'' where tu: "pcbs u = (pcbs s)(a \<mapsto> p'')" "same_pcb p' p''"
    "used (u_page_table p'') + nonzero (free_frames u) \<subseteq># used (u_page_table p') + nonzero (free_frames t)"
    "malloc_cnt t \<le> malloc_cnt u" "keeps t u" "confined (table_frames (u_page_table p') \<union> set (free_frames t)) t u"
    by (auto simp: moves_def)
  have "confined (table_frames (u_page_table p) \<union> set (free_frames s)) s u"
    using confined_trans [OF st(7) confined_mono [OF tu(6) shrink_frames [OF st(4)]]] .
  then show ?thesis using st tu keeps_trans [OF st(6) tu(5)] subset_mset.order_trans [OF tu(3) st(4)]
    unfolding moves_def same_pcb_def by auto
qed

interpretation load: frame_client "moves a" "\<lambda>_. Proc a" for a
proof
  fix s s' assume "moves a s s'"
  then obtain p p' where m: "pcbs s a = Some p" "pcbs s' = (pcbs s)(a \<mapsto> p')" "k_stack_pt p' = k_stack_pt p"
    "used (u_page_table p') + nonzero (free_frames s') \<subseteq># used (u_page_table p) + nonzero (free_frames s)"
    "krnl_page_table s' = krnl_page_table s" "initial_ks s' = initial_ks s"
    by (auto simp: moves_def keeps_def same_pcb_def)
  then show "frames_of s' Free + frames_of s' (Proc a) \<subseteq># frames_of s Free + frames_of s (Proc a)"
    by (simp add: ac_simps)
  show "c \<noteq> Free \<Longrightarrow> c \<noteq> Proc a \<Longrightarrow> frames_of s' c = frames_of s c" for c
    using m by (cases c) auto
qed simp

lemma moves_inv:
  assumes inv: "kernel_inv s" and mv: "moves a s s'"
  shows "kernel_inv s'"
proof -
  from mv obtain p p' where m: "pcbs s a = Some p" "pcbs s' = (pcbs s)(a \<mapsto> p')" "k_stack_pt p' = k_stack_pt p"
    "malloc_cnt s \<le> malloc_cnt s'" "malloc_fails s' = malloc_fails s" "fresh_pcb s' = fresh_pcb s"
    "length (u_page_table p') = length (u_page_table p)" "krnl_page_table s' = krnl_page_table s"
    by (auto simp: moves_def keeps_def same_pcb_def)
  show ?thesis
  proof (rule inv_intro [OF inv m(5,6)])
    show "isolated (frames_of s')" using load.keeps_isolation [OF mv] inv by (simp add: kernel_inv_def)
    fix b x assume x: "pcbs s' b = Some x"
    then obtain y where "pcbs s b = Some y" "sized x = sized y"
      using m(1-3,7) by (auto simp: sized_def split: if_splits)
    then show "b < malloc_cnt s' \<and> sized x"
      using inv m(4) unfolding kernel_inv_def by (metis less_le_trans)
  qed (rule m(8))
qed

section \<open>The steps of the loader\<close>

text \<open>Any change of one process, the free list and the allocator that creates no frame.\<close>

lemma moves_intro:
  assumes "pcbs s a = Some p" and "pcbs s' = (pcbs s)(a \<mapsto> p')" and "same_pcb p p'"
    and "used (u_page_table p') + nonzero (free_frames s') \<subseteq># used (u_page_table p) + nonzero (free_frames s)"
    and "malloc_cnt s \<le> malloc_cnt s'" and "keeps s s'"
    and "confined (table_frames (u_page_table p) \<union> set (free_frames s)) s s'"
  shows "moves a s s'"
  using assms unfolding moves_def by blast

lemmas same_defs = keeps_def same_pcb_def confined_pmem


lemma moves_store: "proc_store a v bs s = Inr s' \<Longrightarrow> moves a s s'"
proof -
  assume "proc_store a v bs s = Inr s'"
  then obtain p m where p: "pcbs s a = Some p" "s' = s\<lparr>pmem := m\<rparr>" "vm_store (pmem s) (u_page_table p) v bs = Inr m"
    by (auto simp: proc_store_def)
  have "confined (table_frames (u_page_table p) \<union> set (free_frames s)) s s'"
    using vm_store_confined [OF p(3)] p(2) by (auto simp: confined_def)
  then show ?thesis using p by (intro moves_intro [of s a p s' p]) (auto simp: same_defs)
qed

lemma moves_read: "read_segment prog fa v n a s = Inr (ok, s') \<Longrightarrow> moves a s s'"
  by (auto simp: read_segment_def Let_def dest!: moves_store)

lemma fill_used:
  "fill i to f t = Inr t' \<Longrightarrow> (\<And>i e. valid (f i e) = valid e \<and> pfn (f i e) = pfn e) \<Longrightarrow>
   used t' = used t \<and> length t' = length t"
proof (induction i to f t rule: fill.induct)
  case (1 i to f t)
  let ?e = "f i (t ! nat i)"
  show ?case
  proof (cases "i < to")
    case True
    with "1.prems"(1) have r: "0 \<le> i" "i < int (length t)" "fill (i + 1) to f (t[nat i := ?e]) = Inr t'"
      by (auto simp: fill.simps [of i] split: if_splits)
    have "used [?e] = used [t ! nat i]" using "1.prems"(2) by simp
    then have "used (t[nat i := ?e]) = used t" using used_update [of "nat i" t ?e] r by auto
    then show ?thesis using "1.IH" [OF True _ r(3)] r "1.prems"(2) by simp
  next
    case False
    then show ?thesis using "1.prems"(1) by (simp add: fill.simps [of i])
  qed
qed

lemma moves_text_prot: "set_text_prot li a s = Inr s' \<Longrightarrow> moves a s s'"
proof -
  assume "set_text_prot li a s = Inr s'"
  then obtain p t where p: "pcbs s a = Some p" and s': "s' = s\<lparr>pcbs := (pcbs s)(a \<mapsto> p\<lparr>u_page_table := t\<rparr>)\<rparr>"
    and "used t = used (u_page_table p)" "length t = length (u_page_table p)"
    by (auto simp: set_text_prot_def set_pcb_def dest!: fill_used)
  then show ?thesis by (intro moves_intro [OF p, of s' "p\<lparr>u_page_table := t\<rparr>"]) (auto simp: same_defs)
qed

lemma map_down_frames:
  "map_down n i t ff = Inr (ok, t', ff') \<Longrightarrow> used t' + nonzero ff' \<subseteq># used t + nonzero ff \<and> length t' = length t"
proof (induction n arbitrary: i t ff)
  case (Suc n)
  obtain f ff1 where g: "grab ff = (f, ff1)" by (cases "grab ff")
  let ?e = "\<lparr>valid = True, prot = PROT_READ + PROT_WRITE, pfn = f\<rparr>"
  have nz: "nonzero ff = nonzero ff1 + used [?e]" using g by (rule nonzero_grab)
  show ?case
  proof (cases "f = 0")
    case True
    then show ?thesis using Suc.prems g nz by simp
  next
    case False
    with Suc.prems g have r: "0 \<le> i" "i < int (length t)" "map_down n (i - 1) (t[nat i := ?e]) ff1 = Inr (ok, t', ff')"
      by (auto split: if_splits)
    have "used (t[nat i := ?e]) + nonzero ff1 \<subseteq># used t + nonzero ff"
      using used_update_sub [of "nat i" t ?e] r nz by (simp add: ac_simps subset_mset.add_mono)
    with Suc.IH [OF r(3)] show ?thesis using subset_mset.order_trans by auto
  qed
qed simp

lemma moves_map_program:
  assumes run: "map_program li n a s = Inr (ok, s')"
  shows "moves a s s'"
proof -
  from run obtain p where p: "pcbs s a = Some p" by (auto simp: map_program_def)
  obtain t0 s0 where f: "free_table (u_page_table p) s = (t0, s0)" by (cases "free_table (u_page_table p) s")
  from free_table_effect [OF f] obtain m ff0 where s0: "s0 = s\<lparr>malloc_cnt := m, free_frames := ff0\<rparr>" "malloc_cnt s \<le> m"
    and l0: "length t0 = length (u_page_table p)"
    by blast
  have u0: "used t0 + nonzero ff0 \<subseteq># used (u_page_table p) + nonzero (free_frames s)"
    using free_table_frames [OF f] s0 by simp
  have fin: "moves a s x" if "pcbs x = (pcbs s)(a \<mapsto> p')" "same_pcb p p'"
    "used (u_page_table p') + nonzero (free_frames x) \<subseteq># used t0 + nonzero ff0"
    "malloc_cnt x = m" "keeps s x" "pmem x = pmem s" for x p'
    using moves_intro [OF p that(1,2)] that u0 s0(2) subset_mset.order_trans [OF that(3) u0] by (simp add: confined_pmem)
  from run p f s0 obtain ok1 t1 ff1 where
    m1: "map_range (text_pg1 li) (text_pg1 li + int (t_npg li)) t0 ff0 = Inr (ok1, t1, ff1)"
    by (auto simp: map_program_def)
  have u1: "used t1 + nonzero ff1 \<subseteq># used t0 + nonzero ff0" "length t1 = length (u_page_table p)"
    using map_range_frames [OF m1] l0 by simp_all
  show ?thesis
  proof (cases ok1)
    case False
    then show ?thesis using run p f s0 m1 u1
      by (intro fin [of _ "p\<lparr>u_page_table := t1\<rparr>"]) (auto simp: map_program_def set_table_def set_pcb_def same_defs)
  next
    case True
    with run p f s0 m1 obtain ok2 t2 ff2 where
      m2: "map_range (data_pg1 li) (data_pg1 li + int (data_npg li)) t1 ff1 = Inr (ok2, t2, ff2)"
      by (auto simp: map_program_def)
    have u2: "used t2 + nonzero ff2 \<subseteq># used t0 + nonzero ff0" "length t2 = length (u_page_table p)"
      using map_range_frames [OF m2] u1 by (auto intro: subset_mset.order_trans)
    show ?thesis
    proof (cases ok2)
      case False
      then show ?thesis using run p f s0 m1 True m2 u2
        by (intro fin [of _ "p\<lparr>u_page_table := t2\<rparr>"]) (auto simp: map_program_def set_table_def set_pcb_def same_defs)
    next
      case ok2: True
      with run p f s0 m1 True m2 obtain ok3 t3 ff3 where
        m3: "map_down n (page_of (VMEM_1_LIMIT - VMEM_1_BASE) - 1) t2 ff2 = Inr (ok3, t3, ff3)"
        by (auto simp: map_program_def Let_def)
      have u3: "used t3 + nonzero ff3 \<subseteq># used t0 + nonzero ff0" "length t3 = length (u_page_table p)"
        using map_down_frames [OF m3] u2 by (auto intro: subset_mset.order_trans)
      let ?h = "data_pg1 li + int (data_npg li)" and ?top = "page_of (VMEM_1_LIMIT - VMEM_1_BASE) - 1"
      show ?thesis
        using run p f s0 m1 True m2 ok2 m3 u3
        by (intro fin [of _ "if ok3 then p\<lparr>next_heap_pn := ?h, u_page_table := t3, next_stack_pn := ?top - int n\<rparr>
            else p\<lparr>next_heap_pn := ?h, u_page_table := t3\<rparr>"])
          (auto simp: map_program_def set_table_def set_pcb_def Let_def same_defs split: if_splits)
    qed
  qed
qed

lemma put_args_moves:
  "put_args a xs cpp cp s = Inr (c, s') \<Longrightarrow> xs = [] \<and> s' = s \<or> moves a s s'"
proof (induction xs arbitrary: cpp cp s)
  case (Cons x xs)
  then obtain s1 s2 where st: "proc_store a cpp (int_bytes (uint cp)) s = Inr s1" "proc_store a cp (x @ [0]) s1 = Inr s2"
    and r: "put_args a xs (cpp + 4) (cp + of_nat (length x + 1)) s2 = Inr (c, s')"
    by auto
  have "moves a s s2" using st moves_store moves_trans by blast
  with Cons.IH [OF r] show ?case using moves_trans by blast
qed simp

lemma moves_build_args: "build_args args a s = Inr s' \<Longrightarrow> moves a s s'"
proof -
  assume "build_args args a s = Inr s'"
  then obtain s1 s2 c s3 s4 x y z where
    "proc_store a (args_cpp args) x s = Inr s1" "proc_store a (args_cpp args) y s1 = Inr s2"
    and p: "put_args a args (args_cpp args + 4) (args_cp args) s2 = Inr (c, s3)"
    and "proc_store a c z s3 = Inr s4" "proc_store a (c + 4) z s4 = Inr s'"
    by (auto simp: build_args_def Let_def)
  then have "moves a s s2" "moves a s3 s'" using moves_store moves_trans by blast+
  then show ?thesis using put_args_moves [OF p] moves_trans by blast
qed

lemma moves_load_image:
  assumes run: "load_image prog li args a s = Inr (rc, s')"
  shows "moves a s s'"
proof -
  from run obtain ok s1 where m: "map_program li (nat (stack_npg args)) a s = Inr (ok, s1)"
    by (auto simp: load_image_def)
  note mv1 = moves_map_program [OF m]
  show ?thesis
  proof (cases ok)
    case False
    then show ?thesis using run m mv1 by (auto simp: load_image_def)
  next
    case True
    with run m obtain ok2 s2 where r2: "read_segment prog (t_faddr li) (t_vaddr li) (t_npg li) a s1 = Inr (ok2, s2)"
      by (auto simp: load_image_def)
    have mv2: "moves a s s2" using moves_trans [OF mv1 moves_read [OF r2]] .
    show ?thesis
    proof (cases ok2)
      case False
      then show ?thesis using run m True r2 mv2 by (auto simp: load_image_def)
    next
      case ok2: True
      with run m True r2 obtain ok3 s3 where r3: "read_segment prog (id_faddr li) (id_vaddr li) (id_npg li) a s2 = Inr (ok3, s3)"
        by (auto simp: load_image_def)
      have mv3: "moves a s s3" using moves_trans [OF mv2 moves_read [OF r3]] .
      show ?thesis
      proof (cases ok3)
        case False
        then show ?thesis using run m True r2 ok2 r3 mv3 by (auto simp: load_image_def)
      next
        case ok3: True
        with run m True r2 ok2 r3 obtain s4 s5 where s4: "set_text_prot li a s3 = Inr s4"
          and s5: "proc_store a (id_end li) (replicate (unat (ud_end li - id_end li)) 0) s4 = Inr s5"
          and b: "build_args args a (set_pcb a (\<lambda>p. p\<lparr>uctxt := (uctxt p)\<lparr>uc_pc := li_entry li\<rparr>\<rparr>) s5) = Inr s'"
          by (auto simp: load_image_def Let_def)
        have mv5: "moves a s s5" using moves_trans [OF moves_trans [OF mv3 moves_text_prot [OF s4]] moves_store [OF s5]] .
        from mv5 obtain p where p: "pcbs s5 a = Some p" by (auto simp: moves_def)
        have "moves a s5 (set_pcb a (\<lambda>p. p\<lparr>uctxt := (uctxt p)\<lparr>uc_pc := li_entry li\<rparr>\<rparr>) s5)"
          using p by (intro moves_intro [OF p, of _ "p\<lparr>uctxt := (uctxt p)\<lparr>uc_pc := li_entry li\<rparr>\<rparr>"])
            (auto simp: set_pcb_def same_defs)
        then show ?thesis using mv5 moves_build_args [OF b] moves_trans by blast
      qed
    qed
  qed
qed

lemma moves_load_program:
  assumes p: "pcbs s a = Some p" and run: "load_program fs name args a s = Inr (rc, s')"
  shows "moves a s s'"
proof -
  have refl: "moves a s s" using p by (intro moves_intro [of s a p s p]) (auto simp: same_defs)
  consider "s' = s" | sp x where "s' = x\<lparr>malloc_cnt := Suc (malloc_cnt x)\<rparr>"
      "x = set_pcb a (\<lambda>p. p\<lparr>uctxt := (uctxt p)\<lparr>uc_sp := sp\<rparr>\<rparr>) s"
    | sp prog li as x where "x = set_pcb a (\<lambda>p. p\<lparr>uctxt := (uctxt p)\<lparr>uc_sp := sp\<rparr>\<rparr>) s"
      "load_image prog li as a (x\<lparr>malloc_cnt := Suc (malloc_cnt x)\<rparr>) = Inr (rc, s')"
    using run by (auto simp: load_program_def malloc_def Let_def split: option.splits if_splits)
  then show ?thesis
  proof cases
    case 1
    then show ?thesis using refl by simp
  next
    case 2
    then show ?thesis using p
      by (intro moves_intro [OF p, of s' "p\<lparr>uctxt := (uctxt p)\<lparr>uc_sp := sp\<rparr>\<rparr>"]) (auto simp: set_pcb_def same_defs)
  next
    case 3
    have "moves a s (x\<lparr>malloc_cnt := Suc (malloc_cnt x)\<rparr>)"
      using p 3(1) by (intro moves_intro [OF p, of _ "p\<lparr>uctxt := (uctxt p)\<lparr>uc_sp := sp\<rparr>\<rparr>"]) (auto simp: set_pcb_def same_defs)
    then show ?thesis using moves_load_image [OF 3(2)] by (rule moves_trans)
  qed
qed

lemma exec_inv:
  assumes inv: "kernel_inv s" and run: "sys_Exec fs uc s = Inr r"
  shows "kernel_inv (kres_state r)"
proof -
  from run obtain me where me: "deref_ptr (pcbs s) (active_proc s) = Inr me" by (auto simp: sys_Exec_def)
  then obtain a where a: "active_proc s = Some a" "pcbs s a = Some me" by (cases "active_proc s") auto
  consider "kres_state r = s"
    | name as rc s1 where "load_program fs name as a s = Inr (rc, s1)" "quiet s1 (kres_state r)"
    using run a by (auto simp: sys_Exec_def return_initial_state_def copy_frame_def Let_def quiet_def split: if_splits)
  then show ?thesis
  proof cases
    case 2
    show ?thesis using quiet_inv [OF moves_inv [OF inv moves_load_program [OF a(2) 2(1)]] 2(2)] .
  qed (use inv in simp)
qed

end
