(* ===== verification/Loader_Properties.thy ===== *)
theory Loader_Properties
  imports Argument_Vector Loader_Isolation User_Samples
begin

text \<open>
  Loading a program: with a well-formed executable and enough frames the new address space holds
  the text, the data, zeros behind them, and the arguments on the stack.
\<close>

section \<open>The page table of the new program\<close>

lemma map_range_nth:
  assumes "i + n \<le> length t" and "n \<le> length ff" and "0 \<notin> set (take n ff)"
  obtains t' where "map_range (int i) (int i + int n) t ff = Inr (True, t', drop n ff)" and "length t' = length t"
    and "\<forall>j<length t. t' ! j = (if i \<le> j \<and> j < i + n then rw_entry (ff ! (j - i)) else t ! j)"
proof -
  let ?t = "take i t @ map rw_entry (take n ff) @ drop (i + n) t"
  have "map_range (int i) (int i + int n) t ff = Inr (True, ?t, drop n ff)"
    using map_range_exact [of "int i" n t ff] assms by simp
  moreover have "length ?t = length t" using assms by simp
  moreover have "\<forall>j<length t. ?t ! j = (if i \<le> j \<and> j < i + n then rw_entry (ff ! (j - i)) else t ! j)"
    using assms by (auto simp: nth_append min_def)
  ultimately show thesis by (rule that)
qed

lemma map_down_nth:
  "n \<le> length ff \<Longrightarrow> 0 \<notin> set (take n ff) \<Longrightarrow> int n \<le> i + 1 \<Longrightarrow> i < int (length t) \<Longrightarrow>
   \<exists>t'. map_down n i t ff = Inr (True, t', drop n ff) \<and> length t' = length t \<and>
     (\<forall>j<length t. t' ! j = (if i - int n < int j \<and> int j \<le> i then rw_entry (ff ! nat (i - int j)) else t ! j))"
proof (induction n arbitrary: i t ff)
  case (Suc n)
  then obtain f fs where ff: "ff = f # fs" by (cases ff) auto
  let ?t = "t[nat i := rw_entry f]"
  have f: "f \<noteq> 0" "0 \<notin> set (take n fs)" "n \<le> length fs" using Suc.prems ff by auto
  have "\<exists>t'. map_down n (i - 1) ?t fs = Inr (True, t', drop n fs) \<and> length t' = length ?t \<and>
     (\<forall>j<length ?t. t' ! j = (if i - 1 - int n < int j \<and> int j \<le> i - 1 then rw_entry (fs ! nat (i - 1 - int j)) else ?t ! j))"
    using Suc.prems f by (intro Suc.IH) auto
  then obtain t' where t': "map_down n (i - 1) ?t fs = Inr (True, t', drop n fs)" "length t' = length t"
    "\<forall>j<length t. t' ! j = (if i - 1 - int n < int j \<and> int j \<le> i - 1 then rw_entry (fs ! nat (i - 1 - int j)) else ?t ! j)"
    by auto
  have "map_down (Suc n) i t ff = Inr (True, t', drop (Suc n) ff)"
    using t'(1) f(1) ff Suc.prems by (simp add: rw_entry_def)
  moreover have "t' ! j = (if i - int (Suc n) < int j \<and> int j \<le> i then rw_entry (ff ! nat (i - int j)) else t ! j)"
    if j: "j < length t" for j
  proof (cases "int j = i")
    case True
    then show ?thesis using t'(3) [rule_format, OF j] ff j by auto
  next
    case False
    then have same: "?t ! j = t ! j" using Suc.prems(3) by (intro nth_list_update_neq) auto
    have "int j < i \<Longrightarrow> nat (i - int j) = Suc (nat (i - 1 - int j))" by simp
    then show ?thesis using t'(3) [rule_format, OF j] False ff unfolding same by auto
  qed
  ultimately show ?case using t'(2) by blast
qed auto

text \<open>
  The executable is well formed: page-aligned segments at pages \<open>tp\<close> and \<open>dp\<close>, in this order and with
  room for the stack, the uninitialised data behind the initialised data, all bytes in the file.
\<close>

definition image_ok :: "program \<Rightarrow> load_info \<Rightarrow> byte list list \<Rightarrow> nat \<Rightarrow> nat \<Rightarrow> bool" where
  "image_ok prog li xs tp dp \<longleftrightarrow> prog_info prog = Some li \<and> sint VMEM_1_BASE \<le> sint (li_entry li) \<and>
     unat (t_vaddr li) = 0x100000 + 8192 * tp \<and> unat (id_vaddr li) = 0x100000 + 8192 * dp \<and>
     tp + t_npg li \<le> dp \<and> int (dp + data_npg li) + stack_npg xs < 128 \<and>
     unat (id_vaddr li) \<le> unat (id_end li) \<and> unat (id_end li) \<le> unat (ud_end li) \<and>
     unat (ud_end li) \<le> unat (id_vaddr li) + 8192 * data_npg li \<and>
     unat (id_end li) \<le> unat (id_vaddr li) + 8192 * id_npg li \<and>
     t_faddr li + 8192 * t_npg li \<le> length (prog_bytes prog) \<and>
     id_faddr li + 8192 * id_npg li \<le> length (prog_bytes prog) \<and> small_args xs"

lemma region_page: "unat v = 0x100000 + 8192 * n \<Longrightarrow> n < 128 \<Longrightarrow> page_of (v - VMEM_1_BASE) = int n"
proof -
  assume v: "unat v = 0x100000 + 8192 * n" and n: "n < 128"
  have u: "uint v = 0x100000 + 8192 * int n" 
  proof -
    have "uint v = int (unat v)" by simp
    then show ?thesis unfolding v by simp
  qed
  have "VMEM_1_BASE \<le> v" using u by (simp add: word_le_def)
  then have "uint (v - VMEM_1_BASE) = 8192 * int n" using uint_minus_le u by simp
  then show ?thesis using n by (subst page_of_small) simp_all
qed

lemma stack_pages:
  assumes "small_args xs"
  shows "stack_npg xs = 128 - int ((unat (args_cpp xs) - 0x100000) div 8192)"
    and "0x100000 \<le> unat (args_cpp xs)" and "unat (args_cpp xs) < 0x200000"
proof -
  let ?b = "args_cpp xs"
  show lo: "0x100000 \<le> unat ?b" and hi: "unat ?b < 0x200000"
    using args_layout(2,3) [OF assms] assms by (simp_all add: small_args_def)
  have u: "uint ?b = int (unat ?b)" by simp
  have d: "uint (DOWN_TO_PAGE ?b) = int (unat ?b div 8192 * 8192)" unfolding uint_DOWN_TO_PAGE u by (simp add: zdiv_int)
  have le: "unat ?b div 8192 \<le> 255" using hi by simp
  have "DOWN_TO_PAGE ?b \<le> VMEM_1_LIMIT" using d le by (simp add: word_le_def)
  then have "uint (VMEM_1_LIMIT - DOWN_TO_PAGE ?b) = 0x200000 - int (unat ?b div 8192 * 8192)"
    using uint_minus_le d by simp
  also have "\<dots> = 8192 * int (256 - unat ?b div 8192)" using le by (simp add: of_nat_diff)
  finally have e: "uint (VMEM_1_LIMIT - DOWN_TO_PAGE ?b) = 8192 * int (256 - unat ?b div 8192)" .
  have "page_of (VMEM_1_LIMIT - DOWN_TO_PAGE ?b) = int (256 - unat ?b div 8192)"
    using e by (subst page_of_small) simp_all
  moreover have "(unat ?b - 0x100000) div 8192 = unat ?b div 8192 - 128"
  proof -
    have "unat ?b = (unat ?b - 0x100000) + 128 * 8192" using lo by simp
    then have "unat ?b div 8192 = (unat ?b - 0x100000) div 8192 + 128" by (metis div_mult_self1 zero_neq_numeral add.commute)
    then show ?thesis by simp
  qed
  moreover have "128 \<le> unat ?b div 8192" using lo by (simp add: le_div_geq)
  ultimately show "stack_npg xs = 128 - int ((unat ?b - 0x100000) div 8192)"
    using le by (simp add: stack_npg_def args_sp_def of_nat_diff)
qed

lemma take_nonzero: "0 \<notin> set (take n ff) \<Longrightarrow> n \<le> length ff \<Longrightarrow> k < n \<Longrightarrow> ff ! k \<noteq> (0 :: nat)"
  by (metis in_set_conv_nth length_take min.absorb2 nth_take)

text \<open>The frames a new program can have: those of the old one, then the free ones.\<close>

definition load_frames :: "pcb \<Rightarrow> kstate \<Rightarrow> nat list" where
  "load_frames p s = rev (page_frames (u_page_table p)) @ free_frames s"

text \<open>The pages of a loaded program.\<close>

definition program_pages :: "nat \<Rightarrow> nat \<Rightarrow> nat \<Rightarrow> nat \<Rightarrow> nat \<Rightarrow> nat \<Rightarrow> bool" where
  "program_pages tp tn dp dn sn j \<longleftrightarrow> tp \<le> j \<and> j < tp + tn \<or> dp \<le> j \<and> j < dp + dn \<or> 128 - sn \<le> j"

lemma map_program_ok:
  assumes p: "pcbs s a = Some p" and ok: "mem_ok s" and len: "length (u_page_table p) = 128"
    and tp: "text_pg1 li = int tp" and dp: "data_pg1 li = int dp"
    and fit: "tp + t_npg li \<le> dp" "dp + data_npg li + sn < 128"
    and enough: "t_npg li + data_npg li + sn \<le> length (load_frames p s)" "0 \<notin> set (take (t_npg li + data_npg li + sn) (load_frames p s))"
  obtains t n where "map_program li sn a s = Inr (True, s\<lparr>malloc_cnt := n,
       free_frames := drop (t_npg li + data_npg li + sn) (load_frames p s), hw := hw s @ [HW_TLB_FLUSH TLB_FLUSH_1],
       pcbs := (pcbs s)(a \<mapsto> p\<lparr>next_heap_pn := int (dp + data_npg li), u_page_table := t, next_stack_pn := 127 - int sn\<rparr>)\<rparr>)"
    and "length t = 128"
    and "\<forall>j<128. (valid (t ! j) \<longleftrightarrow> program_pages tp (t_npg li) dp (data_npg li) sn j) \<and>
           (valid (t ! j) \<longrightarrow> prot (t ! j) = 3 \<and> pfn (t ! j) \<noteq> 0)"
proof -
  let ?tn = "t_npg li" and ?dn = "data_npg li" and ?L = "load_frames p s" and ?t0 = "map invalidate (u_page_table p)"
  let ?n = "malloc_cnt s + length (filter valid (u_page_table p))"
  have f: "free_table (u_page_table p) s = (?t0, s\<lparr>malloc_cnt := ?n, free_frames := ?L\<rparr>)"
    using free_table_ok [OF ok] by (simp add: load_frames_def page_frames_def)
  have t0: "\<forall>j<128. \<not> valid (?t0 ! j)" using len by (simp add: invalidate_def)
  have z: "0 \<notin> set (take ?tn ?L)" "0 \<notin> set (take ?dn (drop ?tn ?L))" "0 \<notin> set (take sn (drop ?dn (drop ?tn ?L)))"
    using enough(2) unfolding take_add drop_drop by (simp_all add: add.commute)
  have l: "?tn \<le> length ?L" "?dn \<le> length (drop ?tn ?L)" "sn \<le> length (drop ?dn (drop ?tn ?L))" using enough(1) by simp_all
  have b1: "tp + ?tn \<le> length ?t0" using fit len by simp
  from b1 l(1) z(1) obtain t1 where
    m1: "map_range (int tp) (int tp + int ?tn) ?t0 ?L = Inr (True, t1, drop ?tn ?L)" "length t1 = length ?t0"
    "\<forall>j<length ?t0. t1 ! j = (if tp \<le> j \<and> j < tp + ?tn then rw_entry (?L ! (j - tp)) else ?t0 ! j)"
    by (rule map_range_nth)
  have b2: "dp + ?dn \<le> length t1" using fit len m1(2) by simp
  from b2 l(2) z(2) obtain t2 where
    m2: "map_range (int dp) (int dp + int ?dn) t1 (drop ?tn ?L) = Inr (True, t2, drop ?dn (drop ?tn ?L))" "length t2 = length t1"
    "\<forall>j<length t1. t2 ! j = (if dp \<le> j \<and> j < dp + ?dn then rw_entry (drop ?tn ?L ! (j - dp)) else t1 ! j)"
    by (rule map_range_nth)
  have b3: "int sn \<le> 127 + 1" "127 < int (length t2)" using fit len m1(2) m2(2) by simp_all
  from map_down_nth [OF l(3) z(3) b3] obtain t3 where
    m3: "map_down sn 127 t2 (drop ?dn (drop ?tn ?L)) = Inr (True, t3, drop sn (drop ?dn (drop ?tn ?L)))" "length t3 = length t2"
    "\<forall>j<length t2. t3 ! j = (if 127 - int sn < int j \<and> int j \<le> 127 then rw_entry (drop ?dn (drop ?tn ?L) ! nat (127 - int j)) else t2 ! j)"
    by blast
  have lens: "length t1 = 128" "length t2 = 128" "length t3 = 128" using m1(2) m2(2) m3(2) len by simp_all
  have top: "page_of (VMEM_1_LIMIT - VMEM_1_BASE) - 1 = 127" by (simp add: page_of_small)
  have "map_program li sn a s = Inr (True, s\<lparr>malloc_cnt := ?n,
       free_frames := drop (?tn + ?dn + sn) ?L, hw := hw s @ [HW_TLB_FLUSH TLB_FLUSH_1],
       pcbs := (pcbs s)(a \<mapsto> p\<lparr>next_heap_pn := int (dp + ?dn), u_page_table := t3, next_stack_pn := 127 - int sn\<rparr>)\<rparr>)"
    using p f m1(1) m2(1) m3(1) unfolding map_program_def tp dp top
    by (simp add: kernel_simps add.commute add.left_commute)
  moreover have "(valid (t3 ! j) \<longleftrightarrow> program_pages tp ?tn dp ?dn sn j) \<and> (valid (t3 ! j) \<longrightarrow> prot (t3 ! j) = 3 \<and> pfn (t3 ! j) \<noteq> 0)"
    if j: "j < 128" for j
  proof -
    have e3: "t3 ! j = (if 128 - sn \<le> j then rw_entry (drop ?dn (drop ?tn ?L) ! (127 - j)) else t2 ! j)"
    proof -
      have "(127 - int sn < int j \<and> int j \<le> 127) = (128 - sn \<le> j)" "nat (127 - int j) = 127 - j" using j by auto
      then show ?thesis using m3(3) j lens by simp
    qed
    have e2: "t2 ! j = (if dp \<le> j \<and> j < dp + ?dn then rw_entry (drop ?tn ?L ! (j - dp)) else t1 ! j)" using m2(3) j lens by simp
    have e1: "t1 ! j = (if tp \<le> j \<and> j < tp + ?tn then rw_entry (?L ! (j - tp)) else ?t0 ! j)" using m1(3) j len by simp
    have n3: "128 - sn \<le> j \<Longrightarrow> drop ?dn (drop ?tn ?L) ! (127 - j) \<noteq> 0"
      using take_nonzero [OF z(3) l(3), of "127 - j"] j by (cases "sn = 0") auto
    have n2: "dp \<le> j \<Longrightarrow> j < dp + ?dn \<Longrightarrow> drop ?tn ?L ! (j - dp) \<noteq> 0"
      using take_nonzero [OF z(2) l(2), of "j - dp"] by simp
    have n1: "tp \<le> j \<Longrightarrow> j < tp + ?tn \<Longrightarrow> ?L ! (j - tp) \<noteq> 0"
      using take_nonzero [OF z(1) l(1), of "j - tp"] by simp
    show ?thesis
      using n1 n2 n3 t0 j unfolding e3 e2 e1 program_pages_def
      by (simp only: if_split [of "\<lambda>x. _ x"]) (auto simp: rw_entry_def)
  qed
  ultimately show thesis using that lens(3) by blast
qed

section \<open>Access to the new address space\<close>

lemma rw_range_pages:
  assumes "0x100000 \<le> unat v" and "unat v + n \<le> 0x200000"
    and pg: "\<forall>j<128. (unat v - 0x100000) div 8192 \<le> j \<and> 0x100000 + 8192 * j < unat v + n \<longrightarrow> valid (t ! j) \<and> prot (t ! j) = 3"
    and len: "length t = 128"
  shows "rw_range t v n"
proof -
  have "translate t need (v + of_nat k) = Inr (pfn (t ! ((unat v + k - 0x100000) div 8192)), (unat v + k) mod 8192)"
    if k: "k < n" and need: "need \<in> {1, 2}" for k need
  proof -
    let ?j = "(unat v + k - 0x100000) div 8192"
    have u: "unat (v + of_nat k) = unat v + k" using assms(2) k by (intro unat_add_small) simp
    have "(unat v - 0x100000) div 8192 \<le> ?j" by (rule div_le_mono) simp
    moreover have "8192 * ?j \<le> unat v + k - 0x100000" by simp
    then have "0x100000 + 8192 * ?j < unat v + n" "?j < 128" using assms(1,2) k by linarith+
    ultimately have "valid (t ! ?j)" "prot (t ! ?j) = 3" "?j < 128" using pg by auto
    then show ?thesis using assms(1,2) k need len unfolding translate_def u Let_def by auto
  qed
  then show ?thesis by (simp add: rw_range_def mapped_def)
qed

lemma load_frames_distinct:
  assumes inv: "kernel_inv s" and run: "map_program li n a s = Inr (ok, s')" and p: "pcbs s' a = Some p"
    and nz: "\<forall>j<length (u_page_table p). valid (u_page_table p ! j) \<longrightarrow> pfn (u_page_table p ! j) \<noteq> 0"
  shows "frames_distinct (u_page_table p)"
proof -
  have "isolated (frames_of s')"
    using moves_inv [OF inv moves_map_program [OF run]] by (simp add: kernel_inv_def)
  then show ?thesis unfolding frames_distinct_def
    using isolated_pages [OF _ p _ _ p] nz by blast
qed

text \<open>Reading depends only on the frames and the read permission.\<close>

lemma byte_at_table:
  assumes "length t' = length t"
    and "\<forall>j<length t. valid (t' ! j) = valid (t ! j) \<and> pfn (t' ! j) = pfn (t ! j) \<and> odd (prot (t' ! j)) = odd (prot (t ! j))"
  shows "byte_at m t' x = byte_at m t x"
proof -
  have "translate t' PROT_READ x = translate t PROT_READ x"
    using assms by (auto simp: translate_def Let_def)
  then show ?thesis by (simp add: byte_at_def)
qed

lemma rw_range_segment:
  assumes "unat v = 0x100000 + 8192 * q" and "q + n \<le> 128" and "length t = 128"
    and "\<forall>j<128. q \<le> j \<and> j < q + n \<longrightarrow> valid (t ! j) \<and> prot (t ! j) = 3"
  shows "rw_range t v (8192 * n)"
  using assms by (intro rw_range_pages) auto

section \<open>The segments\<close>

lemma take_drop_nth: "k < n \<Longrightarrow> fa + n \<le> length bs \<Longrightarrow> take n (drop fa bs) ! k = bs ! (fa + k)"
  by simp

lemma read_segment_ok:
  assumes p: "pcbs s a = Some p" and d: "frames_distinct (u_page_table p)"
    and seg: "unat v = 0x100000 + 8192 * q" "q + n \<le> 128" "length (u_page_table p) = 128"
      "\<forall>j<128. q \<le> j \<and> j < q + n \<longrightarrow> valid (u_page_table p ! j) \<and> prot (u_page_table p ! j) = 3"
    and enough: "fa + 8192 * n \<le> length (prog_bytes prog)"
  obtains m where "read_segment prog fa v n a s = Inr (True, s\<lparr>pmem := m\<rparr>)"
    and "\<forall>x. byte_at m (u_page_table p) x = (if unat v \<le> unat x \<and> unat x < unat v + 8192 * n
           then Some (prog_bytes prog ! (fa + (unat x - unat v))) else byte_at (pmem s) (u_page_table p) x)"
proof -
  let ?bs = "take (n * PAGESIZE) (drop fa (prog_bytes prog))"
  have len: "length ?bs = 8192 * n" using enough by simp
  have r: "rw_range (u_page_table p) v (length ?bs)" "unat v + length ?bs \<le> 0x200000"
    unfolding len using rw_range_segment [OF seg] seg(1,2) by simp_all
  from p d r obtain m where st: "proc_store a v ?bs s = Inr (s\<lparr>pmem := m\<rparr>)"
    and m: "\<forall>x. byte_at m (u_page_table p) x = (if unat v \<le> unat x \<and> unat x < unat v + length ?bs
           then Some (?bs ! (unat x - unat v)) else byte_at (pmem s) (u_page_table p) x)"
    by (rule proc_store_bytes)
  have "read_segment prog fa v n a s = Inr (True, s\<lparr>pmem := m\<rparr>)"
    using st len by (simp add: read_segment_def Let_def mult.commute)
  moreover have "byte_at m (u_page_table p) x = (if unat v \<le> unat x \<and> unat x < unat v + 8192 * n
           then Some (prog_bytes prog ! (fa + (unat x - unat v))) else byte_at (pmem s) (u_page_table p) x)" for x
    using m [unfolded len] take_drop_nth [of "unat x - unat v" "n * PAGESIZE" fa "prog_bytes prog"] enough
    by (auto simp: mult.commute)
  ultimately show thesis by (intro that [of m]) simp_all
qed

lemma set_text_prot_ok:
  assumes p: "pcbs s a = Some p" and len: "length (u_page_table p) = 128"
    and tp: "text_pg1 li = int tp" "tp + t_npg li \<le> 128"
  obtains t where "set_text_prot li a s = Inr (s\<lparr>pcbs := (pcbs s)(a \<mapsto> p\<lparr>u_page_table := t\<rparr>)\<rparr>)" and "length t = 128"
    and "\<forall>j<128. t ! j = (if tp \<le> j \<and> j < tp + t_npg li then (u_page_table p ! j)\<lparr>prot := 5\<rparr> else u_page_table p ! j)"
proof -
  let ?f = "\<lambda>_ e. e\<lparr>prot := PROT_READ + PROT_EXEC\<rparr>"
  have "\<exists>t. fill (int tp) (int tp + int (t_npg li)) ?f (u_page_table p) = Inr t \<and> length t = length (u_page_table p) \<and>
     (\<forall>j<length (u_page_table p). t ! j = (if int tp \<le> int j \<and> int j < int tp + int (t_npg li)
        then ?f (int j) (u_page_table p ! j) else u_page_table p ! j))"
    using len tp(2) by (intro fill_exact) simp_all
  then obtain t where t: "fill (int tp) (int tp + int (t_npg li)) ?f (u_page_table p) = Inr t" "length t = 128"
    "\<forall>j<128. t ! j = (if tp \<le> j \<and> j < tp + t_npg li then ?f (int j) (u_page_table p ! j) else u_page_table p ! j)"
    unfolding len by (auto simp flip: of_nat_add)
  then show thesis using p tp(1) by (intro that [of t]) (simp_all add: set_text_prot_def set_pcb_def)
qed

section \<open>The loaded image\<close>

text \<open>
  What the new program finds: its text, its initialised data up to \<open>id_end\<close>, zeros from there to
  \<open>ud_end\<close>, the argument count at the stack pointer and the argument vector behind it.
\<close>

definition image_in :: "(nat \<Rightarrow> nat \<Rightarrow> byte) \<Rightarrow> pte list \<Rightarrow> program \<Rightarrow> load_info \<Rightarrow> byte list list \<Rightarrow> bool" where
  "image_in m t prog li xs \<longleftrightarrow>
     bytes_are m t (t_vaddr li) (take (8192 * t_npg li) (drop (t_faddr li) (prog_bytes prog))) \<and>
     bytes_are m t (id_vaddr li) (take (unat (id_end li) - unat (id_vaddr li)) (drop (id_faddr li) (prog_bytes prog))) \<and>
     bytes_are m t (id_end li) (replicate (unat (ud_end li) - unat (id_end li)) 0) \<and>
     bytes_are m t (args_sp xs) (int_bytes (int (length xs))) \<and>
     argv_at m t (args_sp xs + 4) (args_cp xs) xs"

text \<open>Text pages are read and execute, data and stack pages read and write, nothing else is mapped.\<close>

definition program_table :: "pte list \<Rightarrow> nat \<Rightarrow> nat \<Rightarrow> nat \<Rightarrow> nat \<Rightarrow> nat \<Rightarrow> bool" where
  "program_table t tp tn dp dn sn \<longleftrightarrow> length t = 128 \<and> frames_distinct t \<and>
     (\<forall>j<128. (valid (t ! j) \<longleftrightarrow> program_pages tp tn dp dn sn j) \<and>
        (valid (t ! j) \<longrightarrow> pfn (t ! j) \<noteq> 0 \<and> prot (t ! j) = (if tp \<le> j \<and> j < tp + tn then 5 else 3)))"

lemma file_bytes_are:
  assumes "\<And>x. unat v \<le> unat x \<Longrightarrow> unat x < unat v + n \<Longrightarrow> byte_at m t x = Some (bs ! (fa + (unat x - unat v)))"
    and "fa + n \<le> length bs" and "unat v + n \<le> 0x200000"
  shows "bytes_are m t v (take n (drop fa bs))"
proof (rule bytes_are_intro)
  have len: "length (take n (drop fa bs)) = n" using assms(2) by simp
  show "unat v + length (take n (drop fa bs)) \<le> 0x200000" unfolding len by (rule assms(3))
  fix x :: u32 assume "unat v \<le> unat x" "unat x < unat v + length (take n (drop fa bs))"
  then show "byte_at m t x = Some (take n (drop fa bs) ! (unat x - unat v))"
    unfolding len using assms(1) [of x] take_drop_nth [of "unat x - unat v" n fa bs] assms(2) by simp
qed

text \<open>The pages of a well-formed executable and of the stack do not overlap.\<close>

lemma image_layout:
  assumes "image_ok prog li xs tp dp" and "sn = nat (stack_npg xs)"
  shows "text_pg1 li = int tp" and "data_pg1 li = int dp" and "dp + data_npg li + sn < 128"
    and "0x100000 + 8192 * (dp + data_npg li) \<le> unat (args_cpp xs)"
    and "sn + (unat (args_cpp xs) - 0x100000) div 8192 = 128"
proof -
  let ?b = "args_cpp xs" and ?dn = "data_npg li"
  have ok: "small_args xs" "tp + t_npg li \<le> dp" "unat (t_vaddr li) = 0x100000 + 8192 * tp"
    "unat (id_vaddr li) = 0x100000 + 8192 * dp" "int (dp + ?dn) + stack_npg xs < 128"
    using assms(1) by (simp_all add: image_ok_def)
  note st = stack_pages [OF ok(1)]
  have lt: "(unat ?b - 0x100000) div 8192 < 128" using st(3) by simp
  show sn: "sn + (unat ?b - 0x100000) div 8192 = 128" unfolding assms(2) st(1) using lt by simp
  show room: "dp + ?dn + sn < 128" using ok(5) lt unfolding assms(2) st(1) by simp
  have "dp + ?dn \<le> (unat ?b - 0x100000) div 8192" using room sn by simp
  then have "(dp + ?dn) * 8192 \<le> unat ?b - 0x100000" by (simp add: less_eq_div_iff_mult_less_eq)
  then show "0x100000 + 8192 * (dp + ?dn) \<le> unat ?b" using st(2) by simp
  have "tp < 128" "dp < 128" using room ok(2) by simp_all
  then show "text_pg1 li = int tp" "data_pg1 li = int dp"
    unfolding text_pg1_def data_pg1_def using region_page [OF ok(3)] region_page [OF ok(4)] by blast+
qed

text \<open>The address space once text and data have been read and the text has been protected.\<close>

definition segments_in :: "(nat \<Rightarrow> nat \<Rightarrow> byte) \<Rightarrow> pte list \<Rightarrow> program \<Rightarrow> load_info \<Rightarrow> bool" where
  "segments_in m t prog li \<longleftrightarrow>
     (\<forall>x. unat (t_vaddr li) \<le> unat x \<and> unat x < unat (t_vaddr li) + 8192 * t_npg li \<longrightarrow>
        byte_at m t x = Some (prog_bytes prog ! (t_faddr li + (unat x - unat (t_vaddr li))))) \<and>
     (\<forall>x. unat (id_vaddr li) \<le> unat x \<and> unat x < unat (id_vaddr li) + 8192 * id_npg li \<longrightarrow>
        byte_at m t x = Some (prog_bytes prog ! (id_faddr li + (unat x - unat (id_vaddr li)))))"

lemma load_segments_ok:
  assumes p: "pcbs s a = Some p" and dist: "frames_distinct (u_page_table p)" and len: "length (u_page_table p) = 128"
    and ok: "image_ok prog li xs tp dp" and sn: "sn = nat (stack_npg xs)"
    and tab: "\<forall>j<128. (valid (u_page_table p ! j) \<longleftrightarrow> program_pages tp (t_npg li) dp (data_npg li) sn j) \<and>
       (valid (u_page_table p ! j) \<longrightarrow> prot (u_page_table p ! j) = 3 \<and> pfn (u_page_table p ! j) \<noteq> 0)"
  obtains m1 m2 t where "read_segment prog (t_faddr li) (t_vaddr li) (t_npg li) a s = Inr (True, s\<lparr>pmem := m1\<rparr>)"
    and "read_segment prog (id_faddr li) (id_vaddr li) (id_npg li) a (s\<lparr>pmem := m1\<rparr>) = Inr (True, s\<lparr>pmem := m2\<rparr>)"
    and "set_text_prot li a (s\<lparr>pmem := m2\<rparr>) = Inr (s\<lparr>pmem := m2, pcbs := (pcbs s)(a \<mapsto> p\<lparr>u_page_table := t\<rparr>)\<rparr>)"
    and "program_table t tp (t_npg li) dp (data_npg li) sn" and "segments_in m2 t prog li"
proof -
  let ?tn = "t_npg li" and ?dn = "data_npg li" and ?t = "u_page_table p"
  have ord: "tp + ?tn \<le> dp" and t_v: "unat (t_vaddr li) = 0x100000 + 8192 * tp" and d_v: "unat (id_vaddr li) = 0x100000 + 8192 * dp"
    and f1: "t_faddr li + 8192 * ?tn \<le> length (prog_bytes prog)" and f2: "id_faddr li + 8192 * id_npg li \<le> length (prog_bytes prog)"
    using ok by (simp_all add: image_ok_def)
  note lay = image_layout [OF ok sn]
  have dn: "id_npg li \<le> ?dn" by (simp add: data_npg_def)
  have a1: "tp + ?tn \<le> 128" "\<forall>j<128. tp \<le> j \<and> j < tp + ?tn \<longrightarrow> valid (?t ! j) \<and> prot (?t ! j) = 3"
    using ord lay(3) tab by (auto simp: program_pages_def)
  from p dist t_v a1(1) len a1(2) f1 obtain m1 where
    s2: "read_segment prog (t_faddr li) (t_vaddr li) ?tn a s = Inr (True, s\<lparr>pmem := m1\<rparr>)"
    and m1: "\<forall>x. byte_at m1 ?t x = (if unat (t_vaddr li) \<le> unat x \<and> unat x < unat (t_vaddr li) + 8192 * ?tn
           then Some (prog_bytes prog ! (t_faddr li + (unat x - unat (t_vaddr li)))) else byte_at (pmem s) ?t x)"
    by (rule read_segment_ok)
  have p2: "pcbs (s\<lparr>pmem := m1\<rparr>) a = Some p" using p by simp
  have a2: "dp + id_npg li \<le> 128" "\<forall>j<128. dp \<le> j \<and> j < dp + id_npg li \<longrightarrow> valid (?t ! j) \<and> prot (?t ! j) = 3"
    using lay(3) dn tab by (auto simp: program_pages_def)
  from p2 dist d_v a2(1) len a2(2) f2 obtain m2 where
    s3: "read_segment prog (id_faddr li) (id_vaddr li) (id_npg li) a (s\<lparr>pmem := m1\<rparr>) = Inr (True, s\<lparr>pmem := m1, pmem := m2\<rparr>)"
    and m2: "\<forall>x. byte_at m2 ?t x = (if unat (id_vaddr li) \<le> unat x \<and> unat x < unat (id_vaddr li) + 8192 * id_npg li
           then Some (prog_bytes prog ! (id_faddr li + (unat x - unat (id_vaddr li)))) else byte_at (pmem (s\<lparr>pmem := m1\<rparr>)) ?t x)"
    by (rule read_segment_ok)
  have p3: "pcbs (s\<lparr>pmem := m2\<rparr>) a = Some p" using p by simp
  from p3 len lay(1) a1(1) obtain t' where
    s4: "set_text_prot li a (s\<lparr>pmem := m2\<rparr>) = Inr (s\<lparr>pmem := m2, pcbs := (pcbs (s\<lparr>pmem := m2\<rparr>))(a \<mapsto> p\<lparr>u_page_table := t'\<rparr>)\<rparr>)"
    and tl': "length t' = 128"
    and tab': "\<forall>j<128. t' ! j = (if tp \<le> j \<and> j < tp + ?tn then (?t ! j)\<lparr>prot := 5\<rparr> else ?t ! j)"
    by (rule set_text_prot_ok)
  have e: "valid (t' ! j) = valid (?t ! j)" "pfn (t' ! j) = pfn (?t ! j)" if "j < 128" for j using tab' that by simp_all
  have "byte_at mm t' x = byte_at mm ?t x" for mm x
  proof (rule byte_at_table)
    show "\<forall>j<length ?t. valid (t' ! j) = valid (?t ! j) \<and> pfn (t' ! j) = pfn (?t ! j) \<and> odd (prot (t' ! j)) = odd (prot (?t ! j))"
      using a1(2) tab' len by auto
  qed (use len tl' in simp)
  moreover have "unat (t_vaddr li) + 8192 * ?tn \<le> unat (id_vaddr li)" using ord t_v d_v by simp
  ultimately have seg: "segments_in m2 t' prog li" unfolding segments_in_def by (auto simp: m1 m2)
  have "frames_distinct t'" using dist e len tl' unfolding frames_distinct_def by simp
  moreover have "prot (t' ! j) = (if tp \<le> j \<and> j < tp + ?tn then 5 else 3)" if "j < 128" "valid (t' ! j)" for j
    using tab tab' e that by simp
  ultimately have "program_table t' tp ?tn dp ?dn sn" using tab e tl' unfolding program_table_def by simp
  with s2 s3 s4 seg show thesis by (intro that) simp_all
qed

text \<open>Clearing the uninitialised data and building the arguments leaves text and data as they are.\<close>

lemma load_tail_ok:
  assumes p: "pcbs s a = Some p" and tab: "program_table (u_page_table p) tp (t_npg li) dp (data_npg li) sn"
    and ok: "image_ok prog li xs tp dp" and sn: "sn = nat (stack_npg xs)"
    and seg: "segments_in (pmem s) (u_page_table p) prog li"
  obtains m1 m2 where
    "proc_store a (id_end li) (replicate (unat (ud_end li - id_end li)) 0) s = Inr (s\<lparr>pmem := m1\<rparr>)"
    and "build_args xs a (set_pcb a (\<lambda>p. p\<lparr>uctxt := (uctxt p)\<lparr>uc_pc := li_entry li\<rparr>\<rparr>) (s\<lparr>pmem := m1\<rparr>)) =
       Inr (s\<lparr>pcbs := (pcbs s)(a \<mapsto> p\<lparr>uctxt := (uctxt p)\<lparr>uc_pc := li_entry li\<rparr>\<rparr>), pmem := m2\<rparr>)"
    and "image_in m2 (u_page_table p) prog li xs"
proof -
  let ?dn = "data_npg li" and ?t = "u_page_table p" and ?b = "args_cpp xs"
  let ?z = "replicate (unat (ud_end li - id_end li)) (0 :: byte)"
  have small: "small_args xs" and ord: "tp + t_npg li \<le> dp" and t_v: "unat (t_vaddr li) = 0x100000 + 8192 * tp"
    and d_v: "unat (id_vaddr li) = 0x100000 + 8192 * dp"
    and e: "unat (id_vaddr li) \<le> unat (id_end li)" "unat (id_end li) \<le> unat (ud_end li)"
      "unat (ud_end li) \<le> unat (id_vaddr li) + 8192 * ?dn" "unat (id_end li) \<le> unat (id_vaddr li) + 8192 * id_npg li"
    and f: "t_faddr li + 8192 * t_npg li \<le> length (prog_bytes prog)" "id_faddr li + 8192 * id_npg li \<le> length (prog_bytes prog)"
    using ok by (simp_all add: image_ok_def)
  note lay = image_layout [OF ok sn] and st = stack_pages(2,3) [OF small]
  have t: "length ?t = 128" "frames_distinct ?t"
    and pg: "\<forall>j<128. (valid (?t ! j) \<longleftrightarrow> program_pages tp (t_npg li) dp ?dn sn j) \<and>
      (valid (?t ! j) \<longrightarrow> prot (?t ! j) = (if tp \<le> j \<and> j < tp + t_npg li then 5 else 3))"
    using tab by (simp_all add: program_table_def)
  have top: "0x100000 + 8192 * (dp + ?dn) \<le> 0x200000" using lay(3) by simp
  have lim: "unat (ud_end li - id_end li) = unat (ud_end li) - unat (id_end li)" using e(2) by (simp add: unat_sub word_le_nat_alt)
  have data: "rw_range ?t (id_vaddr li) (8192 * ?dn)"
    using lay(3) ord pg by (intro rw_range_segment [OF d_v _ t(1)]) (auto simp: program_pages_def)
  have zr: "rw_range ?t (id_end li) (length ?z)" "unat (id_end li) + length ?z \<le> 0x200000"
  proof -
    have "id_end li = id_vaddr li + of_nat (unat (id_end li) - unat (id_vaddr li))"
      using e(1) by (simp add: word_unat_eq_iff unat_word_ariths unat_of_nat)
    then show "rw_range ?t (id_end li) (length ?z)"
      using rw_range_sub [OF data, of "unat (id_end li) - unat (id_vaddr li)" "length ?z"] e unfolding length_replicate lim by simp
    show "unat (id_end li) + length ?z \<le> 0x200000" using e d_v top unfolding length_replicate lim by simp
  qed
  from p t(2) zr obtain m1 where s1: "proc_store a (id_end li) ?z s = Inr (s\<lparr>pmem := m1\<rparr>)"
    and "\<forall>x. byte_at m1 ?t x = (if unat (id_end li) \<le> unat x \<and> unat x < unat (id_end li) + length ?z
           then Some (?z ! (unat x - unat (id_end li))) else byte_at (pmem s) ?t x)"
    by (rule proc_store_bytes)
  then have m1: "\<forall>x. byte_at m1 ?t x = (if unat (id_end li) \<le> unat x \<and> unat x < unat (ud_end li) then Some 0 else byte_at (pmem s) ?t x)"
    using e(2) unfolding length_replicate lim by auto
  let ?p = "p\<lparr>uctxt := (uctxt p)\<lparr>uc_pc := li_entry li\<rparr>\<rparr>" and ?s = "s\<lparr>pmem := m1, pcbs := (pcbs s)(a \<mapsto> p\<lparr>uctxt := (uctxt p)\<lparr>uc_pc := li_entry li\<rparr>\<rparr>)\<rparr>"
  have stack: "rw_range ?t ?b (0x200000 - unat ?b)"
    using st lay(3,5) ord pg by (intro rw_range_pages) (auto simp: t(1) program_pages_def)
  have "\<exists>m. build_args xs a ?s = Inr (?s\<lparr>pmem := m\<rparr>) \<and>
     bytes_are m (u_page_table ?p) ?b (int_bytes (int (length xs))) \<and>
     argv_at m (u_page_table ?p) (?b + 4) (args_cp xs) xs \<and>
     (\<forall>x. unat x < unat ?b \<longrightarrow> byte_at m (u_page_table ?p) x = byte_at (pmem ?s) (u_page_table ?p) x)"
    using t(2) stack small by (intro build_args_ok) simp_all
  then obtain m2 where s2: "build_args xs a ?s = Inr (?s\<lparr>pmem := m2\<rparr>)" and argc: "bytes_are m2 ?t ?b (int_bytes (int (length xs)))"
    and av: "argv_at m2 ?t (?b + 4) (args_cp xs) xs" and m2: "\<And>x. unat x < unat ?b \<Longrightarrow> byte_at m2 ?t x = byte_at m1 ?t x"
    by auto
  have "bytes_are m2 ?t (t_vaddr li) (take (8192 * t_npg li) (drop (t_faddr li) (prog_bytes prog)))"
    using seg lay(4) ord t_v d_v e(1) f(1) top by (intro file_bytes_are) (auto simp: m2 m1 segments_in_def)
  moreover have "bytes_are m2 ?t (id_vaddr li) (take (unat (id_end li) - unat (id_vaddr li)) (drop (id_faddr li) (prog_bytes prog)))"
    using seg lay(4) d_v e f(2) top by (intro file_bytes_are) (auto simp: m2 m1 segments_in_def)
  moreover have "bytes_are m2 ?t (id_end li) (replicate (unat (ud_end li) - unat (id_end li)) 0)"
    using lay(4) d_v e top by (intro bytes_are_intro) (auto simp: m2 m1)
  ultimately have "image_in m2 ?t prog li xs" using argc av by (simp add: image_in_def args_sp_def)
  then show thesis using s1 s2 p by (intro that) (simp_all add: set_pcb_def)
qed

lemma load_image_ok:
  assumes inv: "kernel_inv s" and p: "pcbs s a = Some p" and len: "length (u_page_table p) = 128"
    and ok: "image_ok prog li xs tp dp" and sn: "sn = nat (stack_npg xs)"
    and enough: "t_npg li + data_npg li + sn \<le> length (load_frames p s)" "0 \<notin> set (take (t_npg li + data_npg li + sn) (load_frames p s))"
  shows "\<exists>s' t. load_image prog li xs a s = Inr (0, s') \<and>
     pcbs s' = (pcbs s)(a \<mapsto> p\<lparr>next_heap_pn := int (dp + data_npg li), u_page_table := t, next_stack_pn := 127 - int sn,
       uctxt := (uctxt p)\<lparr>uc_pc := li_entry li\<rparr>\<rparr>) \<and>
     free_frames s' = drop (t_npg li + data_npg li + sn) (load_frames p s) \<and>
     program_table t tp (t_npg li) dp (data_npg li) sn \<and> image_in (pmem s') t prog li xs"
proof -
  let ?tn = "t_npg li" and ?dn = "data_npg li"
  have ord: "tp + ?tn \<le> dp" and ok_s: "mem_ok s" using ok inv by (simp_all add: image_ok_def kernel_inv_def)
  note lay = image_layout [OF ok sn]
  from p ok_s len lay(1,2) ord lay(3) enough obtain t n where
    s1: "map_program li sn a s = Inr (True, s\<lparr>malloc_cnt := n,
       free_frames := drop (?tn + ?dn + sn) (load_frames p s), hw := hw s @ [HW_TLB_FLUSH TLB_FLUSH_1],
       pcbs := (pcbs s)(a \<mapsto> p\<lparr>next_heap_pn := int (dp + ?dn), u_page_table := t, next_stack_pn := 127 - int sn\<rparr>)\<rparr>)"
      (is "_ = Inr (True, ?s1)")
    and tl: "length t = 128"
    and tab: "\<forall>j<128. (valid (t ! j) \<longleftrightarrow> program_pages tp ?tn dp ?dn sn j) \<and> (valid (t ! j) \<longrightarrow> prot (t ! j) = 3 \<and> pfn (t ! j) \<noteq> 0)"
    by (rule map_program_ok)
  let ?p1 = "p\<lparr>next_heap_pn := int (dp + ?dn), u_page_table := t, next_stack_pn := 127 - int sn\<rparr>"
  have p1: "pcbs ?s1 a = Some ?p1" by simp
  have d1: "frames_distinct (u_page_table ?p1)" using load_frames_distinct [OF inv s1 p1] tab tl by simp
  have t1: "length (u_page_table ?p1) = 128"
    "\<forall>j<128. (valid (u_page_table ?p1 ! j) \<longleftrightarrow> program_pages tp ?tn dp ?dn sn j) \<and>
       (valid (u_page_table ?p1 ! j) \<longrightarrow> prot (u_page_table ?p1 ! j) = 3 \<and> pfn (u_page_table ?p1 ! j) \<noteq> 0)"
    using tl tab by simp_all
  from p1 d1 t1(1) ok sn t1(2) obtain m1 m2 t' where
    s2: "read_segment prog (t_faddr li) (t_vaddr li) ?tn a ?s1 = Inr (True, ?s1\<lparr>pmem := m1\<rparr>)"
      "read_segment prog (id_faddr li) (id_vaddr li) (id_npg li) a (?s1\<lparr>pmem := m1\<rparr>) = Inr (True, ?s1\<lparr>pmem := m2\<rparr>)"
      "set_text_prot li a (?s1\<lparr>pmem := m2\<rparr>) = Inr (?s1\<lparr>pmem := m2, pcbs := (pcbs ?s1)(a \<mapsto> ?p1\<lparr>u_page_table := t'\<rparr>)\<rparr>)"
    and tab': "program_table t' tp ?tn dp ?dn sn" and seg: "segments_in m2 t' prog li"
    by (rule load_segments_ok)
  let ?s2 = "?s1\<lparr>pmem := m2, pcbs := (pcbs ?s1)(a \<mapsto> ?p1\<lparr>u_page_table := t'\<rparr>)\<rparr>"
  have p2: "pcbs ?s2 a = Some (?p1\<lparr>u_page_table := t'\<rparr>)" "program_table (u_page_table (?p1\<lparr>u_page_table := t'\<rparr>)) tp ?tn dp ?dn sn"
    "segments_in (pmem ?s2) (u_page_table (?p1\<lparr>u_page_table := t'\<rparr>)) prog li"
    using tab' seg by simp_all
  from p2(1,2) ok sn p2(3) obtain m3 m4 where
    s3: "proc_store a (id_end li) (replicate (unat (ud_end li - id_end li)) 0) ?s2 = Inr (?s2\<lparr>pmem := m3\<rparr>)"
      "build_args xs a (set_pcb a (\<lambda>p. p\<lparr>uctxt := (uctxt p)\<lparr>uc_pc := li_entry li\<rparr>\<rparr>) (?s2\<lparr>pmem := m3\<rparr>)) =
       Inr (?s2\<lparr>pcbs := (pcbs ?s2)(a \<mapsto> ?p1\<lparr>u_page_table := t', uctxt := (uctxt (?p1\<lparr>u_page_table := t'\<rparr>))\<lparr>uc_pc := li_entry li\<rparr>\<rparr>), pmem := m4\<rparr>)"
    and im: "image_in m4 (u_page_table (?p1\<lparr>u_page_table := t'\<rparr>)) prog li xs"
    by (rule load_tail_ok)
  have "load_image prog li xs a s = Inr (0, ?s2\<lparr>pcbs := (pcbs ?s2)(a \<mapsto> ?p1\<lparr>u_page_table := t', uctxt := (uctxt p)\<lparr>uc_pc := li_entry li\<rparr>\<rparr>), pmem := m4\<rparr>)"
    unfolding load_image_def sn [symmetric] s1
    by (simp only: res_bind_simps prod.case if_False if_True not_True_eq_False s2 s3 Let_def) simp
  then show ?thesis using tab' im by (intro exI [of _ t'] exI) auto
qed

section \<open>load_program\<close>

text \<open>A well-formed executable behind the name, and enough frames for it.\<close>

definition loadable :: "program \<Rightarrow> load_info \<Rightarrow> byte list list \<Rightarrow> nat \<Rightarrow> nat \<Rightarrow> pcb \<Rightarrow> kstate \<Rightarrow> bool" where
  "loadable prog li xs tp dp p s \<longleftrightarrow> image_ok prog li xs tp dp \<and>
     (let n = t_npg li + data_npg li + nat (stack_npg xs) in
      n \<le> length (load_frames p s) \<and> 0 \<notin> set (take n (load_frames p s)))"

text \<open>The process when the loader starts on its address space: only the stack pointer is new.\<close>

definition entering :: "byte list list \<Rightarrow> addr \<Rightarrow> kstate \<Rightarrow> kstate" where
  "entering xs a s = (let s = set_pcb a (\<lambda>p. p\<lparr>uctxt := (uctxt p)\<lparr>uc_sp := args_sp xs\<rparr>\<rparr>) s
     in s\<lparr>malloc_cnt := Suc (malloc_cnt s)\<rparr>)"

lemma load_program_enters:
  assumes inv: "kernel_inv s" and p: "pcbs s a = Some p" and f: "fs name = Some prog'"
    and prog: "prog_info prog' = prog_info prog" and ok: "loadable prog li xs tp dp p s"
  shows "load_program fs name (Inr xs) a s = load_image prog' li xs a (entering xs a s)"
proof -
  have im: "image_ok prog li xs tp dp" using ok by (simp add: loadable_def)
  then have "prog_info prog' = Some li" "\<not> sint (li_entry li) < sint VMEM_1_BASE" "int (dp + data_npg li) + stack_npg xs < 128"
    using prog by (simp_all add: image_ok_def)
  moreover have "malloc_fails s (malloc_cnt s) = False" using inv by (simp add: kernel_inv_def mem_ok_def)
  ultimately show ?thesis using image_layout(2) [OF im refl] f
    by (simp add: kernel_simps load_program_def entering_def p)
qed

lemma entering_inv:
  assumes inv: "kernel_inv s" and p: "pcbs s a = Some p"
  shows "kernel_inv (entering xs a s)" and "pcbs (entering xs a s) = (pcbs s)(a \<mapsto> p\<lparr>uctxt := (uctxt p)\<lparr>uc_sp := args_sp xs\<rparr>\<rparr>)"
    and "load_frames (p\<lparr>uctxt := (uctxt p)\<lparr>uc_sp := args_sp xs\<rparr>\<rparr>) (entering xs a s) = load_frames p s"
proof -
  show pcb: "pcbs (entering xs a s) = (pcbs s)(a \<mapsto> p\<lparr>uctxt := (uctxt p)\<lparr>uc_sp := args_sp xs\<rparr>\<rparr>)"
    using p by (simp add: kernel_simps entering_def)
  have "moves a s (entering xs a s)"
    by (rule moves_intro [OF p pcb]) (auto simp: kernel_simps entering_def same_defs)
  then show "kernel_inv (entering xs a s)" by (rule moves_inv [OF inv])
  show "load_frames (p\<lparr>uctxt := (uctxt p)\<lparr>uc_sp := args_sp xs\<rparr>\<rparr>) (entering xs a s) = load_frames p s"
    by (simp add: kernel_simps load_frames_def entering_def)
qed

lemma load_program_installs:
  assumes inv: "kernel_inv s" and p: "pcbs s a = Some p" and f: "fs name = Some prog"
    and ok: "loadable prog li xs tp dp p s" and args: "\<forall>x\<in>set xs. 0 \<notin> set x"
  shows "\<exists>s' p'. load_program fs name (Inr xs) a s = Inr (0, s') \<and> pcbs s' = (pcbs s)(a \<mapsto> p') \<and>
     uc_pc (uctxt p') = li_entry li \<and> uc_sp (uctxt p') = args_sp xs \<and>
     next_heap_pn p' = int (dp + data_npg li) \<and> next_stack_pn p' = 127 - stack_npg xs \<and>
     free_frames s' = drop (t_npg li + data_npg li + nat (stack_npg xs)) (load_frames p s) \<and>
     program_table (u_page_table p') tp (t_npg li) dp (data_npg li) (nat (stack_npg xs)) \<and>
     image_in (pmem s') (u_page_table p') prog li xs \<and>
     argv (pmem s') (u_page_table p') (args_sp xs + 4) = Inr xs"
proof -
  let ?p = "p\<lparr>uctxt := (uctxt p)\<lparr>uc_sp := args_sp xs\<rparr>\<rparr>" and ?sn = "nat (stack_npg xs)"
  have im: "image_ok prog li xs tp dp" using ok by (simp add: loadable_def)
  note e = entering_inv [OF inv p, of xs]
  have len: "length (u_page_table p) = 128" using inv p by (auto simp: kernel_inv_def sized_def)
  have "\<exists>s' t. load_image prog li xs a (entering xs a s) = Inr (0, s') \<and>
     pcbs s' = (pcbs (entering xs a s))(a \<mapsto> ?p\<lparr>next_heap_pn := int (dp + data_npg li), u_page_table := t,
       next_stack_pn := 127 - int ?sn, uctxt := (uctxt ?p)\<lparr>uc_pc := li_entry li\<rparr>\<rparr>) \<and>
     free_frames s' = drop (t_npg li + data_npg li + ?sn) (load_frames ?p (entering xs a s)) \<and>
     program_table t tp (t_npg li) dp (data_npg li) ?sn \<and> image_in (pmem s') t prog li xs"
    using ok unfolding loadable_def Let_def e(3) [symmetric]
    by (intro load_image_ok [OF e(1)]) (simp_all add: e(2) len)
  then obtain s' t where l: "load_image prog li xs a (entering xs a s) = Inr (0, s')"
    "pcbs s' = (pcbs s)(a \<mapsto> ?p\<lparr>next_heap_pn := int (dp + data_npg li), u_page_table := t,
       next_stack_pn := 127 - int ?sn, uctxt := (uctxt ?p)\<lparr>uc_pc := li_entry li\<rparr>\<rparr>)" (is "_ = (pcbs s)(a \<mapsto> ?p')")
    "free_frames s' = drop (t_npg li + data_npg li + ?sn) (load_frames p s)"
    "program_table t tp (t_npg li) dp (data_npg li) ?sn" "image_in (pmem s') t prog li xs"
    unfolding e(2,3) by auto
  have st: "int ?sn = stack_npg xs"
  proof -
    have "small_args xs" using im by (simp add: image_ok_def)
    from stack_pages(1,3) [OF this] show ?thesis by simp
  qed
  have "argv (pmem s') t (args_sp xs + 4) = Inr xs"
    using l(5) args argv_at_argv unfolding image_in_def by blast
  then show ?thesis using load_program_enters [of s a p fs name prog prog li xs tp dp] inv p f ok l st
    by (intro exI [of _ s'] exI [of _ ?p']) simp
qed

text \<open>C7: load_program replaces the address space exactly. For a well-formed executable with enough
  frames (those of the old program are reused first) it returns 0, only process \<open>a\<close> changes, the
  new page table has the text read-only and executable, the data and the stack writable and nothing
  else mapped, no frame twice; the memory holds the text, the initialised data and zeros behind it;
  pc is the entry point, sp points to argc, and the argument vector behind it reads back as the
  arguments.\<close>

theorem load_program_exact:
  assumes inv: "kernel_inv s" and p: "pcbs s a = Some p" and f: "fs name = Some prog"
    and ok: "loadable prog li xs tp dp p s" and args: "\<forall>x\<in>set xs. 0 \<notin> set x"
  shows "\<exists>s' p'. load_program fs name (Inr xs) a s = Inr (0, s') \<and> pcbs s' = (pcbs s)(a \<mapsto> p') \<and>
     uc_pc (uctxt p') = li_entry li \<and> uc_sp (uctxt p') = args_sp xs \<and>
     next_heap_pn p' = int (dp + data_npg li) \<and> next_stack_pn p' = 127 - stack_npg xs \<and>
     free_frames s' = drop (t_npg li + data_npg li + nat (stack_npg xs)) (load_frames p s) \<and>
     program_table (u_page_table p') tp (t_npg li) dp (data_npg li) (nat (stack_npg xs)) \<and>
     image_in (pmem s') (u_page_table p') prog li xs \<and>
     argv (pmem s') (u_page_table p') (args_sp xs + 4) = Inr xs"
  using assms by (rule load_program_installs)

subsection \<open>An executable for the sample machine\<close>

definition sample_li :: load_info where
  "sample_li = \<lparr>li_entry = 0x100010, t_vaddr = 0x100000, t_faddr = 0, t_npg = 1, id_vaddr = 0x104000,
     id_faddr = 8192, id_npg = 1, ud_npg = 1, id_end = 0x105000, ud_end = 0x107000\<rparr>"

definition sample_prog :: program where
  "sample_prog = \<lparr>prog_info = Some sample_li, prog_bytes = replicate 16384 7\<rparr>"

lemma sample_inv: "kernel_inv sample"
  using sample_isolated sample_mem_ok by (auto simp: kernel_inv_def sample_def sized_def sample_pcb_def sample_table_def kstack_mapped_def)

lemma sample_stack:
  assumes "xs \<in> {[], [[104, 105]]}"
  shows "small_args xs" and "stack_npg xs = 1"
proof -
  have n: "args_size xs \<le> 3" "length xs \<le> 1" using assms by auto
  then show small: "small_args xs" by (simp add: small_args_def)
  have "unat (args_cpp xs) < 0x200000" "0x1FE000 \<le> unat (args_cpp xs)"
    using args_layout(2,3) [OF small] n by simp_all
  then have "(unat (args_cpp xs) - 0x100000) div 8192 = 127" by simp
  then show "stack_npg xs = 1" using stack_pages(1) [OF small] by simp
qed

lemma sample_load_frames:
  "load_frames ((sample_pcb 0 200)\<lparr>u_page_table := sample_table\<rparr>) sample = [300, 400, 401, 402, 403, 404]"
proof -
  have "filter valid sample_table = [rw_entry 300]" by (simp add: sample_table_def null_pte_def numeral_eq_Suc)
  then show ?thesis by (simp add: load_frames_def page_frames_def)
qed

lemma sample_loadable:
  assumes "xs \<in> {[], [[104, 105]]}"
  shows "loadable sample_prog sample_li xs 0 2 ((sample_pcb 0 200)\<lparr>u_page_table := sample_table\<rparr>) sample"
proof -
  note st = sample_stack [OF assms]
  have "image_ok sample_prog sample_li xs 0 2"
    using st by (simp add: image_ok_def sample_prog_def sample_li_def data_npg_def)
  then show ?thesis
    using st by (simp add: loadable_def sample_load_frames sample_li_def data_npg_def Let_def)
qed

theorem load_program_exact_witness:
  "\<exists>s' p'. load_program (\<lambda>_. Some sample_prog) [] (Inr [[104, 105]]) 10 sample = Inr (0, s') \<and>
     pcbs s' = (pcbs sample)(10 \<mapsto> p') \<and> uc_pc (uctxt p') = 0x100010 \<and> free_frames s' = [403, 404] \<and>
     argv (pmem s') (u_page_table p') (args_sp [[104, 105]] + 4) = Inr [[104, 105]]"
proof -
  have "\<exists>s' p'. load_program (\<lambda>_. Some sample_prog) [] (Inr [[104, 105]]) 10 sample = Inr (0, s') \<and>
     pcbs s' = (pcbs sample)(10 \<mapsto> p') \<and> uc_pc (uctxt p') = li_entry sample_li \<and> uc_sp (uctxt p') = args_sp [[104, 105]] \<and>
     next_heap_pn p' = int (2 + data_npg sample_li) \<and> next_stack_pn p' = 127 - stack_npg [[104, 105]] \<and>
     free_frames s' = drop (t_npg sample_li + data_npg sample_li + nat (stack_npg [[104, 105]]))
       (load_frames ((sample_pcb 0 200)\<lparr>u_page_table := sample_table\<rparr>) sample) \<and>
     program_table (u_page_table p') 0 (t_npg sample_li) 2 (data_npg sample_li) (nat (stack_npg [[104, 105]])) \<and>
     image_in (pmem s') (u_page_table p') sample_prog sample_li [[104, 105]] \<and>
     argv (pmem s') (u_page_table p') (args_sp [[104, 105]] + 4) = Inr [[104, 105]]"
    by (rule load_program_exact [OF sample_inv _ _ sample_loadable]) simp_all
  moreover have "li_entry sample_li = 0x100010" "drop (t_npg sample_li + data_npg sample_li + nat (stack_npg [[104, 105]]))
       (load_frames ((sample_pcb 0 200)\<lparr>u_page_table := sample_table\<rparr>) sample) = [403, 404]"
    unfolding sample_load_frames by (simp_all add: sample_stack(2) sample_li_def data_npg_def)
  ultimately show ?thesis by metis
qed

section \<open>Exec of a truncated file\<close>

lemma read_segment_short:
  assumes p: "pcbs s a = Some p" and d: "frames_distinct (u_page_table p)"
    and seg: "unat v = 0x100000 + 8192 * q" "q + n \<le> 128" "length (u_page_table p) = 128"
      "\<forall>j<128. q \<le> j \<and> j < q + n \<longrightarrow> valid (u_page_table p ! j) \<and> prot (u_page_table p ! j) = 3"
    and short: "length (prog_bytes prog) < fa + 8192 * n" and pos: "0 < n"
  obtains m where "read_segment prog fa v n a s = Inr (False, s\<lparr>pmem := m\<rparr>)"
proof -
  let ?bs = "take (n * PAGESIZE) (drop fa (prog_bytes prog))"
  have le: "length ?bs < 8192 * n" using short pos by auto
  have "rw_range (u_page_table p) (v + of_nat 0) (length ?bs)"
    using le by (intro rw_range_sub [OF rw_range_segment [OF seg]]) simp
  then have r: "rw_range (u_page_table p) v (length ?bs)" "unat v + length ?bs \<le> 0x200000"
    using le seg(1,2) by simp_all
  from p d r obtain m where "proc_store a v ?bs s = Inr (s\<lparr>pmem := m\<rparr>)" by (rule proc_store_bytes)
  moreover have "length ?bs \<noteq> n * PAGESIZE" using le by simp
  ultimately show thesis by (intro that [of m]) (simp add: read_segment_def Let_def)
qed

lemma load_image_short:
  assumes inv: "kernel_inv s" and p: "pcbs s a = Some p" and len: "length (u_page_table p) = 128"
    and ok: "image_ok prog li xs tp dp" and sn: "sn = nat (stack_npg xs)"
    and enough: "t_npg li + data_npg li + sn \<le> length (load_frames p s)" "0 \<notin> set (take (t_npg li + data_npg li + sn) (load_frames p s))"
    and short: "length (prog_bytes prog') < t_faddr li + 8192 * t_npg li" and pos: "0 < t_npg li"
  shows "\<exists>s' t. load_image prog' li xs a s = Inr (KILL, s') \<and> active_proc s' = active_proc s \<and>
     pcbs s' = (pcbs s)(a \<mapsto> p\<lparr>next_heap_pn := int (dp + data_npg li), u_page_table := t, next_stack_pn := 127 - int sn\<rparr>) \<and>
     (\<forall>j<128. valid (t ! j) \<longleftrightarrow> program_pages tp (t_npg li) dp (data_npg li) sn j)"
proof -
  let ?tn = "t_npg li" and ?dn = "data_npg li"
  have ord: "tp + ?tn \<le> dp" and ok_s: "mem_ok s" and t_v: "unat (t_vaddr li) = 0x100000 + 8192 * tp"
    using ok inv by (simp_all add: image_ok_def kernel_inv_def)
  note lay = image_layout [OF ok sn]
  from p ok_s len lay(1,2) ord lay(3) enough obtain t n where
    s1: "map_program li sn a s = Inr (True, s\<lparr>malloc_cnt := n,
       free_frames := drop (?tn + ?dn + sn) (load_frames p s), hw := hw s @ [HW_TLB_FLUSH TLB_FLUSH_1],
       pcbs := (pcbs s)(a \<mapsto> p\<lparr>next_heap_pn := int (dp + ?dn), u_page_table := t, next_stack_pn := 127 - int sn\<rparr>)\<rparr>)"
      (is "_ = Inr (True, ?s1)")
    and tl: "length t = 128"
    and tab: "\<forall>j<128. (valid (t ! j) \<longleftrightarrow> program_pages tp ?tn dp ?dn sn j) \<and> (valid (t ! j) \<longrightarrow> prot (t ! j) = 3 \<and> pfn (t ! j) \<noteq> 0)"
    by (rule map_program_ok)
  let ?p1 = "p\<lparr>next_heap_pn := int (dp + ?dn), u_page_table := t, next_stack_pn := 127 - int sn\<rparr>"
  have p1: "pcbs ?s1 a = Some ?p1" by simp
  have d1: "frames_distinct (u_page_table ?p1)" using load_frames_distinct [OF inv s1 p1] tab tl by simp
  have a1: "tp + ?tn \<le> 128" "length (u_page_table ?p1) = 128"
    "\<forall>j<128. tp \<le> j \<and> j < tp + ?tn \<longrightarrow> valid (u_page_table ?p1 ! j) \<and> prot (u_page_table ?p1 ! j) = 3"
    using ord lay(3) tab tl by (auto simp: program_pages_def)
  from p1 d1 t_v a1 short pos obtain m where
    "read_segment prog' (t_faddr li) (t_vaddr li) ?tn a ?s1 = Inr (False, ?s1\<lparr>pmem := m\<rparr>)"
    by (rule read_segment_short)
  then have "load_image prog' li xs a s = Inr (KILL, ?s1\<lparr>pmem := m\<rparr>)"
    unfolding load_image_def sn [symmetric] s1 by simp
  then show ?thesis using tab by (intro exI [of _ "?s1\<lparr>pmem := m\<rparr>"] exI [of _ t]) simp
qed

text \<open>C37: Exec runs a program that could not be loaded. When the file ends inside the text segment,
  load_program returns KILL, which its comment reserves for a caller that must kill the process; sys_Exec
  compares with ERROR only and restarts the process: its old pages are gone, the pages of the new program
  are mapped, and the program counter is still the one saved for the old program.\<close>

theorem truncated_program_starts:
  assumes inv: "kernel_inv s" and run: "active_proc s = Some a" "pcbs s a = Some p"
    and args: "user_addr_ok (reg uc 1) p" "cstring (pmem s) (u_page_table p) (reg uc 0) = Inr name"
      "argv (pmem s) (u_page_table p) (reg uc 1) = Inr xs"
    and f: "fs name = Some (prog\<lparr>prog_bytes := take n (prog_bytes prog)\<rparr>)" and short: "n < t_faddr li + 8192 * t_npg li" "0 < t_npg li"
    and ok: "loadable prog li xs tp dp p s"
  shows "\<exists>s' p'. sys_Exec fs uc s = Inr (Restart s') \<and> active_proc s' = Some a \<and> pcbs s' a = Some p' \<and>
     uc_pc (uctxt p') = uc_pc (uctxt p) \<and>
     (\<forall>j<128. valid (u_page_table p' ! j) \<longleftrightarrow> program_pages tp (t_npg li) dp (data_npg li) (nat (stack_npg xs)) j)"
proof -
  let ?p = "p\<lparr>uctxt := (uctxt p)\<lparr>uc_sp := args_sp xs\<rparr>\<rparr>" and ?sn = "nat (stack_npg xs)"
  let ?prog = "prog\<lparr>prog_bytes := take n (prog_bytes prog)\<rparr>"
  note e = entering_inv [OF inv run(2), of xs]
  have len: "length (u_page_table p) = 128" using inv run(2) by (auto simp: kernel_inv_def sized_def)
  have "\<exists>s' t. load_image ?prog li xs a (entering xs a s) = Inr (KILL, s') \<and> active_proc s' = active_proc (entering xs a s) \<and>
     pcbs s' = (pcbs (entering xs a s))(a \<mapsto> ?p\<lparr>next_heap_pn := int (dp + data_npg li), u_page_table := t, next_stack_pn := 127 - int ?sn\<rparr>) \<and>
     (\<forall>j<128. valid (t ! j) \<longleftrightarrow> program_pages tp (t_npg li) dp (data_npg li) ?sn j)"
    using ok short unfolding loadable_def Let_def e(3) [symmetric]
    by (intro load_image_short [OF e(1), where prog = prog]) (simp_all add: e(2) len min_def)
  then obtain s' t where l: "load_image ?prog li xs a (entering xs a s) = Inr (KILL, s')" "active_proc s' = Some a"
    "pcbs s' a = Some (?p\<lparr>next_heap_pn := int (dp + data_npg li), u_page_table := t, next_stack_pn := 127 - int ?sn\<rparr>)"
    "\<forall>j<128. valid (t ! j) \<longleftrightarrow> program_pages tp (t_npg li) dp (data_npg li) ?sn j"
    using run(1) by (auto simp: kernel_simps entering_def)
  have "load_program fs name (Inr xs) a s = Inr (KILL, s')"
    using load_program_enters [of s a p fs name ?prog prog li xs tp dp] inv run(2) f ok l(1) by simp
  then have "sys_Exec fs uc s = Inr (Restart (snd (return_initial_state s')))"
    using run args by (simp add: sys_Exec_def)
  moreover have "active_proc (snd (return_initial_state s')) = Some a" "pcbs (snd (return_initial_state s')) = pcbs s'"
    using l(2) by (simp_all add: return_initial_state_def copy_frame_def Let_def)
  ultimately show ?thesis using l(3,4) by (intro exI conjI) (assumption | simp)+
qed

lemma sample_strings: "cstring (pmem sample) sample_table 0x106000 = Inr []" "argv (pmem sample) sample_table 0x106000 = Inr []"
proof -
  have z: "pmem sample f i = 0" for f i by (simp add: sample_def)
  have "mapped sample_table 1 0x106000 1" by (rule sample_mapped) simp_all
  then obtain c where "translate sample_table PROT_READ 0x106000 = Inr c" by (auto simp: mapped_def)
  then show "cstring (pmem sample) sample_table 0x106000 = Inr []"
    by (subst cstring.simps) (simp add: z del: PROT_READ_def)
  have m4: "mapped sample_table PROT_READ 0x106000 4" using sample_mapped [of 1 4] by simp
  have "byte_at (pmem sample) sample_table (0x106000 + of_nat k) = Some (int_bytes 0 ! k)" if k: "k < 4" for k
  proof -
    obtain c where "translate sample_table PROT_READ (0x106000 + of_nat k) = Inr c" using m4 k unfolding mapped_def by blast
    then show ?thesis using zero_bytes [OF k] z by (cases c) (simp add: byte_at_def del: PROT_READ_def)
  qed
  then have "argv_at (pmem sample) sample_table 0x106000 0 []" by (simp add: bytes_are_def)
  then show "argv (pmem sample) sample_table 0x106000 = Inr []" by (rule argv_at_argv) simp
qed

theorem truncated_program_starts_witness:
  "\<exists>s' p'. sys_Exec (\<lambda>_. Some (sample_prog\<lparr>prog_bytes := take 5 (prog_bytes sample_prog)\<rparr>)) (args 0x106000 0x106000 0) sample
       = Inr (Restart s') \<and> active_proc s' = Some 10 \<and> pcbs s' 10 = Some p' \<and> uc_pc (uctxt p') = uc_pc sample_uc"
proof -
  let ?p = "(sample_pcb 0 200)\<lparr>u_page_table := sample_table\<rparr>"
  have "\<exists>s' p'. sys_Exec (\<lambda>_. Some (sample_prog\<lparr>prog_bytes := take 5 (prog_bytes sample_prog)\<rparr>)) (args 0x106000 0x106000 0) sample
       = Inr (Restart s') \<and> active_proc s' = Some 10 \<and> pcbs s' 10 = Some p' \<and> uc_pc (uctxt p') = uc_pc (uctxt ?p) \<and>
     (\<forall>j<128. valid (u_page_table p' ! j) \<longleftrightarrow> program_pages 0 (t_npg sample_li) 2 (data_npg sample_li) (nat (stack_npg [])) j)"
    by (rule truncated_program_starts [where name = "[]" and n = 5 and prog = sample_prog])
      (use sample_inv sample_addr_ok sample_strings sample_loadable in \<open>simp_all add: sample_li_def\<close>)
  then show ?thesis by auto
qed

end
