(* ===== verification/Trap_Isolation.thy ===== *)
theory Trap_Isolation
  imports Loader_Isolation
begin

text \<open>
  The invariant across whole traps: every handler keeps it, and so do the context switches
  until some process is back in user mode.
\<close>

section \<open>Whole traps\<close>

lemma switched_in_quiet: "switched_in s = Inr (uc, s') \<Longrightarrow> quiet s s'"
  by (auto simp: switched_in_def quiet_def)

lemma resume_quiet: "resume_k k uc s = Inr r \<Longrightarrow> quiet s (kres_state r)"
proof -
  have st: "kres_state (cvar_rc x) = kres_state x" for x by (cases x rule: cvar_rc.cases) simp_all
  show "resume_k k uc s = Inr r \<Longrightarrow> quiet s (kres_state r)"
    by (cases k) (auto simp: st dest!: wait_resume_quiet tty_read_resume_quiet tty_loop_quiet pipe_resume_quiet
        acquire_resume_quiet cvar_resume_quiet)
qed

lemma resume_inv: "kernel_inv s \<Longrightarrow> resume_k k uc s = Inr r \<Longrightarrow> kernel_inv (kres_state r)"
  using quiet_inv resume_quiet by blast

lemma if_branchE: "(if c then x else y) = r \<Longrightarrow> (x = r \<Longrightarrow> Q) \<Longrightarrow> (y = r \<Longrightarrow> Q) \<Longrightarrow> Q"
  by (cases c) simp_all

lemma kernel_call_cases:
  assumes run: "trap_kernel_hdl fs uc s = Inr r"
  shows "sys_Brk uc s = Inr r \<or> sys_Fork uc s = Inr r \<or> sys_Exec fs uc s = Inr r \<or> sys_Exit uc 0 s = Inr r \<or>
      quiet s (kres_state r)"
proof -
  have getpid: "res_bind (sys_Getpid s) (\<lambda>p. Inr (Done (Some p) s)) = Inr r \<Longrightarrow> quiet s (kres_state r)" for r
    by auto
  have rel: "res_bind (sys_Release i s) (\<lambda>(rc, s). Inr (Done (Some rc) s)) = Inr r \<Longrightarrow> quiet s (kres_state r)" for i r
    by (auto dest!: release_quiet)
  show ?thesis
    using run unfolding trap_kernel_hdl_def Let_def
    by (elim if_branchE)
      (auto dest!: wait_quiet delay_quiet getpid tty_read_quiet tty_write_quiet pipe_init_quiet pipe_read_quiet
        pipe_write_quiet lock_init_quiet acquire_quiet rel cvar_init_quiet signal_quiet broadcast_quiet
        cvar_wait_quiet reclaim_quiet sem_quiet)
qed

lemma kernel_call_inv:
  assumes inv: "kernel_inv s" and run: "trap_kernel_hdl fs uc s = Inr r"
  shows "kernel_inv (kres_state r)"
  using kernel_call_cases [OF run] brk_inv [OF inv] fork_inv [OF inv] exec_inv [OF inv] exit_inv [OF inv] quiet_inv [OF inv]
  by blast

lemma run_inv:
  assumes "kernel_inv (kres_state r)" and "run fuel uc r = Some (Inr (uc', s'))"
  shows "kernel_inv s'"
  using assms
proof (induction fuel uc r rule: run.induct)
  case (2 fuel uc s)
  then show ?case using switched_in_quiet quiet_inv by auto
next
  case (4 fuel uc k s)
  then obtain sr where sr: "normal_schedule uc k s = Inr sr" by (auto split: sum.splits)
  have inv: "kernel_inv (sched_state sr)" using normal_schedule_inv [OF _ sr] "4.prems"(1) by simp
  show ?case
  proof (cases sr)
    case (SchedErr t)
    then show ?thesis using "4.prems"(2) sr inv by simp
  next
    case (NoSwitch t)
    then obtain x where "resume_k k uc t = Inr x" "run fuel uc x = Some (Inr (uc', s'))"
      using "4.prems"(2) sr by (auto split: sum.splits)
    then show ?thesis using "4.IH"(1) [OF sr] NoSwitch resume_inv inv by fastforce
  next
    case (Switched k' t)
    then obtain uc1 t1 x where sw: "switched_in t = Inr (uc1, t1)" and x: "resume_k k' uc1 t1 = Inr x"
      "run fuel uc1 x = Some (Inr (uc', s'))"
      using "4.prems"(2) sr by (auto split: sum.splits prod.splits)
    have "kernel_inv t1" using quiet_inv [OF _ switched_in_quiet [OF sw]] inv Switched by simp
    then have "kernel_inv (kres_state x)" using resume_inv x(1) by blast
    then show ?thesis using "4.IH"(2) [OF sr Switched sw refl x(1)] x(2) by simp
  qed
qed auto

lemma run_res_inv:
  assumes "\<And>x. r = Inr x \<Longrightarrow> kernel_inv (kres_state x)" and "run_res fuel uc r = Some (Inr (uc', s'))"
  shows "kernel_inv s'"
  using assms run_inv by (auto simp: run_res_def split: sum.splits)

lemma clock_inv:
  assumes inv: "kernel_inv s" and run: "run_sched fuel uc (trap_clock_hdl uc s) = Some (Inr (uc', s'))"
  shows "kernel_inv s'"
proof -
  from run obtain sr where sr: "trap_clock_hdl uc s = Inr sr" by (auto simp: run_sched_def split: sum.splits)
  then obtain rc t where "update_sleep_list s = Inr (rc, t)" and d: "do_scheduler uc t = Inr sr"
    by (auto simp: trap_clock_hdl_def)
  then have "kernel_inv t" using update_sleep_quiet quiet_inv [OF inv] by (auto simp: update_sleep_list_def)
  then have inv': "kernel_inv (sched_state sr)" using do_scheduler_inv d by blast
  show ?thesis
  proof (cases sr)
    case (Switched k t)
    with run sr obtain uc1 t1 where sw: "switched_in t = Inr (uc1, t1)"
      and r: "run_res fuel uc1 (resume_k k uc1 t1) = Some (Inr (uc', s'))"
      by (auto simp: run_sched_def split: sum.splits)
    have "kernel_inv t1" using quiet_inv [OF _ switched_in_quiet [OF sw]] inv' Switched by simp
    then show ?thesis using run_res_inv [OF _ r] resume_inv by blast
  qed (use run sr inv' in \<open>auto simp: run_sched_def\<close>)
qed

lemma trap_inv:
  assumes inv: "kernel_inv s" and run: "int_vector fs fuel line uc s = Some (Inr (uc', s'))"
  shows "kernel_inv s'"
proof -
  have k: "run_res fuel uc (trap_kernel_hdl fs uc s) = Some (Inr (uc', s')) \<Longrightarrow> kernel_inv s'"
    by (rule run_res_inv [OF kernel_call_inv [OF inv]])
  have m: "run_res fuel uc (trap_memory_hdl uc s) = Some (Inr (uc', s')) \<Longrightarrow> kernel_inv s'"
    by (rule run_res_inv [OF memory_inv [OF inv]])
  have e: "run_res fuel uc (sys_Exit uc 1 s) = Some (Inr (uc', s')) \<Longrightarrow> kernel_inv s'"
    by (rule run_res_inv [OF exit_inv [OF inv]])
  have d: "run_res fuel uc (trap_disk_hdl uc s) = Some (Inr (uc', s')) \<Longrightarrow> kernel_inv s'"
    using inv by (auto simp: trap_disk_hdl_def run_res_def)
  have r: "map_option (\<lambda>r. res_bind r (\<lambda>s. Inr (uc, s))) (trap_tty_receive_hdl fuel line uc s) = Some (Inr (uc', s'))
      \<Longrightarrow> kernel_inv s'"
    using tty_receive_quiet quiet_inv [OF inv] by auto
  have t: "Some (res_bind (trap_tty_transmit_hdl uc s) (\<lambda>s. Inr (uc, s))) = Some (Inr (uc', s')) \<Longrightarrow> kernel_inv s'"
    using tty_transmit_quiet quiet_inv [OF inv] by auto
  show ?thesis
    using run unfolding int_vector_def Let_def trap_illegal_hdl_def trap_math_hdl_def trap_undefined_hdl_def
    by (elim if_branchE)
      (erule k, erule clock_inv [OF inv], erule e, erule m, erule e, erule r, erule t, erule d, erule e, simp)
qed

end
