(* ===== verification/Boot.thy ===== *)
theory Boot
  imports Loader
begin

text \<open>
  kernel.c: KernelStart and the initialisation of queues, interrupt vector and the two first
  processes. The command line and the contents of the executables are parameters.
\<close>

section \<open>Queues and interrupt vector\<close>

text \<open>Each list is emptied and its head node allocated; the first failure ends the function.\<close>

fun init_lists :: "(kstate \<Rightarrow> kstate) list \<Rightarrow> kstate \<Rightarrow> kstate" where
  "init_lists [] s = s"
| "init_lists (clear # cs) s =
     (case malloc (clear s) of (None, s) \<Rightarrow> s | (Some _, s) \<Rightarrow> init_lists cs s)"

definition init_queues :: "kstate \<Rightarrow> kstate" where
  "init_queues s = init_lists
     [\<lambda>s. s\<lparr>ready_queue := []\<rparr>, \<lambda>s. s\<lparr>sleep_list := []\<rparr>, \<lambda>s. s\<lparr>dead_list := []\<rparr>,
      \<lambda>s. s\<lparr>wait_list := []\<rparr>, \<lambda>s. s\<lparr>io_list := []\<rparr>, \<lambda>s. s\<lparr>pipe_list := []\<rparr>,
      \<lambda>s. s\<lparr>lock_list := []\<rparr>, \<lambda>s. s\<lparr>cvar_list := []\<rparr>, \<lambda>s. s\<lparr>sem_list := []\<rparr>,
      \<lambda>s. s\<lparr>reclaim_list := []\<rparr>] s"

definition init_int_vector :: "kstate \<Rightarrow> kstate" where
  "init_int_vector s = s\<lparr>hw := hw s @ [HW_VECTOR_BASE]\<rparr>"

section \<open>The first two processes\<close>

text \<open>
  The part init_init and init_idle share: the pcb, its pid and its table of children. A
  failure to allocate the head of the children list is only reported.
\<close>

definition new_pcb :: "proc_state \<Rightarrow> user_context \<Rightarrow> addr \<Rightarrow> kstate \<Rightarrow> kstate res" where
  "new_pcb st uc a s =
     (let n = next_pid s in
      if n < 0 \<or> n \<ge> MAX_PROC then Inl OutOfBounds
      else
        let s = s\<lparr>pcbs := (pcbs s)(a \<mapsto> (fresh_pcb s a)\<lparr>uctxt := uc, state := st, pid := n, ppid := -1, children := []\<rparr>),
                  next_pid := n + 1, pcb_table := (pcb_table s)(n := Some a)\<rparr>
        in Inr (snd (malloc s)))"

text \<open>The kernel stack of init. \<open>False\<close>: no frame was left, and init_init returns.\<close>

fun init_kstack :: "nat list \<Rightarrow> addr \<Rightarrow> kstate \<Rightarrow> bool \<times> kstate" where
  "init_kstack [] a s = (True, s)"
| "init_kstack (i # is) a s =
     (case grab_a_frame s of
        (f, s) \<Rightarrow>
          if f = 0 then
            (False, set_pcb a (\<lambda>p. p\<lparr>k_stack_pt := (k_stack_pt p)[i := (k_stack_pt p ! i)\<lparr>valid := True,
               prot := PROT_READ + PROT_WRITE\<rparr>]\<rparr>) s)
          else
            init_kstack is a (set_pcb a (\<lambda>p. p\<lparr>k_stack_pt := (k_stack_pt p)[i := fresh_entry f]\<rparr>) s))"

text \<open>The cleared user page table becomes the one in use.\<close>

definition empty_region1 :: "addr \<Rightarrow> kstate \<Rightarrow> kstate" where
  "empty_region1 a s =
     (let s = set_pcb a (\<lambda>p. p\<lparr>u_page_table := replicate USER_PAGETABLE_SIZE null_pte\<rparr>) s
      in s\<lparr>hw := hw s @ [HW_PTBR1 a, HW_PTLR1 USER_PAGETABLE_SIZE]\<rparr>)"

text \<open>
  Loading into a new process; the result of load_program does not matter to the caller.
  Without a command line the name of init is NULL and open fails.
\<close>

definition load_first ::
    "(byte list \<Rightarrow> program option) \<Rightarrow> byte list option \<Rightarrow> byte list list res \<Rightarrow> addr \<Rightarrow> kstate \<Rightarrow> kstate res" where
  "load_first fs name args a s =
     res_bind (case name of None \<Rightarrow> Inr (ERROR, s) | Some nm \<Rightarrow> load_program fs nm args a s) (\<lambda>(_, s).
       Inr (s\<lparr>hw := hw s @ [HW_TLB_FLUSH TLB_FLUSH_1]\<rparr>))"

definition init_init ::
    "(byte list \<Rightarrow> program option) \<Rightarrow> user_context \<Rightarrow> byte list list \<Rightarrow> kstate \<Rightarrow> kstate res" where
  "init_init fs uc cmd_args s =
     (case malloc s of
        (None, s) \<Rightarrow> Inr (s\<lparr>p_init := None\<rparr>)
      | (Some a, s) \<Rightarrow>
          res_bind (new_pcb RUNNING uc a (s\<lparr>p_init := Some a\<rparr>)) (\<lambda>s.
          case init_kstack [0, 1] a s of
            (False, s) \<Rightarrow> Inr s
          | (True, s) \<Rightarrow>
              load_first fs (case cmd_args of [] \<Rightarrow> None | nm # _ \<Rightarrow> Some nm) (Inr (tl cmd_args)) a
                (empty_region1 a s)))"

text \<open>The characters of \<open>idle\<close>.\<close>

definition idle_name :: "byte list" where
  "idle_name = [0x69, 0x64, 0x6C, 0x65]"

text \<open>
  Only the frame numbers of idle's kernel stack are cleared. Its arguments are those behind
  the first word of the command line; with an empty command line that is behind its end.
\<close>

definition init_idle ::
    "(byte list \<Rightarrow> program option) \<Rightarrow> user_context \<Rightarrow> byte list list \<Rightarrow> kstate \<Rightarrow> kstate res" where
  "init_idle fs uc cmd_args s =
     (case malloc s of
        (None, s) \<Rightarrow> Inr (s\<lparr>p_idle := None\<rparr>)
      | (Some a, s) \<Rightarrow>
          res_bind (new_pcb READY uc a (s\<lparr>p_idle := Some a\<rparr>)) (\<lambda>s.
          let s = set_pcb a (\<lambda>p. p\<lparr>k_stack_pt := map (\<lambda>e. e\<lparr>pfn := 0\<rparr>) (k_stack_pt p)\<rparr>) s in
          load_first fs (Some idle_name) (if cmd_args = [] then Inl OutOfBounds else Inr (tl cmd_args)) a
            (empty_region1 a s)))"

declare new_pcb_def [kernel_simps] empty_region1_def [kernel_simps] grab_a_frame_def [kernel_simps]

section \<open>KernelStart\<close>

text \<open>
  A NULL p_idle would be a NULL entry of the ready queue; the run ends with the fault of
  its first use. The result of save_initial_kernel is not checked.
\<close>

definition KernelStart ::
    "(byte list \<Rightarrow> program option) \<Rightarrow> byte list list \<Rightarrow> u32 \<Rightarrow> user_context \<Rightarrow> kstate \<Rightarrow> (user_context \<times> kstate) res" where
  "KernelStart fs cmd_args pmem_size uc s =
     (let s = s\<lparr>total_frames := uint (drop_bit PAGESHIFT pmem_size), next_pid := 0, next_sem := 0,
                vmem_enabled := False, busy_terminal := replicate (nat NUM_TERMINALS) 0\<rparr>;
          s = gather_free_frames (init_int_vector (init_queues s))
      in
      res_bind (enable_vmem s) (\<lambda>s.
      res_bind (init_init fs uc cmd_args s) (\<lambda>s.
      res_bind (init_idle fs uc cmd_args s) (\<lambda>s.
      case p_idle s of
        None \<Rightarrow> Inl NullDeref
      | Some i \<Rightarrow>
          let s = snd (ready_insert i s);
              s = s\<lparr>active_proc := p_init s\<rparr>
          in switched_in (snd (save_initial_kernel K_Start s))))))"

end
