(* ===== verification/Boot_Properties.thy ===== *)
theory Boot_Properties
  imports Trap_Isolation Boot Samples
begin

text \<open>
  Boot: the kernel's page table, the invariant at the end of KernelStart, and with it the
  isolation of frames in every state the machine can reach by traps.
\<close>

section \<open>The kernel's page table\<close>

lemma enable_vmem_ok:
  assumes len: "length (krnl_page_table s) = 128"
    and seg: "uint (data_seg_base s) \<le> uint (data_seg_limit s)" "uint (data_seg_limit s) \<le> uint (kernel_brk s)"
    and brk: "uint (kernel_brk s) \<le> 0xFC000"
  shows "\<exists>t. enable_vmem s = Inr (s\<lparr>krnl_page_table := t,
             hw := hw s @ [HW_PTBR0, HW_PTLR0 128, HW_VM_ENABLE], vmem_enabled := True\<rparr>) \<and> length t = 128 \<and>
           (\<forall>i<128. t ! i =
              (if int i < uint (data_seg_base s) div 8192 then \<lparr>valid = True, prot = PROT_READ + PROT_EXEC, pfn = i\<rparr>
               else if int i < uint (kernel_brk s) div 8192 \<or> 126 \<le> i
                 then \<lparr>valid = True, prot = PROT_READ + PROT_WRITE, pfn = i\<rparr>
               else (krnl_page_table s ! i)\<lparr>valid := False\<rparr>))"
proof -
  let ?b = "uint (data_seg_base s) div 8192" and ?l = "uint (data_seg_limit s) div 8192"
    and ?k = "uint (kernel_brk s) div 8192"
  have pg: "page_of (data_seg_base s) = ?b" "page_of (data_seg_limit s) = ?l" "page_of (kernel_brk s) = ?k"
    "page_of 0 = 0" "page_of 0x100000 = 128" "page_of 0xFC000 = 126"
    using seg brk by (simp_all add: page_of_small)
  have le: "0 \<le> ?b" "?b \<le> ?l" "?l \<le> ?k" "?k \<le> 126" using seg brk by (simp_all add: zdiv_mono1 div_int_pos_iff)
  from fill_exact [of 0 128 "krnl_page_table s" "\<lambda>_ e. e\<lparr>valid := False\<rparr>"] len obtain t1 where
    t1: "fill 0 128 (\<lambda>_ e. e\<lparr>valid := False\<rparr>) (krnl_page_table s) = Inr t1" "length t1 = 128"
    "\<forall>i<128. t1 ! i = (krnl_page_table s ! i)\<lparr>valid := False\<rparr>" by auto
  from fill_exact [of 0 ?b t1 "identity_entry (PROT_READ + PROT_EXEC)"] t1(2) le obtain t2 where
    t2: "fill 0 ?b (identity_entry (PROT_READ + PROT_EXEC)) t1 = Inr t2" "length t2 = 128"
    "\<forall>i<128. t2 ! i = (if int i < ?b then identity_entry (PROT_READ + PROT_EXEC) (int i) (t1 ! i) else t1 ! i)" by auto
  from fill_exact [of ?b ?l t2 "identity_entry (PROT_READ + PROT_WRITE)"] t2(2) le obtain t3 where
    t3: "fill ?b ?l (identity_entry (PROT_READ + PROT_WRITE)) t2 = Inr t3" "length t3 = 128"
    "\<forall>i<128. t3 ! i = (if ?b \<le> int i \<and> int i < ?l then identity_entry (PROT_READ + PROT_WRITE) (int i) (t2 ! i) else t2 ! i)"
    by auto
  from fill_exact [of ?l ?k t3 "identity_entry (PROT_READ + PROT_WRITE)"] t3(2) le obtain t4 where
    t4: "fill ?l ?k (identity_entry (PROT_READ + PROT_WRITE)) t3 = Inr t4" "length t4 = 128"
    "\<forall>i<128. t4 ! i = (if ?l \<le> int i \<and> int i < ?k then identity_entry (PROT_READ + PROT_WRITE) (int i) (t3 ! i) else t3 ! i)"
    by auto
  from fill_exact [of 126 128 t4 "identity_entry (PROT_READ + PROT_WRITE)"] t4(2) obtain t5 where
    t5: "fill 126 128 (identity_entry (PROT_READ + PROT_WRITE)) t4 = Inr t5" "length t5 = 128"
    "\<forall>i<128. t5 ! i = (if 126 \<le> i then identity_entry (PROT_READ + PROT_WRITE) (int i) (t4 ! i) else t4 ! i)"
    by auto
  have "t5 ! i =
      (if int i < ?b then \<lparr>valid = True, prot = PROT_READ + PROT_EXEC, pfn = i\<rparr>
       else if int i < ?k \<or> 126 \<le> i then \<lparr>valid = True, prot = PROT_READ + PROT_WRITE, pfn = i\<rparr>
       else (krnl_page_table s ! i)\<lparr>valid := False\<rparr>)" if "i < 128" for i
    using t1(3) t2(3) t3(3) t4(3) t5(3) that le by (auto simp: identity_entry_def)
  moreover have "enable_vmem s = Inr (s\<lparr>krnl_page_table := t5,
             hw := hw s @ [HW_PTBR0, HW_PTLR0 128, HW_VM_ENABLE], vmem_enabled := True\<rparr>)"
    using t1(1) t2(1) t3(1) t4(1) t5(1) by (simp add: enable_vmem_def pg)
  ultimately show ?thesis using t5(2) by blast
qed

section \<open>The invariant at the end of KernelStart\<close>

text \<open>
  The machine when KernelStart is called: C's zero-initialised globals, the segments as
  SetKernelData and SetKernelBrk left them, pcb structures of the right size.
\<close>

definition powered_on :: "kstate \<Rightarrow> bool" where
  "powered_on s \<longleftrightarrow> krnl_page_table s = replicate 128 null_pte \<and>
     initial_ks s = replicate 2 null_pte \<and> pcbs s = Map.empty \<and>
     (\<forall>c. sized (fresh_pcb s c)) \<and>
     uint (data_seg_base s) \<le> uint (data_seg_limit s) \<and> uint (data_seg_limit s) \<le> uint (kernel_brk s) \<and>
     uint (kernel_brk s) \<le> 0xFC000"

text \<open>The same with an allocator that never fails, the machine the invariants below are about.\<close>

definition switched_on :: "kstate \<Rightarrow> bool" where
  "switched_on s \<longleftrightarrow> mem_ok s \<and> powered_on s"

lemma switched_onI: "powered_on s \<Longrightarrow> malloc_fails s = (\<lambda>_. False) \<Longrightarrow> switched_on s"
  by (simp add: switched_on_def mem_ok_def)

lemma used_identity:
  assumes "\<And>i. i < length t \<Longrightarrow> valid (t ! i) \<Longrightarrow> pfn (t ! i) = i"
  shows "used t = mset (filter (\<lambda>i. valid (t ! i) \<and> i \<noteq> 0) [0..<length t])"
proof -
  have "map pfn (filter valid t) = map pfn (filter valid (map ((!) t) [0..<length t]))" by (simp only: map_nth)
  also have "\<dots> = map (\<lambda>i. pfn (t ! i)) (filter (\<lambda>i. valid (t ! i)) [0..<length t])"
    by (simp add: filter_map o_def)
  also have "\<dots> = filter (\<lambda>i. valid (t ! i)) [0..<length t]"
    using assms by (intro map_idI) auto
  finally show ?thesis unfolding used_def nonzero_def by (simp add: conj_commute flip: mset_filter)
qed

lemma isolated_boot:
  assumes "\<And>a. frames_of s (Proc a) = {#}" and "frames_of s Initial = {#}"
    and "distinct (free_frames s)"
    and "\<And>i. i < length (krnl_page_table s) \<Longrightarrow> valid (krnl_page_table s ! i) \<Longrightarrow>
           pfn (krnl_page_table s ! i) = i \<and> i \<notin> set (free_frames s)"
  shows "isolated (frames_of s)"
proof -
  let ?t = "krnl_page_table s"
  let ?kf = "filter (\<lambda>i. valid (?t ! i) \<and> i \<noteq> 0) [0..<length ?t]" and ?ff = "filter (\<lambda>f. f \<noteq> 0) (free_frames s)"
  have k: "frames_of s Kernel = mset ?kf" using used_identity [of ?t] assms(4) by simp
  have f: "frames_of s Free = mset ?ff" by (simp add: nonzero_def flip: mset_filter)
  have d: "distinct ?kf" "distinct ?ff" "set ?kf \<inter> set ?ff = {}" using assms(3,4) by auto
  have one: "distinct xs \<Longrightarrow> x \<in># mset xs \<Longrightarrow> count (mset xs) x = 1" for xs :: "nat list" and x
    by (simp add: distinct_count_atmost_1)
  show ?thesis unfolding isolated_def
  proof (intro allI impI conjI)
    fix a x assume x: "x \<in># frames_of s a"
    show "count (frames_of s a) x = 1"
      using x one [OF d(1), of x] one [OF d(2), of x] assms(1,2) k f by (cases a) (simp_all del: frames_of.simps)
    fix b assume "x \<in># frames_of s b"
    with x show "b = a" using assms(1,2) k f d(3)
      by (cases a; cases b) (auto simp del: frames_of.simps)
  qed
qed

text \<open>Everything before the first process: \<open>start\<close> is the state with the globals set.\<close>

definition start :: "u32 \<Rightarrow> kstate \<Rightarrow> kstate" where
  "start pmem_size s = gather_free_frames (init_int_vector (init_queues (
     s\<lparr>total_frames := uint (drop_bit PAGESHIFT pmem_size), next_pid := 0, next_sem := 0,
       vmem_enabled := False, busy_terminal := replicate (nat NUM_TERMINALS) 0\<rparr>)))"

lemma init_queues_ok:
  "mem_ok s \<Longrightarrow> init_queues s = s\<lparr>malloc_cnt := malloc_cnt s + 10, ready_queue := [], sleep_list := [], wait_list := [],
     io_list := [], dead_list := [], pipe_list := [], lock_list := [], cvar_list := [], reclaim_list := [], sem_list := []\<rparr>"
  by (simp add: init_queues_def malloc_def mem_ok_def)

lemma uint_drop_13: "uint (drop_bit 13 (n :: u32)) = uint n div 8192"
  by (simp add: drop_bit_eq_div uint_div)

lemma start_fields:
  assumes "switched_on s"
  shows "krnl_page_table (start n s) = replicate 128 null_pte" "initial_ks (start n s) = replicate 2 null_pte"
    "pcbs (start n s) = Map.empty" "mem_ok (start n s)" "fresh_pcb (start n s) = fresh_pcb s"
    "data_seg_base (start n s) = data_seg_base s" "data_seg_limit (start n s) = data_seg_limit s"
    "kernel_brk (start n s) = kernel_brk s" "next_pid (start n s) = 0" "ready_queue (start n s) = []"
proof -
  let ?s0 = "s\<lparr>total_frames := uint (drop_bit PAGESHIFT n), next_pid := 0, next_sem := 0,
       vmem_enabled := False, busy_terminal := replicate (nat NUM_TERMINALS) 0\<rparr>"
  have ok: "mem_ok ?s0" "mem_ok (init_int_vector (init_queues ?s0))"
    using assms by (simp_all add: switched_on_def powered_on_def mem_ok_def init_int_vector_def init_queues_ok)
  from gather_free_frames_effect [OF ok(2)] obtain m ff where
    "start n s = (init_int_vector (init_queues ?s0))\<lparr>malloc_cnt := m, free_frames := ff\<rparr>"
    unfolding start_def by blast
  then show "krnl_page_table (start n s) = replicate 128 null_pte" "initial_ks (start n s) = replicate 2 null_pte"
    "pcbs (start n s) = Map.empty" "mem_ok (start n s)" "fresh_pcb (start n s) = fresh_pcb s"
    "data_seg_base (start n s) = data_seg_base s" "data_seg_limit (start n s) = data_seg_limit s"
    "kernel_brk (start n s) = kernel_brk s" "next_pid (start n s) = 0" "ready_queue (start n s) = []"
    using assms ok(1) by (simp_all add: switched_on_def powered_on_def init_int_vector_def init_queues_ok mem_ok_def)
qed

lemma start_frames:
  assumes "switched_on s" and "130 \<le> uint n div 8192"
  shows "distinct (free_frames (start n s))"
    and "set (free_frames (start n s)) =
           {f. f < nat (uint n div 8192) \<and> uint (kernel_brk s) \<le> 8192 * int f \<and> f \<noteq> 126 \<and> f \<noteq> 127}"
    and "\<exists>f0 f1 ff. free_frames (start n s) = f0 # f1 # ff \<and> f0 \<noteq> 0 \<and> f1 \<noteq> 0"
proof -
  let ?s = "init_int_vector (init_queues (s\<lparr>total_frames := uint (drop_bit PAGESHIFT n), next_pid := 0, next_sem := 0,
       vmem_enabled := False, busy_terminal := replicate (nat NUM_TERMINALS) 0\<rparr>))"
  have ok: "mem_ok ?s" "kernel_brk ?s = kernel_brk s" "total_frames ?s = uint n div 8192"
    using assms(1) by (simp_all add: switched_on_def powered_on_def mem_ok_def init_int_vector_def init_queues_ok uint_drop_13)
  have le: "uint (kernel_brk ?s) \<le> 0xFC000" "128 \<le> total_frames ?s" using assms ok by (simp_all add: switched_on_def powered_on_def)
  note g = gather_free_frames_set [OF ok(1) le]
  show "distinct (free_frames (start n s))" using g(1) by (simp add: start_def)
  show "set (free_frames (start n s)) =
           {f. f < nat (uint n div 8192) \<and> uint (kernel_brk s) \<le> 8192 * int f \<and> f \<noteq> 126 \<and> f \<noteq> 127}"
    unfolding start_def g(2) ok(2,3) ..
  have "[128..uint n div 8192 - 1] = [128..uint n div 8192 - 3] @ [uint n div 8192 - 2, uint n div 8192 - 1]"
    using assms(2) by (simp add: upto_rec2)
  then show "\<exists>f0 f1 ff. free_frames (start n s) = f0 # f1 # ff \<and> f0 \<noteq> 0 \<and> f1 \<noteq> 0"
    using assms(2) unfolding start_def gather_free_frames_eq [OF ok(1) le(1)] ok(2,3) by simp
qed

lemma vmem_inv:
  assumes on: "switched_on s" and n: "130 \<le> uint n div 8192"
  shows "\<exists>s'. enable_vmem (start n s) = Inr s' \<and> kernel_inv s' \<and> pcbs s' = Map.empty \<and> next_pid s' = 0 \<and>
     ready_queue s' = [] \<and> initial_ks s' = replicate 2 null_pte \<and>
     (\<exists>f0 f1 ff. free_frames s' = f0 # f1 # ff \<and> f0 \<noteq> 0 \<and> f1 \<noteq> 0)"
proof -
  let ?s = "start n s"
  note sf = start_fields [OF on, of n] and fr = start_frames [OF on n]
  have "length (krnl_page_table ?s) = 128" "uint (data_seg_base ?s) \<le> uint (data_seg_limit ?s)"
    "uint (data_seg_limit ?s) \<le> uint (kernel_brk ?s)" "uint (kernel_brk ?s) \<le> 0xFC000"
    using on by (simp_all add: sf switched_on_def powered_on_def)
  from enable_vmem_ok [OF this] obtain t where
    e: "enable_vmem ?s = Inr (?s\<lparr>krnl_page_table := t,
             hw := hw ?s @ [HW_PTBR0, HW_PTLR0 128, HW_VM_ENABLE], vmem_enabled := True\<rparr>)" (is "_ = Inr ?s'")
    and t: "length t = 128" "\<forall>i<128. t ! i =
              (if int i < uint (data_seg_base ?s) div 8192 then \<lparr>valid = True, prot = PROT_READ + PROT_EXEC, pfn = i\<rparr>
               else if int i < uint (kernel_brk ?s) div 8192 \<or> 126 \<le> i
                 then \<lparr>valid = True, prot = PROT_READ + PROT_WRITE, pfn = i\<rparr>
               else (krnl_page_table ?s ! i)\<lparr>valid := False\<rparr>)"
    by blast
  have seg: "uint (data_seg_base s) div 8192 \<le> uint (kernel_brk s) div 8192"
    using on by (intro zdiv_mono1) (simp_all add: switched_on_def powered_on_def)
  have "isolated (frames_of ?s')"
  proof (rule isolated_boot)
    fix i assume "i < length (krnl_page_table ?s')" "valid (krnl_page_table ?s' ! i)"
    then have i: "i < 128" "valid (t ! i)" using t(1) by simp_all
    then have pf: "pfn (t ! i) = i" and "int i < uint (kernel_brk s) div 8192 \<or> i = 126 \<or> i = 127"
      using t(2) [rule_format, OF i(1)] seg by (auto simp: sf split: if_splits)
    then have "\<not> (uint (kernel_brk s) \<le> 8192 * int i \<and> i \<noteq> 126 \<and> i \<noteq> 127)" by linarith
    then have "i \<notin> set (free_frames ?s)" unfolding fr(2) by blast
    then show "pfn (krnl_page_table ?s' ! i) = i \<and> i \<notin> set (free_frames ?s')" using pf by simp
  qed (use fr(1) in \<open>simp_all add: sf\<close>)
  moreover have "kstack_mapped t" using t seg by (auto simp: kstack_mapped_def sf)
  ultimately have "kernel_inv ?s'" using on sf(4) by (simp add: kernel_inv_def sf(3,5) switched_on_def powered_on_def mem_ok_def)
  moreover have "pcbs ?s' = Map.empty" "next_pid ?s' = 0" "ready_queue ?s' = []" "initial_ks ?s' = replicate 2 null_pte"
    "free_frames ?s' = free_frames ?s"
    by (simp_all add: sf)
  ultimately show ?thesis using e fr(3) by metis
qed

text \<open>A new process that has no frames, or only frames taken from the free list.\<close>

lemma new_process_inv:
  assumes inv: "kernel_inv s" and new: "pcbs s a = None" and eq: "pcbs s' = (pcbs s)(a \<mapsto> p)"
    and sub: "used (u_page_table p) + used (k_stack_pt p) + nonzero (free_frames s') \<subseteq># nonzero (free_frames s)"
    and len: "sized p" and cnt: "malloc_cnt s \<le> malloc_cnt s'" "a < malloc_cnt s'"
    and same: "malloc_fails s' = malloc_fails s" "fresh_pcb s' = fresh_pcb s"
      "krnl_page_table s' = krnl_page_table s" "initial_ks s' = initial_ks s"
  shows "kernel_inv s'"
proof (rule inv_intro [OF inv same(1,2)])
  show "isolated (frames_of s')"
  proof (rule isolated_transfer [of "frames_of s" Free "Proc a" "frames_of s' Free" "frames_of s' (Proc a)"])
    show "isolated (frames_of s)" using inv by (simp add: kernel_inv_def)
    show "frames_of s' Free + frames_of s' (Proc a) \<subseteq># frames_of s Free + frames_of s (Proc a)"
      using sub eq new by (simp add: ac_simps)
    show "frames_of s' c = (if c = Free then frames_of s' Free else if c = Proc a then frames_of s' (Proc a)
        else frames_of s c)" for c
      using eq same by (cases c) auto
  qed simp
  fix b x assume "pcbs s' b = Some x"
  then have "b = a \<and> x = p \<or> pcbs s b = Some x" using eq by (auto split: if_splits)
  then show "b < malloc_cnt s' \<and> sized x"
    using inv len cnt unfolding kernel_inv_def by (metis less_le_trans)
qed (rule same(3))

lemma no_pcb_at_break: "kernel_inv s \<Longrightarrow> pcbs s (malloc_cnt s) = None"
  unfolding kernel_inv_def by (metis less_irrefl not_Some_eq)

lemma load_first_moves:
  assumes "load_first fs nm argl a s = Inr s'" and "pcbs s a = Some p"
  shows "moves a s s'"
proof -
  have hw: "moves a s x \<Longrightarrow> moves a s (x\<lparr>hw := h\<rparr>)" for x h by (auto simp: moves_def keeps_def confined_def)
  have "moves a s s" using assms(2) by (intro moves_intro [of s a p s p]) (auto simp: same_defs)
  then show ?thesis using assms moves_load_program [OF assms(2)] hw
    by (auto simp: load_first_def split: option.splits)
qed

lemma init_init_inv:
  assumes inv: "kernel_inv s" and n: "next_pid s = 0"
    and ff: "free_frames s = f0 # f1 # ff" "f0 \<noteq> 0" "f1 \<noteq> 0"
    and run: "init_init fs uc argl s = Inr s'"
  obtains p where "kernel_inv s'" and "p_init s' = Some (malloc_cnt s)" and "pcbs s' = (pcbs s)(malloc_cnt s \<mapsto> p)"
    and "pid p = 0" and "state p = RUNNING" and "k_stack_pt p = [fresh_entry f0, fresh_entry f1]"
    and "next_pid s' = 1" and "ready_queue s' = ready_queue s"
    and "initial_ks s' = initial_ks s" and "pcb_table s' = (pcb_table s)(0 := Some (malloc_cnt s))"
    and "malloc_cnt s < malloc_cnt s'"
proof -
  let ?a = "malloc_cnt s"
  have ok: "mem_ok s" and k2: "length (k_stack_pt (fresh_pcb s ?a)) = 2" using inv by (simp_all add: kernel_inv_def sized_def)
  from k2 obtain e0 e1 where k: "k_stack_pt (fresh_pcb s ?a) = [e0, e1]"
    by (metis (no_types, opaque_lifting) length_0_conv length_Suc_conv numeral_2_eq_2)
  let ?p = "(fresh_pcb s ?a)\<lparr>uctxt := uc, state := RUNNING, pid := 0, ppid := -1, children := [],
     k_stack_pt := [fresh_entry f0, fresh_entry f1], u_page_table := replicate 128 null_pte\<rparr>"
  let ?s1 = "s\<lparr>p_init := Some ?a, next_pid := 1, pcb_table := (pcb_table s)(0 := Some ?a),
     malloc_cnt := Suc (Suc ?a), free_frames := ff, pcbs := (pcbs s)(?a \<mapsto> ?p), hw := hw s @ [HW_PTBR1 ?a, HW_PTLR1 128]\<rparr>"
  have r: "load_first fs (case argl of [] \<Rightarrow> None | nm # _ \<Rightarrow> Some nm) (Inr (tl argl)) ?a ?s1 = Inr s'"
    using run ok n ff k
    by (simp add: kernel_simps init_init_def mem_ok_def)
  have inv1: "kernel_inv ?s1"
    using ff by (intro new_process_inv [OF inv no_pcb_at_break [OF inv], of _ ?p]) (simp_all add: fresh_entry_def sized_def)
  have mv: "moves ?a ?s1 s'" by (rule load_first_moves [OF r]) simp
  then obtain p where "pcbs s' = (pcbs s)(?a \<mapsto> p)" "same_pcb ?p p" "malloc_cnt ?s1 \<le> malloc_cnt s'" "keeps ?s1 s'"
    by (auto simp: moves_def)
  then show thesis using that [of p] moves_inv [OF inv1 mv] by (simp add: keeps_def same_pcb_def)
qed

lemma init_idle_inv:
  assumes inv: "kernel_inv s" and n: "next_pid s = 1" and run: "init_idle fs uc argl s = Inr s'"
  obtains p where "kernel_inv s'" and "p_idle s' = Some (malloc_cnt s)" and "pcbs s' = (pcbs s)(malloc_cnt s \<mapsto> p)"
    and "pid p = 1" and "state p = READY" and "pfn (k_stack_pt p ! 0) = 0" and "p_init s' = p_init s"
    and "next_pid s' = 2" and "ready_queue s' = ready_queue s"
    and "initial_ks s' = initial_ks s" and "pcb_table s' = (pcb_table s)(1 := Some (malloc_cnt s))"
    and "malloc_cnt s < malloc_cnt s'"
proof -
  let ?a = "malloc_cnt s"
  have ok: "mem_ok s" and k2: "length (k_stack_pt (fresh_pcb s ?a)) = 2" using inv by (simp_all add: kernel_inv_def sized_def)
  from k2 obtain e0 e1 where k: "k_stack_pt (fresh_pcb s ?a) = [e0, e1]"
    by (metis (no_types, opaque_lifting) length_0_conv length_Suc_conv numeral_2_eq_2)
  let ?p = "(fresh_pcb s ?a)\<lparr>uctxt := uc, state := READY, pid := 1, ppid := -1, children := [],
     k_stack_pt := [e0\<lparr>pfn := 0\<rparr>, e1\<lparr>pfn := 0\<rparr>], u_page_table := replicate 128 null_pte\<rparr>"
  let ?s1 = "s\<lparr>p_idle := Some ?a, next_pid := 2, pcb_table := (pcb_table s)(1 := Some ?a),
     malloc_cnt := Suc (Suc ?a), pcbs := (pcbs s)(?a \<mapsto> ?p), hw := hw s @ [HW_PTBR1 ?a, HW_PTLR1 128]\<rparr>"
  have r: "load_first fs (Some idle_name) (if argl = [] then Inl OutOfBounds else Inr (tl argl)) ?a ?s1 = Inr s'"
    using run ok n k
    by (simp add: kernel_simps init_idle_def mem_ok_def)
  have inv1: "kernel_inv ?s1"
    by (intro new_process_inv [OF inv no_pcb_at_break [OF inv], of _ ?p]) (simp_all add: sized_def)
  have mv: "moves ?a ?s1 s'" by (rule load_first_moves [OF r]) simp
  then obtain p where "pcbs s' = (pcbs s)(?a \<mapsto> p)" "same_pcb ?p p" "malloc_cnt ?s1 \<le> malloc_cnt s'" "keeps ?s1 s'"
    by (auto simp: moves_def)
  then show thesis using that [of p] moves_inv [OF inv1 mv] by (simp add: keeps_def same_pcb_def)
qed

text \<open>Saving the initial kernel stack moves at most two frames from the free list.\<close>

definition save_step :: "kstate \<Rightarrow> kstate \<Rightarrow> bool" where
  "save_step s s' \<longleftrightarrow> used (initial_ks s') + nonzero (free_frames s') \<subseteq># nonzero (free_frames s) \<and>
     pcbs s' = pcbs s \<and> krnl_page_table s' = krnl_page_table s"

interpretation save: frame_client save_step "\<lambda>_. Initial"
proof
  fix s s' assume st: "save_step s s'"
  then have "used (initial_ks s') + nonzero (free_frames s') \<subseteq># used (initial_ks s) + nonzero (free_frames s)"
    unfolding save_step_def by (meson mset_subset_eq_add_right subset_mset.order_trans)
  then show "frames_of s' Free + frames_of s' Initial \<subseteq># frames_of s Free + frames_of s Initial"
    by (simp add: ac_simps)
  show "c \<noteq> Free \<Longrightarrow> c \<noteq> Initial \<Longrightarrow> frames_of s' c = frames_of s c" for c
    using st by (cases c) (simp_all add: save_step_def)
qed simp

lemma save_initial_effect:
  assumes "initial_ks s = replicate 2 null_pte"
  obtains ff m k where "snd (save_initial_kernel c s) = s\<lparr>initial_kc := c, free_frames := ff, pmem := m, initial_ks := k\<rparr>"
    and "used k + nonzero ff \<subseteq># nonzero (free_frames s)"
proof -
  have two: "replicate 2 null_pte = [null_pte, null_pte]" by (simp add: numeral_2_eq_2)
  let ?v = "null_pte\<lparr>valid := True, prot := PROT_READ + PROT_WRITE\<rparr>"
  consider (e) "fst (grab (free_frames s)) = 0"
    | (e1) f0 ff where "free_frames s = f0 # ff" "f0 \<noteq> 0" "fst (grab ff) = 0"
    | (ok) f0 f1 ff where "free_frames s = f0 # f1 # ff" "f0 \<noteq> 0" "f1 \<noteq> 0"
    by (cases "free_frames s"; cases "tl (free_frames s)") force+
  then show thesis
  proof cases
    case e
    have "used [?v, null_pte] + nonzero (snd (grab (free_frames s))) \<subseteq># nonzero (free_frames s)"
      by (cases "free_frames s") simp_all
    moreover have "snd (save_initial_kernel c s) = s\<lparr>initial_kc := c, free_frames := snd (grab (free_frames s)),
        pmem := pmem s, initial_ks := [?v, null_pte]\<rparr>"
      using e assms by (simp add: save_initial_kernel_def grab_a_frame_grab two)
    ultimately show ?thesis using that by blast
  next
    case e1
    let ?m = "(pmem s)(f0 := pmem s (stack_frame 0 s))"
    have "used [fresh_entry f0, ?v] + nonzero (snd (grab ff)) \<subseteq># nonzero (free_frames s)"
      using e1 by (cases ff) (simp_all add: fresh_entry_def)
    moreover have "snd (save_initial_kernel c s) = s\<lparr>initial_kc := c, free_frames := snd (grab ff),
        pmem := ?m, initial_ks := [fresh_entry f0, ?v]\<rparr>"
      using e1 assms by (simp add: save_initial_kernel_def grab_a_frame_grab two Let_def copy_frame_def stack_frame_def)
    ultimately show ?thesis using that by blast
  next
    case ok
    let ?m = "(pmem s)(f0 := pmem s (stack_frame 0 s))"
    have "used [fresh_entry f0, fresh_entry f1] + nonzero ff \<subseteq># nonzero (free_frames s)"
      using ok by (simp add: fresh_entry_def)
    moreover have "snd (save_initial_kernel c s) = s\<lparr>initial_kc := c, free_frames := ff,
        pmem := ?m(f1 := ?m (stack_frame 1 s)), initial_ks := [fresh_entry f0, fresh_entry f1]\<rparr>"
      using ok assms by (simp add: save_initial_kernel_def grab_a_frame_grab two Let_def copy_frame_def stack_frame_def)
    ultimately show ?thesis using that by blast
  qed
qed

lemma save_initial_inv:
  assumes inv: "kernel_inv s" and ks: "initial_ks s = replicate 2 null_pte"
  shows "kernel_inv (snd (save_initial_kernel c s))"
proof -
  from ks obtain ff m k where e: "snd (save_initial_kernel c s) =
      s\<lparr>initial_kc := c, free_frames := ff, pmem := m, initial_ks := k\<rparr>" and u: "used k + nonzero ff \<subseteq># nonzero (free_frames s)"
    by (rule save_initial_effect)
  then have "save_step s (snd (save_initial_kernel c s))" by (simp add: save_step_def)
  from save.keeps_isolation [OF this] inv show ?thesis by (auto simp: e kernel_inv_def mem_ok_def)
qed

text \<open>What KernelStart leaves behind, whatever the loader made of the two programs.\<close>

lemma boot_state:
  assumes on: "switched_on s" and n: "130 \<le> uint n div 8192" and run: "KernelStart fs argl n uc s = Inr (uc', s')"
  obtains a p b q where "kernel_inv s'" and "active_proc s' = Some a" and "pcbs s' = [a \<mapsto> p, b \<mapsto> q]" and "a \<noteq> b"
    and "pid p = 0" and "pid q = 1" and "ready_queue s' = [b]" and "uc' = uctxt p" and "next_pid s' = 2"
    and "initial_kc s' = K_Start" and "state p = RUNNING" and "state q = READY"
    and "p_idle s' = Some b" and "pfn (k_stack_pt q ! 0) = 0"
proof -
  from vmem_inv [OF on n] obtain s1 f0 f1 ff where s1: "enable_vmem (start n s) = Inr s1" "kernel_inv s1"
    "pcbs s1 = Map.empty" "next_pid s1 = 0" "ready_queue s1 = []" "initial_ks s1 = replicate 2 null_pte"
    "free_frames s1 = f0 # f1 # ff" "f0 \<noteq> 0" "f1 \<noteq> 0"
    by blast
  from run s1(1) obtain s2 s3 i where i2: "init_init fs uc argl s1 = Inr s2" and i3: "init_idle fs uc argl s2 = Inr s3"
    and i: "p_idle s3 = Some i"
    and r: "switched_in (snd (save_initial_kernel K_Start ((snd (ready_insert i s3))\<lparr>active_proc := p_init (snd (ready_insert i s3))\<rparr>)))
      = Inr (uc', s')"
    by (auto simp: KernelStart_def start_def Let_def split: option.splits)
  from s1(2,4,7-9) i2 obtain p where p: "kernel_inv s2" "p_init s2 = Some (malloc_cnt s1)"
    "pcbs s2 = (pcbs s1)(malloc_cnt s1 \<mapsto> p)" "pid p = 0" "state p = RUNNING" "next_pid s2 = 1"
    "ready_queue s2 = ready_queue s1" "initial_ks s2 = initial_ks s1" "malloc_cnt s1 < malloc_cnt s2"
    by (rule init_init_inv)
  from p(1,6) i3 obtain q where q: "kernel_inv s3" "p_idle s3 = Some (malloc_cnt s2)"
    "pcbs s3 = (pcbs s2)(malloc_cnt s2 \<mapsto> q)" "pid q = 1" "state q = READY" "pfn (k_stack_pt q ! 0) = 0" "p_init s3 = p_init s2"
    "next_pid s3 = 2" "ready_queue s3 = ready_queue s2" "initial_ks s3 = initial_ks s2"
    by (rule init_idle_inv)
  let ?a = "malloc_cnt s1" and ?b = "malloc_cnt s2"
  let ?s4 = "(snd (ready_insert i s3))\<lparr>active_proc := p_init (snd (ready_insert i s3))\<rparr>"
  have "quiet (snd (ready_insert i s3)) ?s4" by (simp add: quiet_def)
  with inv_ready_insert [OF q(1), of i] have inv4: "kernel_inv ?s4" by (rule quiet_inv)
  have f4: "active_proc ?s4 = Some ?a" "pcbs ?s4 = [?a \<mapsto> p, ?b \<mapsto> q]" "ready_queue ?s4 = [?b]"
    "initial_ks ?s4 = replicate 2 null_pte" "next_pid ?s4 = 2" "p_idle ?s4 = Some ?b"
    using q p s1 i by (simp_all add: ready_insert_eq kernel_inv_def mem_ok_def)
  from f4(4) obtain ff5 m5 k5 where e5: "snd (save_initial_kernel K_Start ?s4) =
      ?s4\<lparr>initial_kc := K_Start, free_frames := ff5, pmem := m5, initial_ks := k5\<rparr>" (is "_ = ?s5")
    and "used k5 + nonzero ff5 \<subseteq># nonzero (free_frames ?s4)"
    by (rule save_initial_effect)
  have inv5: "kernel_inv ?s5" using save_initial_inv [OF inv4 f4(4), of K_Start] unfolding e5 .
  have ab: "?a \<noteq> ?b" using p(9) by simp
  have sw: "switched_in ?s5 = Inr (uc', s')" using r unfolding e5 .
  have inv': "kernel_inv s'" using quiet_inv [OF inv5 switched_in_quiet [OF sw]] .
  show thesis
    by (rule that [OF inv', of ?a p ?b q]) (use sw f4 ab p(4,5) q(4-6) in \<open>auto simp: switched_in_def\<close>)
qed

section \<open>Isolation in every reachable state\<close>

text \<open>
  The states of a running machine: after boot; after user code has changed memory; after
  the allocator has moved the kernel break; after a trap with whatever user context and
  terminal line the hardware presents.
\<close>

inductive reachable ::
    "(byte list \<Rightarrow> program option) \<Rightarrow> byte list list \<Rightarrow> u32 \<Rightarrow> user_context \<Rightarrow> kstate \<Rightarrow> kstate \<Rightarrow> bool"
  for fs argl n uc s where
  boot: "KernelStart fs argl n uc s = Inr (uc', t) \<Longrightarrow> reachable fs argl n uc s t"
| user: "reachable fs argl n uc s t \<Longrightarrow> reachable fs argl n uc s (t\<lparr>pmem := m\<rparr>)"
| kernel_brk: "reachable fs argl n uc s t \<Longrightarrow> SetKernelBrk a t = Inr (rc, u) \<Longrightarrow> reachable fs argl n uc s u"
| trap: "reachable fs argl n uc s t \<Longrightarrow> int_vector fs fuel line uc1 t = Some (Inr (uc2, u)) \<Longrightarrow>
    reachable fs argl n uc s u"

lemma map_range_valid:
  "map_range i to t ff = Inr (ok, t', ff') \<Longrightarrow> j < length t \<Longrightarrow> valid (t ! j) \<Longrightarrow> valid (t' ! j)"
proof (induction i to t ff rule: map_range.induct)
  case (1 i to t ff)
  obtain f ff1 where g: "grab ff = (f, ff1)" by (cases "grab ff")
  let ?t = "t[nat i := \<lparr>valid = True, prot = PROT_READ + PROT_WRITE, pfn = f\<rparr>]"
  have ut: "j < length ?t \<and> valid (?t ! j)" using "1.prems"(2,3) by (cases "nat i = j") simp_all
  show ?case
  proof (cases "i < to \<and> f \<noteq> 0")
    case True
    then have "map_range (i + 1) to ?t ff1 = Inr (ok, t', ff')"
      using "1.prems"(1) map_range_step [OF g, of i to t] by (simp split: if_splits)
    then show ?thesis using "1.IH" [of "(f, ff1)"] g True ut "1.prems"(1) map_range_step [OF g, of i to t]
      by (auto split: if_splits)
  next
    case False
    then show ?thesis using "1.prems" ut map_range_step [OF g, of i to t] by (auto split: if_splits)
  qed
qed

lemma kernel_brk_inv:
  assumes inv: "kernel_inv s" and run: "SetKernelBrk a s = Inr (rc, s')"
  shows "kernel_inv s'"
proof -
  have "kernel_brk_step s s'" using run by (auto simp: kernel_brk_step_def)
  from kbrk.keeps_isolation [OF this] inv have iso: "isolated (frames_of s')" by (simp add: kernel_inv_def)
  have "krnl_page_table s' = krnl_page_table s \<or> (\<exists>x y ok ff. map_range x y (krnl_page_table s) (free_frames s) =
      Inr (ok, krnl_page_table s', ff))"
    using run by (auto simp: SetKernelBrk_def Let_def split: if_splits)
  then have "kstack_mapped (krnl_page_table s')"
    using inv map_range_valid [of _ _ "krnl_page_table s"] map_range_frames [of _ _ "krnl_page_table s"]
    by (fastforce simp: kernel_inv_def kstack_mapped_def)
  then show ?thesis using iso inv run
    by (auto simp: kernel_inv_def SetKernelBrk_def mem_ok_def Let_def split: if_splits)
qed

lemma reachable_inv:
  assumes "reachable fs argl n uc s t" and "switched_on s" and "130 \<le> uint n div 8192"
  shows "kernel_inv t"
  using assms
proof (induction rule: reachable.induct)
  case (boot uc' t)
  then show ?case using boot_state by blast
next
  case (user t m)
  have "quiet t (t\<lparr>pmem := m\<rparr>)" by (simp add: quiet_def)
  then show ?case using user quiet_inv by blast
qed (auto intro: kernel_brk_inv trap_inv)

text \<open>
C1: isolation in every run without a kernel fault. Let malloc never fail. In every state that a run
reaches after boot by system calls, clock ticks, faults and terminal interrupts in any order, with
user code changing memory in between, as long as none of these kernel operations ends in a fault: two
valid pages of region 1 that map the same frame (other than frame 0, which stands for a missing
frame) are the same page of the same process, and that frame is neither in the free list nor mapped by
the kernel. A fault ends the run, and nothing is said of what the C code does after it; user programs
can provoke faults, among them stores into the kernel's own memory through the unchecked pointers of
PipeInit, LockInit and CvarInit and page table entries outside their array after a Brk outside region
1 (\<open>init_calls_write_kernel\<close>, \<open>brk_leaves_region\<close>).
\<close>

theorem isolation_always:
  assumes "powered_on s0" and "malloc_fails s0 = (\<lambda>_. False)" and "130 \<le> uint n div 8192" and "reachable fs argl n uc s0 s"
    and "pcbs s a = Some p" and "i < length (u_page_table p)" and "valid (u_page_table p ! i)"
    and "pcbs s b = Some q" and "j < length (u_page_table q)" and "valid (u_page_table q ! j)"
    and "pfn (u_page_table p ! i) = f" and "pfn (u_page_table q ! j) = f" and "f \<noteq> 0"
  shows "a = b \<and> i = j \<and> f \<notin> set (free_frames s) \<and> f \<notin># used (krnl_page_table s)"
proof -
  have "isolated (frames_of s)" using reachable_inv [OF assms(4) switched_onI [OF assms(1,2)] assms(3)] by (simp add: kernel_inv_def)
  then show ?thesis using assms(5-13) by (rule isolated_pages)
qed

text \<open>
C34: the kernel's page table at boot maps exactly the pages below the kernel break and the two
pages of the kernel stack, each to the frame with the same number; the text is readable and
executable, everything else readable and writable. A page that the break cuts in two is not
mapped.
\<close>

theorem enable_vmem_identity:
  assumes "length (krnl_page_table s) = 128"
    and "uint (data_seg_base s) \<le> uint (data_seg_limit s)" and "uint (data_seg_limit s) \<le> uint (kernel_brk s)"
    and "uint (kernel_brk s) \<le> 0xFC000"
  shows "\<exists>s'. enable_vmem s = Inr s' \<and> vmem_enabled s' \<and> length (krnl_page_table s') = 128 \<and>
     (\<forall>i<128. let e = krnl_page_table s' ! i in
        (valid e \<longleftrightarrow> 8192 * (int i + 1) \<le> uint (kernel_brk s) \<or> 126 \<le> i) \<and>
        (valid e \<longrightarrow> pfn e = i \<and>
           prot e = (if 8192 * (int i + 1) \<le> uint (data_seg_base s) then PROT_READ + PROT_EXEC
                     else PROT_READ + PROT_WRITE)))"
proof -
  from enable_vmem_ok [OF assms] obtain t where
    e: "enable_vmem s = Inr (s\<lparr>krnl_page_table := t,
             hw := hw s @ [HW_PTBR0, HW_PTLR0 128, HW_VM_ENABLE], vmem_enabled := True\<rparr>)" (is "_ = Inr ?s'")
    and t: "length t = 128" "\<forall>i<128. t ! i =
              (if int i < uint (data_seg_base s) div 8192 then \<lparr>valid = True, prot = PROT_READ + PROT_EXEC, pfn = i\<rparr>
               else if int i < uint (kernel_brk s) div 8192 \<or> 126 \<le> i
                 then \<lparr>valid = True, prot = PROT_READ + PROT_WRITE, pfn = i\<rparr>
               else (krnl_page_table s ! i)\<lparr>valid := False\<rparr>)"
    by blast
  have pg: "int i < x div 8192 \<longleftrightarrow> 8192 * (int i + 1) \<le> x" for i and x :: int
  proof -
    have lin: "q * 8192 + r = x \<Longrightarrow> 0 \<le> r \<Longrightarrow> r < 8192 \<Longrightarrow> y < q \<longleftrightarrow> 8192 * (y + 1) \<le> x" for q r y :: int
    proof
      assume r: "q * 8192 + r = x" "0 \<le> r" "y < q"
      have "(y + 1) * 8192 \<le> q * 8192" using r(3) by simp
      then show "8192 * (y + 1) \<le> x" using r by simp
    next
      assume r: "q * 8192 + r = x" "r < 8192" "8192 * (y + 1) \<le> x"
      then have "(y + 1) * 8192 < (q + 1) * 8192" by simp
      then show "y < q" by simp
    qed
    show ?thesis by (rule lin [OF div_mult_mod_eq [of x 8192]]) simp_all
  qed
  have le: "uint (data_seg_base s) \<le> uint (kernel_brk s)" using assms(2,3) by simp
  have "let e = krnl_page_table ?s' ! i in
        (valid e \<longleftrightarrow> 8192 * (int i + 1) \<le> uint (kernel_brk s) \<or> 126 \<le> i) \<and>
        (valid e \<longrightarrow> pfn e = i \<and>
           prot e = (if 8192 * (int i + 1) \<le> uint (data_seg_base s) then PROT_READ + PROT_EXEC
                     else PROT_READ + PROT_WRITE))" if "i < 128" for i
    using t(2) [rule_format, OF that] le unfolding pg by (auto simp: Let_def)
  then show ?thesis using e t(1) by (intro exI [of _ ?s']) auto
qed

section \<open>A machine at power-on\<close>

definition cold :: kstate where
  "cold = sample\<lparr>krnl_page_table := replicate 128 null_pte, initial_ks := replicate 2 null_pte, pcbs := Map.empty,
     active_proc := None, p_init := None, p_idle := None, pcb_table := Map.empty, ready_queue := []\<rparr>"

lemma cold_powered: "powered_on cold" "malloc_fails cold = (\<lambda>_. False)"
  by (simp_all add: powered_on_def cold_def sample_def sample_pcb_def sized_def)

lemma cold_on: "switched_on cold"
  using cold_powered by (rule switched_onI)

theorem enable_vmem_identity_witness:
  "\<exists>s'. enable_vmem cold = Inr s' \<and> valid (krnl_page_table s' ! 15) \<and> pfn (krnl_page_table s' ! 15) = 15 \<and>
     \<not> valid (krnl_page_table s' ! 16)"
proof -
  have "length (krnl_page_table cold) = 128" "uint (data_seg_base cold) \<le> uint (data_seg_limit cold)"
    "uint (data_seg_limit cold) \<le> uint (kernel_brk cold)" "uint (kernel_brk cold) \<le> 0xFC000"
    by (simp_all add: cold_def sample_def)
  from enable_vmem_identity [OF this] obtain s' where e: "enable_vmem cold = Inr s'"
    and m: "\<forall>i<128. let e = krnl_page_table s' ! i in
        (valid e \<longleftrightarrow> 8192 * (int i + 1) \<le> uint (kernel_brk cold) \<or> 126 \<le> i) \<and>
        (valid e \<longrightarrow> pfn e = i \<and>
           prot e = (if 8192 * (int i + 1) \<le> uint (data_seg_base cold) then PROT_READ + PROT_EXEC
                     else PROT_READ + PROT_WRITE))"
    by blast
  have "uint (kernel_brk cold) = 0x20000" by (simp add: cold_def sample_def)
  then have "valid (krnl_page_table s' ! 15) \<and> pfn (krnl_page_table s' ! 15) = 15 \<and> \<not> valid (krnl_page_table s' ! 16)"
    using m [rule_format, of 15] m [rule_format, of 16] by (simp add: Let_def)
  with e show ?thesis by blast
qed

text \<open>Without any executable the kernel still comes up, with empty address spaces; 512 frames of memory.\<close>

lemma cold_free: "\<exists>ff. free_frames (start 0x400000 cold) = 511 # 510 # 509 # 508 # 507 # ff"
proof -
  let ?s = "init_int_vector (init_queues (cold\<lparr>total_frames := uint (drop_bit PAGESHIFT (0x400000 :: u32)), next_pid := 0,
     next_sem := 0, vmem_enabled := False, busy_terminal := replicate (nat NUM_TERMINALS) 0\<rparr>))"
  have ok: "mem_ok ?s" "uint (kernel_brk ?s) \<le> 0xFC000" "total_frames ?s = 512"
    by (simp_all add: cold_def mem_ok_def init_int_vector_def init_queues_ok uint_drop_13 sample_def)
  have "[128..511::int] = [128..506] @ [507, 508, 509, 510, 511]" by (simp add: upto_rec2)
  then show ?thesis unfolding start_def gather_free_frames_eq [OF ok(1,2)] ok(3) by simp
qed

lemma cold_fresh: "fresh_pcb cold = (\<lambda>_. sample_pcb 0 0)"
  by (simp add: cold_def sample_def)

lemma cold_boot_process:
  obtains uc' s a p ff where "KernelStart (\<lambda>_. None) [x] 0x400000 sample_uc cold = Inr (uc', s)"
    and "active_proc s = Some a" and "pcbs s a = Some p" and "u_page_table p = replicate 128 null_pte"
    and "next_heap_pn p = 4" and "free_frames s = 507 # ff" and "children p = []" and "ppid p = -1"
    and "k_stack_pt p = [fresh_entry 511, fresh_entry 510]"
proof -
  have n: "130 \<le> uint (0x400000 :: u32) div 8192" by simp
  note sf = start_fields [OF cold_on, of "0x400000"]
  from vmem_inv [OF cold_on n] obtain s1 where e: "enable_vmem (start 0x400000 cold) = Inr s1" and k1: "kernel_inv s1"
    and s1: "pcbs s1 = Map.empty" "next_pid s1 = 0" "initial_ks s1 = replicate 2 null_pte"
    by blast
  have keep: "fresh_pcb s1 = fresh_pcb cold" "free_frames s1 = free_frames (start 0x400000 cold)"
    using e sf(5) by (auto simp: enable_vmem_def)
  from cold_free keep obtain ff where ff: "free_frames s1 = 511 # 510 # 509 # 508 # 507 # ff" by auto
  have ok: "malloc_fails s1 = (\<lambda>_. False)" using k1 by (simp add: kernel_inv_def mem_ok_def)
  have ld: "load_program (\<lambda>_. None) nm ar a t = Inr (ERROR, t)" for nm ar a t by (simp add: load_program_def)
  let ?a = "malloc_cnt s1"
  have two: "replicate 2 null_pte = [null_pte, null_pte]" by (simp add: numeral_2_eq_2)
  obtain s2 where i2: "init_init (\<lambda>_. None) sample_uc [x] s1 = Inr s2" "p_init s2 = Some ?a" "next_pid s2 = 1"
    "u_page_table (the (pcbs s2 ?a)) = replicate 128 null_pte" "next_heap_pn (the (pcbs s2 ?a)) = 4" "pcbs s2 ?a \<noteq> None"
    "free_frames s2 = 509 # 508 # 507 # ff" "malloc_fails s2 = (\<lambda>_. False)" "malloc_cnt s2 = Suc (Suc ?a)"
    "initial_ks s2 = [null_pte, null_pte]" "children (the (pcbs s2 ?a)) = []" "ppid (the (pcbs s2 ?a)) = -1"
    "k_stack_pt (the (pcbs s2 ?a)) = [fresh_entry 511, fresh_entry 510]"
    using ok ff s1 keep
    by (simp add: kernel_simps init_init_def load_first_def ld cold_fresh two)
  obtain s3 where i3: "init_idle (\<lambda>_. None) sample_uc [x] s2 = Inr s3" "p_init s3 = Some ?a" "p_idle s3 \<noteq> None"
    "pcbs s3 ?a = pcbs s2 ?a" "free_frames s3 = 509 # 508 # 507 # ff" "initial_ks s3 = [null_pte, null_pte]"
    using i2
    by (simp add: kernel_simps init_idle_def load_first_def ld)
  from i2(6) obtain p where p: "pcbs s2 ?a = Some p" by blast
  let ?k = "KernelStart (\<lambda>_. None) [x] 0x400000 sample_uc cold"
  have "\<exists>uc' s. ?k = Inr (uc', s) \<and> active_proc s = Some ?a \<and> pcbs s ?a = Some p \<and> free_frames s = 507 # ff"
    using e i2(1) i3 p unfolding KernelStart_def Let_def start_def [symmetric]
    by (auto simp: kernel_simps switched_in_def ready_insert_eq save_initial_kernel_def copy_frame_def stack_frame_def)
  then show thesis using that i2(4,5,11-13) p by auto
qed

lemma cold_boot_state:
  obtains uc' s a p ff where "KernelStart (\<lambda>_. None) [x] 0x400000 sample_uc cold = Inr (uc', s)"
    and "active_proc s = Some a" and "pcbs s a = Some p" and "u_page_table p = replicate 128 null_pte"
    and "next_heap_pn p = 4" and "free_frames s = 507 # ff"
  by (rule cold_boot_process)

theorem isolation_always_witness:
  "\<exists>s a p. reachable (\<lambda>_. None) [[0x69]] 0x400000 sample_uc cold s \<and> pcbs s a = Some p \<and>
     valid (u_page_table p ! 4) \<and> pfn (u_page_table p ! 4) = 507 \<and>
     507 \<notin> set (free_frames s) \<and> 507 \<notin># used (krnl_page_table s)"
proof -
  obtain uc' s a p ff where b: "KernelStart (\<lambda>_. None) [[0x69]] 0x400000 sample_uc cold = Inr (uc', s)"
    and s: "active_proc s = Some a" "pcbs s a = Some p" "u_page_table p = replicate 128 null_pte" "next_heap_pn p = 4"
      "free_frames s = 507 # ff"
    by (rule cold_boot_state)
  let ?uc = "sample_uc\<lparr>uc_code := 0xABCDEF06, uc_regs := [0x10A000, 0, 0, 0, 0, 0, 0, 0]\<rparr>"
  let ?t = "(replicate 128 null_pte)[4 := \<lparr>valid = True, prot = PROT_READ + PROT_WRITE, pfn = 507\<rparr>]"
  have pg: "page_of (UP_TO_PAGE (reg ?uc 0) - VMEM_1_BASE) = 5"
    by (simp add: reg_def page_of_small UP_TO_PAGE_def PAGEMASK_def PAGEOFFSET_def)
  have m: "map_range (next_heap_pn p) (page_of (UP_TO_PAGE (reg ?uc 0) - VMEM_1_BASE)) (u_page_table p) (free_frames s)
      = Inr (True, ?t, ff)"
    unfolding pg s(3-5) by (simp add: map_range.simps)
  let ?p = "p\<lparr>u_page_table := ?t, next_heap_pn := 5\<rparr>"
  let ?s = "s\<lparr>free_frames := ff, hw := hw s @ [HW_TLB_FLUSH TLB_FLUSH_1], pcbs := (pcbs s)(a \<mapsto> ?p)\<rparr>"
  have "sys_Brk ?uc s = Inr (Done (Some 0) ?s)" using sys_Brk_eq [OF s(1,2) m] unfolding pg by simp
  then have "int_vector (\<lambda>_. None) 0 [] ?uc s = Some (Inr (set_ret 0 ?uc, ?s))"
    by (simp add: int_vector_def run_res_def trap_kernel_hdl_def sample_uc_def)
  then have r: "reachable (\<lambda>_. None) [[0x69]] 0x400000 sample_uc cold ?s" using reachable.trap [OF reachable.boot [OF b]] by blast
  have n: "130 \<le> uint (0x400000 :: u32) div 8192" by simp
  have p: "pcbs ?s a = Some ?p" "4 < length (u_page_table ?p)" "valid (u_page_table ?p ! 4)" "pfn (u_page_table ?p ! 4) = 507"
    by simp_all
  have "507 \<notin> set (free_frames ?s) \<and> 507 \<notin># used (krnl_page_table ?s)"
    using isolation_always [OF cold_powered n r p(1-3) p(1-3) p(4) p(4)] by simp
  with r p show ?thesis by blast
qed

end
