(* ===== verification/Boot_Totality.thy ===== *)
theory Boot_Totality
  imports Boot_Properties Loader_Properties
begin

text \<open>
  The kernel comes up: when the executables of init and idle are missing, rejected by LoadInfo or
  well formed, the loader returns whatever the number of free frames, and so does KernelStart.
\<close>

section \<open>Mapping within the table always returns\<close>

lemma map_range_total:
  assumes "0 \<le> i" and "i + int n \<le> int (length t)"
  shows "\<exists>ok t' ff'. map_range i (i + int n) t ff = Inr (ok, t', ff') \<and> length t' = length t \<and>
     (ok \<longrightarrow> n \<le> length ff \<and> 0 \<notin> set (take n ff) \<and> ff' = drop n ff)"
  using assms
proof (induction n arbitrary: i t ff)
  case 0
  obtain f ff1 where "grab ff = (f, ff1)" by (cases "grab ff")
  then show ?case by (auto simp: map_range_step)
next
  case (Suc n)
  obtain f ff1 where g: "grab ff = (f, ff1)" by (cases "grab ff")
  show ?case
  proof (cases "f = 0")
    case True
    then show ?thesis using Suc.prems by (auto simp: map_range_step [OF g])
  next
    case False
    then have ff: "ff = f # ff1" using g by (cases ff) auto
    let ?t = "t[nat i := \<lparr>valid = True, prot = PROT_READ + PROT_WRITE, pfn = f\<rparr>]"
    have "\<exists>ok t' ff'. map_range (i + 1) (i + 1 + int n) ?t ff1 = Inr (ok, t', ff') \<and> length t' = length ?t \<and>
       (ok \<longrightarrow> n \<le> length ff1 \<and> 0 \<notin> set (take n ff1) \<and> ff' = drop n ff1)"
      using Suc.prems by (intro Suc.IH) simp_all
    moreover have "map_range i (i + int (Suc n)) t ff = map_range (i + 1) (i + 1 + int n) ?t ff1"
      using map_range_step [OF g, of i "i + int (Suc n)" t] False Suc.prems by (simp add: ac_simps)
    ultimately show ?thesis using False ff by auto
  qed
qed

lemma map_down_total:
  assumes "int n \<le> i + 1" and "i < int (length t)"
  shows "\<exists>ok t' ff'. map_down n i t ff = Inr (ok, t', ff') \<and>
     (ok \<longrightarrow> n \<le> length ff \<and> 0 \<notin> set (take n ff) \<and> ff' = drop n ff)"
  using assms
proof (induction n arbitrary: i t ff)
  case (Suc n)
  obtain f ff1 where g: "grab ff = (f, ff1)" by (cases "grab ff")
  show ?case
  proof (cases "f = 0")
    case True
    then show ?thesis using g by auto
  next
    case False
    then have ff: "ff = f # ff1" using g by (cases ff) auto
    let ?t = "t[nat i := \<lparr>valid = True, prot = PROT_READ + PROT_WRITE, pfn = f\<rparr>]"
    have "\<exists>ok t' ff'. map_down n (i - 1) ?t ff1 = Inr (ok, t', ff') \<and>
       (ok \<longrightarrow> n \<le> length ff1 \<and> 0 \<notin> set (take n ff1) \<and> ff' = drop n ff1)"
      using Suc.prems by (intro Suc.IH) simp_all
    then show ?thesis using Suc.prems False ff by auto
  qed
qed auto

lemma nonzero_parts:
  "k \<le> length ff \<Longrightarrow> 0 \<notin> set (take k ff) \<Longrightarrow> n \<le> length (drop k ff) \<Longrightarrow> 0 \<notin> set (take n (drop k ff)) \<Longrightarrow>
   k + n \<le> length ff \<and> 0 \<notin> set (take (k + n) ff)" for ff :: "nat list"
  by (auto simp: take_add)

text \<open>map_program returns; it succeeds only when there are enough frames.\<close>

lemma map_program_total:
  assumes p: "pcbs s a = Some p" and ok: "mem_ok s" and len: "length (u_page_table p) = 128"
    and tp: "text_pg1 li = int tp" and dp: "data_pg1 li = int dp"
    and fit: "tp + t_npg li \<le> dp" "dp + data_npg li + sn < 128"
  shows "\<exists>r s'. map_program li sn a s = Inr (r, s') \<and> (r \<longrightarrow> t_npg li + data_npg li + sn \<le> length (load_frames p s) \<and>
     0 \<notin> set (take (t_npg li + data_npg li + sn) (load_frames p s)))"
proof -
  let ?tn = "t_npg li" and ?dn = "data_npg li" and ?L = "load_frames p s" and ?t0 = "map invalidate (u_page_table p)"
  have f: "free_table (u_page_table p) s = (?t0, s\<lparr>malloc_cnt := malloc_cnt s + length (filter valid (u_page_table p)), free_frames := ?L\<rparr>)"
    using free_table_ok [OF ok] by (simp add: load_frames_def page_frames_def)
  have "\<exists>r t' ff'. map_range (int tp) (int tp + int ?tn) ?t0 ?L = Inr (r, t', ff') \<and> length t' = length ?t0 \<and>
     (r \<longrightarrow> ?tn \<le> length ?L \<and> 0 \<notin> set (take ?tn ?L) \<and> ff' = drop ?tn ?L)"
    using fit len by (intro map_range_total) simp_all
  then obtain r1 t1 ff1 where m1: "map_range (int tp) (int tp + int ?tn) ?t0 ?L = Inr (r1, t1, ff1)" "length t1 = 128"
    "r1 \<Longrightarrow> ?tn \<le> length ?L \<and> 0 \<notin> set (take ?tn ?L) \<and> ff1 = drop ?tn ?L"
    using len by auto
  have "\<exists>r t' ff'. map_range (int dp) (int dp + int ?dn) t1 ff1 = Inr (r, t', ff') \<and> length t' = length t1 \<and>
     (r \<longrightarrow> ?dn \<le> length ff1 \<and> 0 \<notin> set (take ?dn ff1) \<and> ff' = drop ?dn ff1)"
    using fit m1(2) by (intro map_range_total) simp_all
  then obtain r2 t2 ff2 where m2: "map_range (int dp) (int dp + int ?dn) t1 ff1 = Inr (r2, t2, ff2)" "length t2 = 128"
    "r2 \<Longrightarrow> ?dn \<le> length ff1 \<and> 0 \<notin> set (take ?dn ff1) \<and> ff2 = drop ?dn ff1"
    using m1(2) by auto
  have "\<exists>r t' ff'. map_down sn 127 t2 ff2 = Inr (r, t', ff') \<and>
     (r \<longrightarrow> sn \<le> length ff2 \<and> 0 \<notin> set (take sn ff2) \<and> ff' = drop sn ff2)"
    using fit m2(2) by (intro map_down_total) simp_all
  then obtain r3 t3 ff3 where m3: "map_down sn 127 t2 ff2 = Inr (r3, t3, ff3)"
    "r3 \<Longrightarrow> sn \<le> length ff2 \<and> 0 \<notin> set (take sn ff2)"
    by auto
  have top: "page_of (VMEM_1_LIMIT - VMEM_1_BASE) - 1 = 127" by (simp add: page_of_small)
  have all: "?tn + ?dn + sn \<le> length ?L \<and> 0 \<notin> set (take (?tn + ?dn + sn) ?L)" if "r1" "r2" "r3"
  proof -
    have "?tn + ?dn \<le> length ?L \<and> 0 \<notin> set (take (?tn + ?dn) ?L)" using m1(3) m2(3) that nonzero_parts by blast
    moreover have "ff2 = drop (?tn + ?dn) ?L" using m1(3) m2(3) that by (simp add: add.commute)
    ultimately show ?thesis using m3(2) that nonzero_parts by blast
  qed
  show ?thesis using p f m1(1) m2(1) m3(1) all unfolding map_program_def tp dp top
    by (cases r1; cases r2; cases r3) (auto simp: Let_def)
qed

section \<open>The loader returns\<close>

text \<open>What is behind a file name is nothing, no executable, or a well-formed executable.\<close>

definition program_fits :: "(byte list \<Rightarrow> program option) \<Rightarrow> byte list \<Rightarrow> byte list list \<Rightarrow> bool" where
  "program_fits fs name xs \<longleftrightarrow>
     (\<forall>prog li. fs name = Some prog \<longrightarrow> prog_info prog = Some li \<longrightarrow> (\<exists>tp dp. image_ok prog li xs tp dp))"

lemma load_image_total:
  assumes inv: "kernel_inv s" and p: "pcbs s a = Some p" and len: "length (u_page_table p) = 128"
    and ok: "image_ok prog li xs tp dp"
  shows "\<exists>rc s'. load_image prog li xs a s = Inr (rc, s')"
proof -
  let ?sn = "nat (stack_npg xs)" and ?n = "t_npg li + data_npg li + nat (stack_npg xs)"
  note lay = image_layout [OF ok refl]
  have ord: "tp + t_npg li \<le> dp" and ok_s: "mem_ok s" using ok inv by (simp_all add: image_ok_def kernel_inv_def)
  from map_program_total [OF p ok_s len lay(1,2) ord lay(3)] obtain r s1 where
    m: "map_program li ?sn a s = Inr (r, s1)" "r \<Longrightarrow> ?n \<le> length (load_frames p s) \<and> 0 \<notin> set (take ?n (load_frames p s))"
    by blast
  show ?thesis
  proof (cases r)
    case True
    then show ?thesis using load_image_ok [OF inv p len ok refl] m(2) by blast
  next
    case False
    then show ?thesis using m(1) by (simp add: load_image_def)
  qed
qed

lemma load_program_total:
  assumes inv: "kernel_inv s" and p: "pcbs s a = Some p" and len: "length (u_page_table p) = 128"
    and fits: "program_fits fs name xs"
  shows "\<exists>rc s'. load_program fs name (Inr xs) a s = Inr (rc, s')"
proof -
  note e = entering_inv [OF inv p, of xs]
  have "\<exists>rc s'. load_image prog li xs a (entering xs a s) = Inr (rc, s')" if "fs name = Some prog" "prog_info prog = Some li" for prog li
  proof -
    from fits that obtain tp dp where "image_ok prog li xs tp dp" unfolding program_fits_def by blast
    then show ?thesis using load_image_total [OF e(1), of a "p\<lparr>uctxt := (uctxt p)\<lparr>uc_sp := args_sp xs\<rparr>\<rparr>"] e(2) len by simp
  qed
  moreover have "malloc_fails s = (\<lambda>_. False)" using inv by (simp add: kernel_inv_def mem_ok_def)
  ultimately show ?thesis
    by (auto simp: kernel_simps load_program_def entering_def split: option.splits)
qed

lemma load_first_total:
  assumes "kernel_inv s" and "pcbs s a = Some p" and "length (u_page_table p) = 128" and "program_fits fs name xs"
  shows "\<exists>s'. load_first fs (Some name) (Inr xs) a s = Inr s'"
  using load_program_total [OF assms] by (auto simp: load_first_def)

section \<open>KernelStart returns\<close>

lemma init_init_total:
  assumes inv: "kernel_inv s" and n: "next_pid s = 0"
    and ff: "free_frames s = f0 # f1 # ff" "f0 \<noteq> 0" "f1 \<noteq> 0" and fits: "program_fits fs name xs"
  shows "\<exists>s'. init_init fs uc (name # xs) s = Inr s'"
proof -
  let ?a = "malloc_cnt s"
  have ok: "mem_ok s" and k2: "length (k_stack_pt (fresh_pcb s ?a)) = 2" using inv by (simp_all add: kernel_inv_def sized_def)
  from k2 obtain e0 e1 where k: "k_stack_pt (fresh_pcb s ?a) = [e0, e1]"
    by (metis (no_types, opaque_lifting) length_0_conv length_Suc_conv numeral_2_eq_2)
  let ?p = "(fresh_pcb s ?a)\<lparr>uctxt := uc, state := RUNNING, pid := 0, ppid := -1, children := [],
     k_stack_pt := [fresh_entry f0, fresh_entry f1], u_page_table := replicate 128 null_pte\<rparr>"
  let ?s1 = "s\<lparr>p_init := Some ?a, next_pid := 1, pcb_table := (pcb_table s)(0 := Some ?a),
     malloc_cnt := Suc (Suc ?a), free_frames := ff, pcbs := (pcbs s)(?a \<mapsto> ?p), hw := hw s @ [HW_PTBR1 ?a, HW_PTLR1 128]\<rparr>"
  have inv1: "kernel_inv ?s1"
    using ff by (intro new_process_inv [OF inv no_pcb_at_break [OF inv], of _ ?p]) (simp_all add: fresh_entry_def sized_def)
  have "init_init fs uc (name # xs) s = load_first fs (Some name) (Inr xs) ?a ?s1"
    using ok n ff k
    by (simp add: kernel_simps init_init_def mem_ok_def)
  then show ?thesis using load_first_total [OF inv1, of ?a ?p] fits by simp
qed

lemma init_idle_total:
  assumes inv: "kernel_inv s" and n: "next_pid s = 1" and fits: "program_fits fs idle_name xs"
  shows "\<exists>s'. init_idle fs uc (name # xs) s = Inr s'"
proof -
  let ?a = "malloc_cnt s"
  have ok: "mem_ok s" and k2: "length (k_stack_pt (fresh_pcb s ?a)) = 2" using inv by (simp_all add: kernel_inv_def sized_def)
  from k2 obtain e0 e1 where k: "k_stack_pt (fresh_pcb s ?a) = [e0, e1]"
    by (metis (no_types, opaque_lifting) length_0_conv length_Suc_conv numeral_2_eq_2)
  let ?p = "(fresh_pcb s ?a)\<lparr>uctxt := uc, state := READY, pid := 1, ppid := -1, children := [],
     k_stack_pt := [e0\<lparr>pfn := 0\<rparr>, e1\<lparr>pfn := 0\<rparr>], u_page_table := replicate 128 null_pte\<rparr>"
  let ?s1 = "s\<lparr>p_idle := Some ?a, next_pid := 2, pcb_table := (pcb_table s)(1 := Some ?a),
     malloc_cnt := Suc (Suc ?a), pcbs := (pcbs s)(?a \<mapsto> ?p), hw := hw s @ [HW_PTBR1 ?a, HW_PTLR1 128]\<rparr>"
  have inv1: "kernel_inv ?s1"
    by (intro new_process_inv [OF inv no_pcb_at_break [OF inv], of _ ?p]) (simp_all add: sized_def)
  have "init_idle fs uc (name # xs) s = load_first fs (Some idle_name) (Inr xs) ?a ?s1"
    using ok n k
    by (simp add: kernel_simps init_idle_def mem_ok_def)
  then show ?thesis using load_first_total [OF inv1, of ?a ?p] fits by simp
qed

lemma KernelStart_total:
  assumes on: "switched_on s" and n: "130 \<le> uint n div 8192"
    and fits: "program_fits fs name xs" "program_fits fs idle_name xs"
  shows "\<exists>uc' s'. KernelStart fs (name # xs) n uc s = Inr (uc', s')"
proof -
  from vmem_inv [OF on n] obtain s1 f0 f1 ff where s1: "enable_vmem (start n s) = Inr s1" "kernel_inv s1"
    "pcbs s1 = Map.empty" "next_pid s1 = 0" "initial_ks s1 = replicate 2 null_pte"
    "free_frames s1 = f0 # f1 # ff" "f0 \<noteq> 0" "f1 \<noteq> 0"
    by blast
  from init_init_total [OF s1(2,4,6-8) fits(1)] obtain s2 where i2: "init_init fs uc (name # xs) s1 = Inr s2" by blast
  from s1(2,4,6-8) i2 obtain p where p: "kernel_inv s2" "p_init s2 = Some (malloc_cnt s1)"
    "pcbs s2 = (pcbs s1)(malloc_cnt s1 \<mapsto> p)" "next_pid s2 = 1" "initial_ks s2 = initial_ks s1"
    by (rule init_init_inv)
  from init_idle_total [OF p(1,4) fits(2)] obtain s3 where i3: "init_idle fs uc (name # xs) s2 = Inr s3" by blast
  from p(1,4) i3 obtain q where q: "p_idle s3 = Some (malloc_cnt s2)"
    "pcbs s3 = (pcbs s2)(malloc_cnt s2 \<mapsto> q)" "p_init s3 = p_init s2" "initial_ks s3 = initial_ks s2"
    by (rule init_idle_inv)
  let ?s4 = "(snd (ready_insert (malloc_cnt s2) s3))\<lparr>active_proc := p_init (snd (ready_insert (malloc_cnt s2) s3))\<rparr>"
  have f4: "initial_ks ?s4 = replicate 2 null_pte" "active_proc ?s4 = Some (malloc_cnt s1)" "pcbs ?s4 (malloc_cnt s1) \<noteq> None"
    using q p s1 by (simp_all add: ready_insert_def klist_append_def malloc_def klist_insert_def split: prod.splits)
  from f4(1) obtain ff5 m5 k5 where e5: "snd (save_initial_kernel K_Start ?s4) =
      ?s4\<lparr>initial_kc := K_Start, free_frames := ff5, pmem := m5, initial_ks := k5\<rparr>" (is "_ = ?s5")
    and "used k5 + nonzero ff5 \<subseteq># nonzero (free_frames ?s4)"
    by (rule save_initial_effect)
  have "KernelStart fs (name # xs) n uc s = switched_in ?s5"
    using s1(1) i2 i3 q(1) unfolding KernelStart_def Let_def start_def [symmetric] e5 [symmetric] by simp
  then show ?thesis using f4 by (auto simp: switched_in_def)
qed

text \<open>
KernelStart returns, in the model, in which a frame is addressable by its physical address whatever the
page tables hold (see the assumptions in the root theory): with a malloc that never fails, at least 130
frames of memory, and executables for init and idle that are missing, rejected or well formed, it leaves two processes: init, pid 0, runs with the user context
KernelStart returns; idle, pid 1, is the only entry of the ready queue. The next pid is 2, the
saved kernel context is the end of KernelStart, and no two owners share a frame.
\<close>

theorem boot_two_processes:
  assumes "switched_on s" and "130 \<le> uint n div 8192" and "program_fits fs name xs" and "program_fits fs idle_name xs"
  shows "\<exists>uc' s' a p b q. KernelStart fs (name # xs) n uc s = Inr (uc', s') \<and>
     pcbs s' = [a \<mapsto> p, b \<mapsto> q] \<and> a \<noteq> b \<and> active_proc s' = Some a \<and> ready_queue s' = [b] \<and>
     pid p = 0 \<and> state p = RUNNING \<and> uc' = uctxt p \<and> pid q = 1 \<and> state q = READY \<and>
     next_pid s' = 2 \<and> initial_kc s' = K_Start \<and> isolated (frames_of s')"
proof -
  from KernelStart_total [OF assms] obtain uc' s' where run: "KernelStart fs (name # xs) n uc s = Inr (uc', s')" by blast
  from assms(1,2) run obtain a p b q where "kernel_inv s'" "active_proc s' = Some a" "pcbs s' = [a \<mapsto> p, b \<mapsto> q]" "a \<noteq> b"
    "pid p = 0" "pid q = 1" "ready_queue s' = [b]" "uc' = uctxt p" "next_pid s' = 2"
    "initial_kc s' = K_Start" "state p = RUNNING" "state q = READY"
    by (rule boot_state)
  then show ?thesis using run unfolding kernel_inv_def by blast
qed

theorem boot_two_processes_witness:
  "\<exists>uc' s' a p b q. KernelStart (\<lambda>_. Some sample_prog) [[0x69], [104, 105]] 0x400000 sample_uc cold = Inr (uc', s') \<and>
     pcbs s' = [a \<mapsto> p, b \<mapsto> q] \<and> a \<noteq> b \<and> active_proc s' = Some a \<and> ready_queue s' = [b]"
proof -
  have "image_ok sample_prog sample_li [[104, 105]] 0 2"
    using sample_loadable [of "[[104, 105]]"] by (simp add: loadable_def)
  then have "program_fits (\<lambda>_. Some sample_prog) nm [[104, 105]]" for nm
    by (auto simp: program_fits_def sample_prog_def)
  moreover have "130 \<le> uint (0x400000 :: u32) div 8192" by simp
  ultimately show ?thesis using boot_two_processes [OF cold_on] by blast
qed

end
