(* ===== verification/Trap_Termination.thy ===== *)
theory Trap_Termination
  imports Trap_Isolation
begin

text \<open>
  Every trap ends. A process that gives up the processor inside the kernel leaves the ready queue
  and puts nobody into it, so the queue shrinks with every switch; the idle process, which never
  blocks, is in it, and once idle is switched in the trap is over. \<open>queues\<close> says what a handler may do
  to the ready queue and to the saved contexts, \<open>wakes\<close> the same without a bound.
\<close>

section \<open>The idle process\<close>

text \<open>A process that goes straight back to user mode when it is switched in.\<close>

definition rests :: "kcont \<Rightarrow> bool" where
  "rests k \<longleftrightarrow> k = K_Start \<or> k = K_Sched"

definition rested :: "addr \<Rightarrow> kstate \<Rightarrow> bool" where
  "rested i s \<longleftrightarrow> (\<exists>p. pcbs s i = Some p \<and> (rests (kctxt p) \<or> pfn (k_stack_pt p ! 0) = 0))"

text \<open>Process \<open>i\<close> is ready, was last switched out by the clock or never ran, and is not running.\<close>

definition idle_ready :: "addr \<Rightarrow> kstate \<Rightarrow> bool" where
  "idle_ready i s \<longleftrightarrow> kernel_inv s \<and> initial_kc s = K_Start \<and> rested i s \<and> i \<in> set (ready_queue s) \<and>
     active_proc s \<noteq> Some i"

text \<open>Between traps: idle runs or is ready.\<close>

definition idle_safe :: "addr \<Rightarrow> kstate \<Rightarrow> bool" where
  "idle_safe i s \<longleftrightarrow> kernel_inv s \<and> initial_kc s = K_Start \<and> (active_proc s = Some i \<or> idle_ready i s)"

text \<open>Inside the kernel: idle has just been switched in and goes on with \<open>k\<close>, or it is ready.\<close>

definition idle_at :: "addr \<Rightarrow> kcont \<Rightarrow> kstate \<Rightarrow> bool" where
  "idle_at i k s \<longleftrightarrow> kernel_inv s \<and> initial_kc s = K_Start \<and> (active_proc s = Some i \<and> rests k \<or> idle_ready i s)"

text \<open>The result of a handler or of a resumed call: only a process other than idle blocks.\<close>

fun idle_kres :: "addr \<Rightarrow> kres \<Rightarrow> bool" where
  "idle_kres i (Yield k s) = idle_ready i s"
| "idle_kres i (Done v s) = idle_safe i s"
| "idle_kres i (Restart s) = idle_safe i s"

lemma rested_resumes: "rests k \<Longrightarrow> resume_k k uc s = Inr (Done None s)"
  by (auto simp: rests_def)

section \<open>What a system call leaves behind\<close>

text \<open>
  At most \<open>n\<close> processes become ready, and no process but the running one gets another kernel context
  or kernel stack.
\<close>

definition idle_view :: "addr option \<Rightarrow> addr \<Rightarrow> pcb \<Rightarrow> (kcont \<times> pte list) option" where
  "idle_view act a p = (if act = Some a then None else Some (kctxt p, k_stack_pt p))"

lemma idle_view_upd [simp]:
  "idle_view c a (p\<lparr>state := x1\<rparr>) = idle_view c a p" "idle_view c a (p\<lparr>children := x2\<rparr>) = idle_view c a p"
  "idle_view c a (p\<lparr>uctxt := x3\<rparr>) = idle_view c a p" "idle_view c a (p\<lparr>ppid := x4\<rparr>) = idle_view c a p"
  "idle_view c a (p\<lparr>tty_id := x5\<rparr>) = idle_view c a p" "idle_view c a (p\<lparr>io_buf := x6\<rparr>) = idle_view c a p"
  "idle_view c a (p\<lparr>io_len := x7\<rparr>) = idle_view c a p" "idle_view c a (p\<lparr>u_page_table := x8\<rparr>) = idle_view c a p"
  "idle_view c a (p\<lparr>next_heap_pn := x9\<rparr>) = idle_view c a p" "idle_view c a (p\<lparr>next_stack_pn := x10\<rparr>) = idle_view c a p"
  "idle_view (Some a) a p = None"
  by (simp_all add: idle_view_def)

definition queues :: "nat \<Rightarrow> kstate \<Rightarrow> kstate \<Rightarrow> bool" where
  "queues n s s' \<longleftrightarrow> (active_proc s' = active_proc s \<or> active_proc s' = None) \<and> initial_kc s' = initial_kc s \<and>
     (\<exists>ws. ready_queue s' = ready_queue s @ ws \<and> length ws \<le> n) \<and>
     (\<forall>a. pcbs s a \<noteq> None \<longrightarrow>
        map_option (idle_view (active_proc s) a) (pcbs s' a) = map_option (idle_view (active_proc s) a) (pcbs s a))"

lemma queues_refl [simp]: "queues n s s"
  by (simp add: queues_def)

lemma queues_more: "queues n s s' \<Longrightarrow> n \<le> m \<Longrightarrow> queues m s s'"
  by (auto simp: queues_def)

lemma queues_rested: "queues n s s' \<Longrightarrow> rested i s \<Longrightarrow> active_proc s \<noteq> Some i \<Longrightarrow> rested i s'"
proof -
  assume q: "queues n s s'" and r: "rested i s" and act: "active_proc s \<noteq> Some i"
  from r obtain p where p: "pcbs s i = Some p" "rests (kctxt p) \<or> pfn (k_stack_pt p ! 0) = 0" by (auto simp: rested_def)
  from q p(1) have "map_option (idle_view (active_proc s) i) (pcbs s' i) = Some (idle_view (active_proc s) i p)"
    by (simp add: queues_def)
  then show ?thesis using p(2) act by (auto simp: rested_def idle_view_def)
qed

lemma queues_trans:
  assumes "queues n s t" and "queues m t u"
  shows "queues (n + m) s u"
proof -
  have "map_option (idle_view (active_proc s) a) (pcbs u a) = map_option (idle_view (active_proc s) a) (pcbs s a)"
    if "pcbs s a \<noteq> None" for a
  proof -
    from that assms(1) have st: "map_option (idle_view (active_proc s) a) (pcbs t a) = map_option (idle_view (active_proc s) a) (pcbs s a)"
      by (simp add: queues_def)
    with that have "pcbs t a \<noteq> None" by auto
    with assms(2) have tu: "map_option (idle_view (active_proc t) a) (pcbs u a) = map_option (idle_view (active_proc t) a) (pcbs t a)"
      by (simp add: queues_def)
    have "active_proc t = active_proc s \<or> active_proc t = None" using assms(1) by (simp add: queues_def)
    with st tu show ?thesis by (auto simp: idle_view_def map_option_case split: option.splits)
  qed
  moreover have "\<exists>ws. ready_queue u = ready_queue s @ ws \<and> length ws \<le> n + m"
    using assms by (auto simp: queues_def)
  ultimately show ?thesis using assms by (auto simp: queues_def)
qed

lemma queues_ready: "queues n s s' \<Longrightarrow> idle_ready i s \<Longrightarrow> kernel_inv s' \<Longrightarrow> idle_ready i s'"
  using queues_rested [of n s s' i] by (simp add: idle_ready_def) (auto simp: queues_def)

lemma queues_length: "queues n s s' \<Longrightarrow> length (ready_queue s') \<le> length (ready_queue s) + n"
  by (auto simp: queues_def)

lemmas queue_code = queues_def set_pcb_def ready_insert_eq klist_append_eq malloc_def Let_def
  option.map_comp o_def

lemma queues_frame [simp]:
  "queues n s (s'\<lparr>malloc_cnt := x0\<rparr>) = queues n s s'"
  "queues n s (s'\<lparr>pmem := x1\<rparr>) = queues n s s'"
  "queues n s (s'\<lparr>hw := x2\<rparr>) = queues n s s'"
  "queues n s (s'\<lparr>ub_log := x3\<rparr>) = queues n s s'"
  "queues n s (s'\<lparr>free_frames := x4\<rparr>) = queues n s s'"
  "queues n s (s'\<lparr>sleep_list := x5\<rparr>) = queues n s s'"
  "queues n s (s'\<lparr>wait_list := x6\<rparr>) = queues n s s'"
  "queues n s (s'\<lparr>io_list := x7\<rparr>) = queues n s s'"
  "queues n s (s'\<lparr>dead_list := x8\<rparr>) = queues n s s'"
  "queues n s (s'\<lparr>pipes := x9\<rparr>) = queues n s s'"
  "queues n s (s'\<lparr>locks := x10\<rparr>) = queues n s s'"
  "queues n s (s'\<lparr>cvars := x11\<rparr>) = queues n s s'"
  "queues n s (s'\<lparr>sems := x12\<rparr>) = queues n s s'"
  "queues n s (s'\<lparr>reclaims := x13\<rparr>) = queues n s s'"
  by (simp_all add: queues_def)

lemma queues_set_pcb: "(\<And>p. idle_view (active_proc s) a (f p) = idle_view (active_proc s) a p) \<Longrightarrow> queues n s (set_pcb a f s)"
  by (auto simp: queues_def set_pcb_def option.map_comp o_def map_option_case split: option.splits)

text \<open>A call that blocks makes nobody ready; one that returns may wake up one process.\<close>

fun gain :: "kres \<Rightarrow> nat" where
  "gain (Yield k s) = 0"
| "gain (Done v s) = 1"
| "gain (Restart s) = 1"

lemma gain_le: "gain r \<le> 1"
  by (cases r) simp_all

lemma delay_queues: "sys_Delay uc s = Inr r \<Longrightarrow> queues (gain r) s (kres_state r)"
  by (auto simp: sys_Delay_def insert_sleep_list_def queue_code split: if_splits option.splits)

lemma wait_queues: "sys_Wait uc s = Inr r \<Longrightarrow> queues (gain r) s (kres_state r)"
  by (auto simp: sys_Wait_def reap_def queue_code split: if_splits option.splits dest!: user_store_effect)

lemma wait_resume_queues: "wait_resume a i s = Inr r \<Longrightarrow> queues (gain r) s (kres_state r)"
  by (auto simp: wait_resume_def reap_def queue_code split: if_splits option.splits dest!: user_store_effect)

lemma tty_block_queues: "tty_block t c s = Inr r \<Longrightarrow> queues (gain r) s (kres_state r)"
  by (auto simp: tty_block_def queue_code split: if_splits option.splits)

lemma tty_read_queues: "sys_TtyRead uc s = Inr r \<Longrightarrow> queues (gain r) s (kres_state r)"
  by (auto simp: sys_TtyRead_def queue_code split: if_splits option.splits)

lemma tty_read_resume_queues: "ttyread_resume t s = Inr r \<Longrightarrow> queues (gain r) s (kres_state r)"
  by (auto simp: ttyread_resume_def queue_code split: if_splits option.splits dest!: user_store_effect)

lemma tty_loop_queues: "tty_loop uc t n s = Inr r \<Longrightarrow> queues (gain r) s (kres_state r)"
  by (auto simp: tty_loop_def Let_def queues_def split: if_splits dest!: tty_block_queues)

lemma tty_write_queues: "sys_TtyWrite uc s = Inr r \<Longrightarrow> queues (gain r) s (kres_state r)"
  by (auto simp: sys_TtyWrite_def Let_def split: if_splits dest!: tty_loop_queues)

lemma pipe_take_queues: "pipe_take a p buf n s = Inr r \<Longrightarrow> queues (gain r) s (kres_state r)"
  by (auto simp: pipe_take_def queue_code split: if_splits list.splits dest!: user_store_effect)

lemma pipe_loop_queues: "pipe_read_loop a i buf n e s = Inr r \<Longrightarrow> queues (gain r) s (kres_state r)"
  by (auto simp: pipe_read_loop_def klist_append_eq split: if_splits option.splits dest!: pipe_take_queues)

lemma pipe_read_queues: "sys_PipeRead uc s = Inr r \<Longrightarrow> queues (gain r) s (kres_state r)"
  by (auto simp: sys_PipeRead_def Let_def split: if_splits option.splits dest!: pipe_loop_queues)

lemma pipe_resume_queues: "pipe_resume a i buf n e s = Inr r \<Longrightarrow> queues (gain r) s (kres_state r)"
  by (auto simp: pipe_resume_def Let_def split: if_splits dest!: pipe_loop_queues)

lemma acquire_loop_queues: "acquire_loop K l i e s = Inr r \<Longrightarrow> queues (gain r) s (kres_state r)"
  by (auto simp: acquire_loop_def queue_code split: if_splits option.splits)

lemma acquire_queues: "sys_Acquire K uc i s = Inr r \<Longrightarrow> queues (gain r) s (kres_state r)"
  by (auto simp: sys_Acquire_def Let_def split: if_splits option.splits dest!: acquire_loop_queues)

lemma acquire_resume_queues: "acquire_resume K l i e s = Inr r \<Longrightarrow> queues (gain r) s (kres_state r)"
  by (auto simp: acquire_resume_def Let_def split: if_splits dest!: acquire_loop_queues)

lemma release_queues: "sys_Release i s = Inr (rc, s') \<Longrightarrow> queues 1 s s'"
  by (auto simp: sys_Release_def queue_code split: option.splits list.splits)

lemma cvar_wait_queues: "sys_CvarWait uc s = Inr r \<Longrightarrow> queues 1 s (kres_state r)"
  by (auto simp: sys_CvarWait_def klist_append_eq Let_def split: if_splits option.splits dest!: release_queues)

lemma cvar_rc_gain [simp]: "gain (cvar_rc r) = gain r"
  by (cases r rule: cvar_rc.cases) simp_all

lemma cvar_resume_queues: "cvar_resume uc c i s = Inr r \<Longrightarrow> queues (gain r) s (kres_state r)"
  using acquire_queues [of K_CvarAcquire uc i s] by (auto simp: cvar_resume_def split: option.splits)

lemma sem_queues:
  "sys_Custom_0 uc s = Inr r \<Longrightarrow> queues (gain r) s (kres_state r)"
  "sys_Custom_1 uc s = Inr r \<Longrightarrow> queues (gain r) s (kres_state r)"
  "sys_Custom_2 uc s = Inr r \<Longrightarrow> queues (gain r) s (kres_state r)"
  by (auto simp: sys_Custom_0_def sys_Custom_1_def sys_Custom_2_def queue_code split: if_splits option.splits list.splits)

lemma object_queues:
  "sys_PipeInit uc s = Inr r \<Longrightarrow> queues (gain r) s (kres_state r)"
  "sys_PipeWrite uc s = Inr r \<Longrightarrow> queues (gain r) s (kres_state r)"
  "sys_LockInit uc s = Inr r \<Longrightarrow> queues (gain r) s (kres_state r)"
  "sys_CvarInit uc s = Inr r \<Longrightarrow> queues (gain r) s (kres_state r)"
  "sys_CvarSignal uc s = Inr r \<Longrightarrow> queues (gain r) s (kres_state r)"
  by (auto simp: sys_PipeInit_def sys_PipeWrite_def sys_LockInit_def sys_CvarInit_def sys_CvarSignal_def queue_code
      split: if_splits option.splits list.splits dest!: user_store_effect)

subsection \<open>Calls that wake many\<close>

definition wakes :: "kstate \<Rightarrow> kstate \<Rightarrow> bool" where
  "wakes s s' \<longleftrightarrow> (\<exists>n. queues n s s')"

lemma wakes_refl [simp]: "wakes s s"
  by (simp add: wakes_def)

lemma wakes_trans: "wakes s t \<Longrightarrow> wakes t u \<Longrightarrow> wakes s u"
  unfolding wakes_def using queues_trans by blast

lemma queues_wakes: "queues n s s' \<Longrightarrow> wakes s s'"
  unfolding wakes_def by blast

lemma wakes_frame [simp]:
  "wakes s (s'\<lparr>pipes := x1\<rparr>) = wakes s s'" "wakes s (s'\<lparr>locks := x2\<rparr>) = wakes s s'"
  "wakes s (s'\<lparr>cvars := x3\<rparr>) = wakes s s'" "wakes s (s'\<lparr>reclaims := x4\<rparr>) = wakes s s'"
  "wakes s (s'\<lparr>pipe_list := x5\<rparr>) = wakes s s'" "wakes s (s'\<lparr>lock_list := x6\<rparr>) = wakes s s'"
  "wakes s (s'\<lparr>cvar_list := x7\<rparr>) = wakes s s'" "wakes s (s'\<lparr>reclaim_list := x8\<rparr>) = wakes s s'"
  "wakes s (s'\<lparr>ub_log := x9\<rparr>) = wakes s s'"
  by (simp_all add: wakes_def queues_def)

lemma ready_insert_wakes: "wakes s (snd (ready_insert p s))"
  by (rule queues_wakes [of 1]) (auto simp: queues_def ready_insert_eq)

lemma broadcast_loop_wakes: "broadcast_loop w s = (rc, w', s') \<Longrightarrow> wakes s s'"
proof (induction w arbitrary: s)
  case (Cons p w)
  let ?s = "snd (ready_insert p s)"
  have "s' = ?s \<or> broadcast_loop w ?s = (rc, w', s')" using Cons.prems by (auto simp: split_beta split: if_splits)
  then show ?case using ready_insert_wakes [of s p] Cons.IH [of ?s] wakes_trans by blast
qed simp

lemma broadcast_wakes: "sys_CvarBroadcast uc s = Inr r \<Longrightarrow> wakes s (kres_state r)"
  by (auto simp: sys_CvarBroadcast_def Let_def split: if_splits option.splits prod.splits dest!: broadcast_loop_wakes)

lemma wake_loop_wakes: "wake_loop j w s = (w', s') \<Longrightarrow> wakes s s'"
proof (induction j w s arbitrary: w' s' rule: wake_loop.induct)
  case (1 j w s)
  show ?case
  proof (cases "j \<le> int (length w) \<and> w \<noteq> []")
    case True
    then obtain p w1 where w: "w = p # w1" by (cases w) auto
    let ?s = "snd (ready_insert p s)"
    from True w "1.prems" have r: "wake_loop (j + 1) w1 ?s = (w', s')"
      by (subst (asm) wake_loop.simps) simp
    from "1.IH" True w r have "wakes ?s s'" by fastforce
    with ready_insert_wakes show ?thesis by (rule wakes_trans)
  next
    case False
    with "1.prems" have "s' = s" by (subst (asm) wake_loop.simps) (auto split: if_splits)
    then show ?thesis by simp
  qed
qed

lemma destroy_wakes:
  "destroy_pipe_info i s = Inr (rc, s') \<Longrightarrow> wakes s s'"
  "destroy_lock_info i s = Inr (rc, s') \<Longrightarrow> wakes s s'"
  "destroy_cvar_info i s = Inr (rc, s') \<Longrightarrow> wakes s s'"
  by (auto simp: destroy_pipe_info_def destroy_lock_info_def destroy_cvar_info_def Let_def
      split: if_splits option.splits prod.splits dest!: wake_loop_wakes)

lemma reclaim_wakes: "sys_Reclaim uc s = Inr r \<Longrightarrow> wakes s (kres_state r)"
proof -
  have d: "destroy_by_type ty i s = Inr (rc, s') \<Longrightarrow> wakes s s'" for ty i rc s'
    by (auto simp: destroy_by_type_def split: if_splits dest!: destroy_wakes)
  show "sys_Reclaim uc s = Inr r \<Longrightarrow> wakes s (kres_state r)"
    by (auto simp: sys_Reclaim_def Let_def split: if_splits option.splits dest!: d)
qed

subsection \<open>Calls that change the running process\<close>

text \<open>Whatever happens to the running process and to processes that did not exist.\<close>

lemma queues_own:
  assumes "active_proc s = Some a" and "active_proc s' = Some a" and "initial_kc s' = initial_kc s"
    and "ready_queue s' = ready_queue s" and "\<And>b. b \<noteq> a \<Longrightarrow> pcbs s b \<noteq> None \<Longrightarrow> pcbs s' b = pcbs s b"
    and "pcbs s' a \<noteq> None"
  shows "queues n s s'"
proof -
  have "map_option (idle_view (Some a) b) (pcbs s' b) = map_option (idle_view (Some a) b) (pcbs s b)"
    if "pcbs s b \<noteq> None" for b
    using that assms(5) [of b] assms(6) by (cases "b = a") auto
  then show ?thesis using assms(1-4) by (auto simp: queues_def)
qed

lemma brk_queues:
  assumes run: "sys_Brk uc s = Inr r"
  shows "queues 0 s (kres_state r)"
proof -
  from run obtain rv s' where r: "r = Done rv s'" by (auto simp: sys_Brk_def Let_def split: if_splits)
  with run obtain a p ok t ff where a: "active_proc s = Some a" "pcbs s a = Some p"
    and m: "map_range (next_heap_pn p) (page_of (UP_TO_PAGE (reg uc 0) - VMEM_1_BASE))
           (u_page_table p) (free_frames s) = Inr (ok, t, ff)"
    using sys_Brk_result by blast
  show ?thesis using run [unfolded sys_Brk_eq [OF a m]] a(1)
    by (intro queues_own [OF a(1)]) (auto split: if_splits)
qed

lemma exec_queues:
  assumes run: "sys_Exec fs uc s = Inr r"
  shows "queues 0 s (kres_state r)"
proof -
  from run obtain me where "deref_ptr (pcbs s) (active_proc s) = Inr me" by (auto simp: sys_Exec_def)
  then obtain a where a: "active_proc s = Some a" "pcbs s a = Some me" by (cases "active_proc s") auto
  consider "kres_state r = s"
    | name as rc s1 where "load_program fs name as a s = Inr (rc, s1)" "queues 0 s1 (kres_state r)"
    using run a by (auto simp: sys_Exec_def return_initial_state_def copy_frame_def Let_def split: if_splits)
  then show ?thesis
  proof cases
    case 2
    from moves_load_program [OF a(2) 2(1)] obtain p' where "pcbs s1 = (pcbs s)(a \<mapsto> p')" "keeps s s1"
      by (auto simp: moves_def)
    then have "queues 0 s s1" using a(1) by (intro queues_own [OF a(1)]) (auto simp: keeps_def)
    from queues_trans [OF this 2(2)] show ?thesis by simp
  qed simp
qed

lemma fork_queues:
  assumes inv: "kernel_inv s" and run: "sys_Fork uc s = Inr r"
  shows "queues 1 s (kres_state r)"
proof -
  from inv run obtain a p q where a: "active_proc s = Some a" "pcbs s a = Some p" "sized q"
    "pcbs (kres_state r) = (pcbs s)(a \<mapsto> p\<lparr>children := children p @ [next_pid s]\<rparr>, malloc_cnt s \<mapsto> q)"
    "used (u_page_table q) + used (k_stack_pt q) + nonzero (free_frames (kres_state r)) \<subseteq># nonzero (free_frames s)"
    "malloc_cnt s < malloc_cnt (kres_state r)" "malloc_fails (kres_state r) = malloc_fails s"
    "fresh_pcb (kres_state r) = fresh_pcb s" "krnl_page_table (kres_state r) = krnl_page_table s"
    "initial_ks (kres_state r) = initial_ks s"
    "active_proc (kres_state r) = Some a" "initial_kc (kres_state r) = initial_kc s"
    "ready_queue (kres_state r) = ready_queue s \<or> ready_queue (kres_state r) = ready_queue s @ [malloc_cnt s]"
    by (rule fork_effect)
  have new: "pcbs s (malloc_cnt s) = None" using inv unfolding kernel_inv_def by (metis less_irrefl not_Some_eq)
  then show ?thesis using a by (auto simp: queues_def)
qed

subsection \<open>Exit\<close>

lemma orphan_queues: "orphan_children cs s = Inr s' \<Longrightarrow> queues 0 s s'"
proof (induction cs arbitrary: s)
  case (Cons c cs)
  then obtain a where r: "orphan_children cs (set_pcb a (\<lambda>p. p\<lparr>ppid := -1\<rparr>) s) = Inr s'" by auto
  have "queues 0 s (set_pcb a (\<lambda>p. p\<lparr>ppid := -1\<rparr>) s)" by (rule queues_set_pcb) simp
  from queues_trans [OF this Cons.IH [OF r]] show ?case by simp
qed simp

lemma report_queues: "report_to_parent me st s = Inr (rc, s') \<Longrightarrow> queues 0 s s'"
  by (auto simp: report_to_parent_def insert_dead_list_def queue_code split: if_splits option.splits)

lemma free_proc_queues:
  assumes "active_proc s = Some a" and "pcbs s a = Some q"
  shows "queues 0 s (free_proc a p s)"
proof -
  from assms(2) obtain n ff t k where "free_proc a p s =
      s\<lparr>malloc_cnt := n, free_frames := ff, pcbs := (pcbs s)(a \<mapsto> q\<lparr>u_page_table := t, k_stack_pt := k\<rparr>)\<rparr>"
    by (rule free_proc_effect)
  then show ?thesis using assms(1) by (intro queues_own [OF assms(1)]) auto
qed

lemma wake_parent_queues: "wake_parent pp s = Inr (rc, s') \<Longrightarrow> queues 1 s s'"
  by (auto simp: wake_parent_def queues_def ready_insert_eq split: option.splits prod.splits)

lemma exit_queues:
  assumes run: "sys_Exit uc mode s = Inr r"
  shows "queues 1 s (kres_state r)"
proof -
  from run obtain me s1 rc s2 where me: "deref_ptr (pcbs s) (active_proc s) = Inr me"
    and o: "orphan_children (children me) s = Inr s1"
    and rp: "report_to_parent me (if mode = 0 then sint (reg uc 0) else ERROR) s1 = Inr (rc, s2)"
    by (auto simp: sys_Exit_def Let_def)
  from me obtain a where a: "active_proc s = Some a" "pcbs s a = Some me" by (cases "active_proc s") auto
  have q: "quiet s s2" "active_proc s2 = Some a"
    using orphan_quiet [OF o] report_quiet [OF rp] a(1) quiet_trans by auto
  have q2: "queues 0 s s2" using queues_trans [OF orphan_queues [OF o] report_queues [OF rp]] by simp
  show ?thesis
  proof (cases "rc = 0")
    case False
    then show ?thesis using run me o rp queues_more [OF q2] by (auto simp: sys_Exit_def Let_def)
  next
    case True
    have "map_option tables (pcbs s2 a) = Some (tables me)" using q(1) a(2) by (simp add: quiet_def)
    then obtain q2' where p2: "pcbs s2 a = Some q2'" by auto
    from run me o rp True a(1) obtain rc' s3 where w: "wake_parent (ppid me) (free_proc a me s2) = Inr (rc', s3)"
      and r: "kres_state r = s3 \<or> kres_state r = s3\<lparr>active_proc := None\<rparr>"
      by (auto simp: sys_Exit_def Let_def split: if_splits)
    have "queues 1 s s3"
      using queues_trans [OF queues_trans [OF q2 free_proc_queues [OF q(2) p2]] wake_parent_queues [OF w]] by simp
    then show ?thesis using r by (auto simp: queues_def)
  qed
qed

subsection \<open>The terminals\<close>

text \<open>The interrupts of the terminals leave the running process alone.\<close>

definition attends :: "kstate \<Rightarrow> kstate \<Rightarrow> bool" where
  "attends s s' \<longleftrightarrow> wakes s s' \<and> active_proc s' = active_proc s"

lemma receive_attends: "receive_scan fuel t p s = Some (Inr s') \<Longrightarrow> attends s s'"
proof (induction fuel t p s rule: receive_scan.induct)
  case (3 fuel t a s)
  then consider "s' = snd (ready_insert a (s\<lparr>io_list := snd (klist_remove (io_list s) 1)\<rparr>))" | "attends s s'"
    by (auto split: sum.splits if_splits)
  then show ?case
  proof cases
    case 1
    then have "queues 1 s s'" by (auto simp: queues_def ready_insert_eq)
    with 1 show ?thesis using queues_wakes by (auto simp: attends_def ready_insert_eq)
  qed
qed (simp_all add: attends_def)

lemma tty_receive_attends: "trap_tty_receive_hdl fuel l uc s = Some (Inr s') \<Longrightarrow> attends s s'"
  by (auto simp: trap_tty_receive_hdl_def Let_def attends_def wakes_def queues_def split: if_splits dest!: receive_attends)

lemma tty_transmit_attends:
  assumes "trap_tty_transmit_hdl uc s = Inr s'"
  shows "attends s s'"
proof -
  have "queues 1 s s' \<and> active_proc s' = active_proc s"
    using assms by (auto simp: trap_tty_transmit_hdl_def Let_def queues_def ready_insert_eq split: if_splits option.splits)
  then show ?thesis using queues_wakes by (auto simp: attends_def)
qed

section \<open>Calls and resumed calls\<close>

lemma memory_queues:
  assumes run: "trap_memory_hdl uc s = Inr r"
  shows "queues 1 s (kres_state r)"
proof -
  from run obtain p where p: "deref_ptr (pcbs s) (active_proc s) = Inr p" by (auto simp: trap_memory_hdl_def)
  then obtain a where a: "active_proc s = Some a" "pcbs s a = Some p" by (cases "active_proc s") auto
  then have "sys_Exit uc 1 s = Inr r \<or> queues 1 s (kres_state r)"
    using run p by (auto simp: trap_memory_hdl_def Let_def set_pcb_def split: if_splits intro!: queues_own [OF a(1)])
  then show ?thesis using exit_queues by blast
qed

text \<open>The calls that always return at once.\<close>

lemma done_not_yield:
  "sys_Fork uc s \<noteq> Inr (Yield k s')" "sys_CvarBroadcast uc s \<noteq> Inr (Yield k s')" "sys_Reclaim uc s \<noteq> Inr (Yield k s')"
  by (auto simp: sys_Fork_def sys_CvarBroadcast_def sys_Reclaim_def Let_def
      split: if_splits option.splits prod.splits list.splits)

lemma call_queues:
  assumes inv: "kernel_inv s" and run: "trap_kernel_hdl fs uc s = Inr r"
  shows "queues 1 s (kres_state r) \<or> wakes s (kres_state r) \<and> (\<forall>k s'. r \<noteq> Yield k s')"
proof -
  have getpid: "res_bind (sys_Getpid s) (\<lambda>p. Inr (Done (Some p) s)) = Inr r \<Longrightarrow> queues 1 s (kres_state r)" for r
    by auto
  have rel: "res_bind (sys_Release i s) (\<lambda>(rc, s). Inr (Done (Some rc) s)) = Inr r \<Longrightarrow> queues 1 s (kres_state r)" for i r
    using release_queues by auto
  note gains = queues_more [OF _ gain_le]
  have "queues 1 s (kres_state r) \<or> sys_CvarBroadcast uc s = Inr r \<or> sys_Reclaim uc s = Inr r"
    using run unfolding trap_kernel_hdl_def Let_def
    by (elim if_branchE)
      (auto dest!: gains [OF wait_queues] gains [OF delay_queues] getpid gains [OF tty_read_queues] gains [OF tty_write_queues]
        gains [OF object_queues(1)] gains [OF object_queues(2)] gains [OF object_queues(3)] gains [OF object_queues(4)]
        gains [OF object_queues(5)] gains [OF pipe_read_queues] gains [OF acquire_queues] rel cvar_wait_queues
        gains [OF sem_queues(1)] gains [OF sem_queues(2)] gains [OF sem_queues(3)] exit_queues fork_queues [OF inv]
        queues_more [OF brk_queues, of _ _ _ 1] queues_more [OF exec_queues, of _ _ _ _ 1])
  then show ?thesis using broadcast_wakes reclaim_wakes done_not_yield by blast
qed

lemma resume_queues: "resume_k k uc s = Inr r \<Longrightarrow> queues (gain r) s (kres_state r)"
  by (cases k) (auto dest!: wait_resume_queues tty_read_resume_queues tty_loop_queues pipe_resume_queues
      acquire_resume_queues cvar_resume_queues)

section \<open>Switching\<close>

text \<open>
  After a switch the process switched in goes on with its saved context. The context saved for the
  old process is \<open>k\<close>, which must be a resting one if the old process is \<open>i\<close>.
\<close>

lemma switch_kernel_effect:
  assumes "switch_kernel_context k old (Some new) s = Inr (k', s')"
  shows "ready_queue s' = ready_queue s" and "active_proc s' = active_proc s" and "initial_kc s' = initial_kc s"
    and "pcbs s' = (case old of None \<Rightarrow> pcbs s | Some a \<Rightarrow> (pcbs s)(a := map_option (\<lambda>p. p\<lparr>kctxt := k\<rparr>) (pcbs s a)))"
    and "\<exists>q. pcbs s' new = Some q \<and> k' = kctxt q"
  using assms
  by (auto simp: switch_kernel_context_def save_stack_def restore_stack_def copy_frame_def set_pcb_def Let_def
      split: option.splits)

lemma context_switch_rested:
  assumes inv: "kernel_inv s" and kc: "initial_kc s = K_Start" and r: "old \<noteq> Some i \<longrightarrow> rested i s"
    and old: "old = Some i \<longrightarrow> rests k"
    and run: "context_switch uc old new k s = Inr (k', s')"
  shows "rested i s'" and "new = i \<longrightarrow> rests k'" and "ready_queue s' = ready_queue s" and "active_proc s' = Some new"
    and "initial_kc s' = K_Start"
proof -
  let ?s = "s\<lparr>active_proc := Some new\<rparr>"
  from run obtain s1 p s2 where s1: "(case old of None \<Rightarrow> Inr ?s | Some a \<Rightarrow>
      res_bind (deref (pcbs ?s) a) (\<lambda>_. Inr (set_pcb a (\<lambda>p. p\<lparr>uctxt := uc\<rparr>) ?s))) = Inr s1"
    and p: "pcbs s1 new = Some p"
    and s2: "(if pfn (k_stack_pt p ! 0) = 0 then init_proc_kernel new s1 else Inr s1) = Inr s2"
    and sw: "switch_kernel_context k old (Some new) s2 = Inr (k', s')"
    by (auto simp: context_switch_def Let_def)
  have q1: "quiet s s1" using s1 by (auto simp: quiet_def set_pcb_def option.map_comp o_def split: option.splits)
  have r1: "old \<noteq> Some i \<longrightarrow> rested i s1" using r s1 by (auto simp: rested_def set_pcb_def split: option.splits)
  have f1: "ready_queue s1 = ready_queue s" "active_proc s1 = Some new" "initial_kc s1 = K_Start"
    using s1 kc by (auto simp: set_pcb_def split: option.splits)
  have r2: "(old \<noteq> Some i \<longrightarrow> rested i s2) \<and> ready_queue s2 = ready_queue s \<and> active_proc s2 = Some new \<and>
      initial_kc s2 = K_Start \<and> (\<exists>q. pcbs s2 new = Some q \<and> (old \<noteq> Some new \<and> new = i \<longrightarrow> rests (kctxt q)))"
  proof (cases "pfn (k_stack_pt p ! 0) = 0")
    case True
    then have i: "init_proc_kernel new s1 = Inr s2" using s2 by simp
    have "length (k_stack_pt p) = 2" using quiet_inv [OF inv q1] p by (auto simp: kernel_inv_def sized_def)
    with i p obtain f0 f1 ff m where "s2 = s1\<lparr>free_frames := ff, pcbs := (pcbs s1)(new \<mapsto> p\<lparr>kctxt := initial_kc s1,
           k_stack_pt := [fresh_entry f0, fresh_entry f1]\<rparr>), pmem := m\<rparr>"
      by (rule init_proc_kernel_effect)
    then show ?thesis using r1 f1 by (auto simp: rested_def rests_def)
  next
    case False
    then show ?thesis using r1 f1 s2 p by (auto simp: rested_def)
  qed
  note e = switch_kernel_effect [OF sw]
  show "ready_queue s' = ready_queue s" "active_proc s' = Some new" "initial_kc s' = K_Start" using e(1-3) r2 by simp_all
  show rs: "rested i s'"
  proof (cases "old = Some i")
    case True
    with sw have "pcbs s2 i \<noteq> None" by (auto simp: switch_kernel_context_def)
    then show ?thesis using True old e(4) by (auto simp: rested_def)
  next
    case False
    then have "pcbs s' i = pcbs s2 i" using e(4) by (cases old) auto
    then show ?thesis using False r2 by (simp add: rested_def)
  qed
  show "new = i \<longrightarrow> rests k'"
  proof (cases "old = Some new")
    case True
    then show ?thesis using old e(4,5) by auto
  next
    case False
    then have "pcbs s' new = pcbs s2 new" using e(4) by (cases old) auto
    then show ?thesis using False r2 e(5) by auto
  qed
qed

lemma switch_keeps_idle:
  assumes inv: "kernel_inv s" and kc: "initial_kc s = K_Start" and r: "old \<noteq> Some i \<longrightarrow> rested i s"
    and old: "old = Some i \<longrightarrow> rests k"
    and iq: "i = new \<or> i \<in> set (ready_queue s)" and run: "context_switch uc old new k s = Inr (k', s')"
  shows "idle_at i k' s'" and "ready_queue s' = ready_queue s"
proof -
  note c = context_switch_rested [OF inv kc r old run]
  show "ready_queue s' = ready_queue s" by (rule c(3))
  show "idle_at i k' s'"
    using c iq context_switch_inv [OF inv run] by (cases "i = new") (auto simp: idle_at_def idle_ready_def)
qed

text \<open>
  Taking a process from the ready queue, with idle passed over once, is common to the two scheduling
  functions.
\<close>

lemma next_process:
  assumes inv: "kernel_inv s" and kc: "initial_kc s = K_Start" and Q: "ready_queue s = nxt # q"
  obtains t where "snd (ready_insert nxt (s\<lparr>ready_queue := q\<rparr>)) = t" and "kernel_inv t" and "initial_kc t = K_Start"
    and "active_proc t = active_proc s" and "ready_queue t = q @ [nxt]" and "pcbs t = pcbs s"
proof -
  let ?t = "snd (ready_insert nxt (s\<lparr>ready_queue := q\<rparr>))"
  have "kernel_inv ?t" using inv by (intro inv_ready_insert) simp
  moreover have "ready_queue ?t = q @ [nxt]" "initial_kc ?t = K_Start" "active_proc ?t = active_proc s" "pcbs ?t = pcbs s"
    using inv kc by (simp_all add: ready_insert_eq kernel_inv_def mem_ok_def)
  ultimately show thesis by (intro that [of ?t]) simp_all
qed

text \<open>One call of normal_schedule takes a process out of the ready queue.\<close>

lemma normal_schedule_shrinks:
  assumes id: "idle_ready i s" and run: "normal_schedule uc k s = Inr r"
  obtains k' s' where "r = Switched k' s'" and "length (ready_queue s') < length (ready_queue s)" and "idle_at i k' s'"
proof -
  from id have inv: "kernel_inv s" and kc: "initial_kc s = K_Start" and rs: "rested i s" and iq: "i \<in> set (ready_queue s)"
    and act: "active_proc s \<noteq> Some i" by (auto simp: idle_ready_def)
  from iq obtain nxt q where Q: "ready_queue s = nxt # q" by (cases "ready_queue s") auto
  from run Q obtain p where p: "pcbs s nxt = Some p" by (auto simp: normal_schedule_def Let_def)
  show ?thesis
  proof (cases "pid p = 1")
    case False
    let ?s = "s\<lparr>ready_queue := q\<rparr>"
    from run Q p False obtain k' s' where r: "r = Switched k' s'" "context_switch uc (active_proc s) nxt k ?s = Inr (k', s')"
      by (auto simp: normal_schedule_def Let_def)
    have "kernel_inv ?s" "initial_kc ?s = K_Start" "active_proc s \<noteq> Some i \<longrightarrow> rested i ?s" "active_proc s = Some i \<longrightarrow> rests k"
      "i = nxt \<or> i \<in> set (ready_queue ?s)"
      using inv kc rs act iq Q by (simp_all add: rested_def)
    from switch_keeps_idle [OF this r(2)] show ?thesis using that [OF r(1)] Q by simp
  next
    case True
    from iq Q have iq': "i \<in> set (nxt # q)" by simp
    from inv kc Q obtain t where t: "snd (ready_insert nxt (s\<lparr>ready_queue := q\<rparr>)) = t" "kernel_inv t"
      "initial_kc t = K_Start" "active_proc t = active_proc s" "ready_queue t = q @ [nxt]" "pcbs t = pcbs s"
      by (rule next_process)
    obtain n q' where q': "q @ [nxt] = n # q'" by (cases "q @ [nxt]") auto
    let ?t = "t\<lparr>ready_queue := q'\<rparr>"
    from run Q p True t(1,4,5) q' obtain k' s' where r: "r = Switched k' s'" "context_switch uc (active_proc s) n k ?t = Inr (k', s')"
      by (auto simp: normal_schedule_def Let_def split_beta)
    have "kernel_inv ?t" "initial_kc ?t = K_Start" "active_proc s \<noteq> Some i \<longrightarrow> rested i ?t" "active_proc s = Some i \<longrightarrow> rests k"
      using t rs act by (simp_all add: rested_def)
    moreover have "i = n \<or> i \<in> set (ready_queue ?t)" using iq' arg_cong [OF q', of set] by auto
    moreover have "length q' = length q" using arg_cong [OF q', of length] by simp
    ultimately show ?thesis using switch_keeps_idle [OF _ _ _ _ _ r(2), of i] that [OF r(1)] Q by simp
  qed
qed

section \<open>The run of kernel code ends\<close>

lemma switched_in_queues: "switched_in s = Inr (uc, s') \<Longrightarrow> queues 0 s s' \<and> active_proc s' = active_proc s"
  by (auto simp: switched_in_def queues_def)

lemma queues_safe: "wakes s s' \<Longrightarrow> idle_ready i s \<Longrightarrow> kernel_inv s' \<Longrightarrow> idle_safe i s'"
  using queues_ready by (fastforce simp: wakes_def idle_safe_def idle_ready_def)

text \<open>The process that was switched in resumes its call.\<close>

lemma resumed_idle:
  assumes id: "idle_at i k s" and sw: "switched_in s = Inr (uc, t)" and run: "resume_k k uc t = Inr r"
  shows "idle_kres i r" and "r = Yield k' u \<Longrightarrow> length (ready_queue u) \<le> length (ready_queue s)"
proof -
  have inv: "kernel_inv s" and kc: "initial_kc s = K_Start" using id by (simp_all add: idle_at_def)
  note sq = switched_in_queues [OF sw, THEN conjunct1] switched_in_queues [OF sw, THEN conjunct2]
  have invt: "kernel_inv t" using quiet_inv [OF inv switched_in_quiet [OF sw]] .
  note rq = resume_queues [OF run] and rinv = resume_inv [OF invt run]
  show "idle_kres i r"
  proof (cases "idle_ready i s")
    case True
    then have t: "idle_ready i t" using queues_ready [OF sq(1) _ invt] by blast
    show ?thesis using queues_ready [OF rq t rinv] queues_safe [OF queues_wakes [OF rq] t rinv] by (cases r) simp_all
  next
    case False
    then have "active_proc s = Some i" "rests k" using id by (auto simp: idle_at_def)
    then show ?thesis using run rested_resumes [of k uc t] invt sq kc by (auto simp: idle_safe_def queues_def)
  qed
  show "length (ready_queue u) \<le> length (ready_queue s)" if "r = Yield k' u"
    using queues_length [OF rq] queues_length [OF sq(1)] that by simp
qed

lemma run_idle:
  assumes "idle_kres i r"
  shows "(\<forall>k s. r = Yield k s \<longrightarrow> length (ready_queue s) \<le> fuel) \<Longrightarrow> run fuel uc r \<noteq> None"
    and "run fuel uc r = Some (Inr (uc', s')) \<Longrightarrow> idle_safe i s'"
proof -
  have "((\<forall>k s. r = Yield k s \<longrightarrow> length (ready_queue s) \<le> fuel) \<longrightarrow> run fuel uc r \<noteq> None) \<and>
      (run fuel uc r = Some (Inr (uc', s')) \<longrightarrow> idle_safe i s')"
    using assms
  proof (induction fuel uc r rule: run.induct)
    case (2 fuel uc s)
    have "idle_safe i t" if "switched_in s = Inr (u, t)" for u t
    proof -
      have "kernel_inv t" using quiet_inv [OF _ switched_in_quiet [OF that]] "2.prems" by (simp add: idle_safe_def)
      then show ?thesis using "2.prems" switched_in_queues [OF that] queues_ready [of 0 s t i]
        by (auto simp: idle_safe_def queues_def)
    qed
    then show ?case by auto
  next
    case (3 uc k s)
    then show ?case by (auto simp: idle_ready_def)
  next
    case (4 fuel uc k s)
    then have id: "idle_ready i s" by simp
    show ?case
    proof (cases "normal_schedule uc k s")
      case (Inr sr)
      with id obtain k' t where sr: "sr = Switched k' t" "length (ready_queue t) < length (ready_queue s)" "idle_at i k' t"
        by (rule normal_schedule_shrinks)
      show ?thesis
      proof (cases "switched_in t")
        case sw: (Inr x)
        obtain uc1 t1 where x: "x = (uc1, t1)" by (cases x)
        show ?thesis
        proof (cases "resume_k k' uc1 t1")
          case rk: (Inr y)
          note res = resumed_idle [OF sr(3) sw [unfolded x] rk]
          have fuel: "length (ready_queue s) \<le> Suc fuel \<Longrightarrow> \<forall>k u. y = Yield k u \<longrightarrow> length (ready_queue u) \<le> fuel"
            using res(2) sr(2) by fastforce
          have e: "run (Suc fuel) uc (Yield k s) = run fuel uc1 y" using Inr sr(1) sw x rk by simp
          show ?thesis using "4.IH"(2) [OF Inr sr(1) sw x [symmetric] rk res(1)] fuel unfolding e by blast
        qed (use Inr sr sw x in simp)
      qed (use Inr sr in simp)
    qed simp
  qed auto
  then show "(\<forall>k s. r = Yield k s \<longrightarrow> length (ready_queue s) \<le> fuel) \<Longrightarrow> run fuel uc r \<noteq> None"
    and "run fuel uc r = Some (Inr (uc', s')) \<Longrightarrow> idle_safe i s'" by blast+
qed

section \<open>The clock\<close>

lemma update_sleep_queues: "update_sleep l i s = Inr (rc, s') \<Longrightarrow> queues (length l) s s' \<and> active_proc s' = active_proc s"
proof (induction l arbitrary: i s)
  case (Cons a rest)
  from Cons.prems obtain si where si: "sleeps s a = Some si" by auto
  let ?t = "s\<lparr>sleeps := (sleeps s)(a \<mapsto> si\<lparr>ticks_left := ticks_left si - 1\<rparr>)\<rparr>"
  let ?v = "snd (ready_insert (sleep_pcb si) (set_pcb (sleep_pcb si) (\<lambda>p. p\<lparr>state := READY\<rparr>) ?t))"
  have v: "queues 1 s ?v" "active_proc ?v = active_proc s" by (auto simp: queue_code)
  show ?case
  proof (cases "ticks_left si - 1 \<le> 0")
    case False
    have r: "update_sleep rest (i + 1) ?t = Inr (rc, s')" using Cons.prems si False by (simp add: Let_def)
    from Cons.IH [OF r] show ?thesis by (auto simp: queues_def)
  next
    case True
    then consider "s' = ?v" | l where "update_sleep rest i (?v\<lparr>sleep_list := l, sleeps := (sleeps ?v)(a := None),
        ub_log := ub_log ?v @ [ReadFreedNode]\<rparr>) = Inr (rc, s')"
      using Cons.prems si by (auto simp: Let_def split_beta split: option.splits prod.splits)
    then show ?thesis
    proof cases
      case 1
      then show ?thesis using queues_more [OF v(1)] v(2) by simp
    next
      case 2
      let ?w = "?v\<lparr>sleep_list := l, sleeps := (sleeps ?v)(a := None), ub_log := ub_log ?v @ [ReadFreedNode]\<rparr>"
      have "queues 1 s ?w" "active_proc ?w = active_proc s" using v by (simp_all add: queues_def)
      with Cons.IH [OF 2] queues_trans [of 1 s ?w "length rest" s'] show ?thesis by simp
    qed
  qed
qed simp

text \<open>The clock may also find idle running: it is put into the ready queue like every other process.\<close>

lemma do_scheduler_idle:
  assumes inv: "kernel_inv s" and kc: "initial_kc s = K_Start" and id: "active_proc s = Some i \<or> idle_ready i s"
    and run: "do_scheduler uc s = Inr (Switched k' s')"
  shows "idle_at i k' s'" and "length (ready_queue s') \<le> length (ready_queue s)"
proof -
  have ne: "ready_queue s \<noteq> []" using run by (auto simp: do_scheduler_def)
  then obtain old where old: "active_proc s = Some old"
    using run by (cases "active_proc s") (auto simp: do_scheduler_def)
  from ne obtain nxt q0 where q0: "ready_queue s = nxt # q0" by (cases "ready_queue s") auto
  let ?s1 = "snd (ready_insert old s)" and ?q = "q0 @ [old]"
  have inv1: "kernel_inv ?s1" by (rule inv_ready_insert [OF inv])
  have f1: "ready_queue ?s1 = nxt # ?q" "initial_kc ?s1 = K_Start" "active_proc ?s1 = active_proc s" "pcbs ?s1 = pcbs s"
    using inv kc q0 by (simp_all add: ready_insert_eq kernel_inv_def mem_ok_def)
  have iq: "i \<in> set (nxt # ?q)" and rs: "Some old \<noteq> Some i \<longrightarrow> rested i s"
    using id old q0 by (auto simp: idle_ready_def)
  have ks: "Some old = Some i \<longrightarrow> rests K_Sched" by (simp add: rests_def)
  from run ne old f1 obtain p where p: "pcbs s nxt = Some p" by (auto simp: do_scheduler_def Let_def split_beta)
  have "idle_at i k' s' \<and> length (ready_queue s') \<le> length (ready_queue s)"
  proof (cases "pid p = 1")
    case False
    let ?t = "?s1\<lparr>ready_queue := ?q\<rparr>"
    have r: "context_switch uc (Some old) nxt K_Sched ?t = Inr (k', s')"
      using run ne old f1 p False by (auto simp: do_scheduler_def Let_def split_beta)
    have "kernel_inv ?t" "initial_kc ?t = K_Start" "Some old \<noteq> Some i \<longrightarrow> rested i ?t" "i = nxt \<or> i \<in> set (ready_queue ?t)"
      using inv1 f1 rs iq by (auto simp: rested_def)
    from switch_keeps_idle [OF this(1-3) ks this(4) r] show ?thesis using q0 by simp
  next
    case True
    from inv1 f1(2,1) obtain t where t: "snd (ready_insert nxt (?s1\<lparr>ready_queue := ?q\<rparr>)) = t" "kernel_inv t"
      "initial_kc t = K_Start" "active_proc t = active_proc ?s1" "ready_queue t = ?q @ [nxt]" "pcbs t = pcbs ?s1"
      by (rule next_process)
    obtain n q' where q': "?q @ [nxt] = n # q'" by (cases "?q @ [nxt]") auto
    let ?t = "t\<lparr>ready_queue := q'\<rparr>"
    have r: "context_switch uc (Some old) n K_Sched ?t = Inr (k', s')"
      using run ne old f1 p True t(1,5) q' by (auto simp: do_scheduler_def Let_def split_beta)
    have len: "length q' = Suc (length q0)" using arg_cong [OF q', of length] by simp
    have "kernel_inv ?t" "initial_kc ?t = K_Start" "Some old \<noteq> Some i \<longrightarrow> rested i ?t"
      using t f1 rs by (simp_all add: rested_def)
    moreover have "i = n \<or> i \<in> set (ready_queue ?t)" using iq arg_cong [OF q', of set] by auto
    ultimately show ?thesis using switch_keeps_idle [OF _ _ _ ks _ r] len q0 by simp
  qed
  then show "idle_at i k' s'" "length (ready_queue s') \<le> length (ready_queue s)" by simp_all
qed

lemma sleep_idle:
  assumes id: "idle_safe i s" and run: "update_sleep_list s = Inr (rc, t)"
  shows "idle_safe i t" and "length (ready_queue t) \<le> length (ready_queue s) + length (sleep_list s)"
proof -
  have u: "update_sleep (sleep_list s) 1 s = Inr (rc, t)" using run by (simp add: update_sleep_list_def)
  have q: "queues (length (sleep_list s)) s t" "active_proc t = active_proc s" using update_sleep_queues [OF u] by simp_all
  have "kernel_inv t" using update_sleep_quiet [OF u] id quiet_inv by (auto simp: idle_safe_def)
  then show "idle_safe i t" using id q queues_ready [OF q(1)] by (auto simp: idle_safe_def queues_def)
  show "length (ready_queue t) \<le> length (ready_queue s) + length (sleep_list s)" using queues_length [OF q(1)] .
qed

text \<open>The clock handler does nothing else when it does not switch.\<close>

lemma do_scheduler_stays:
  assumes "idle_safe i s" and "do_scheduler uc s = Inr sr"
  shows "sr = NoSwitch s \<or> (\<exists>k s'. sr = Switched k s')"
proof -
  have ok: "mem_ok s" using assms(1) by (simp add: idle_safe_def kernel_inv_def)
  have hd: "klist_remove (ys @ [x, y]) 1 = (Some (hd (ys @ [x, y])), tl (ys @ [x, y]))" for ys :: "addr list" and x y
    by (cases ys) simp_all
  show ?thesis using assms(2) ok
    by (auto simp: do_scheduler_def ready_insert_eq mem_ok_def Let_def neq_Nil_conv hd split: option.splits if_splits)
qed

lemma clock_idle:
  assumes id: "idle_safe i s"
  shows "length (ready_queue s) + length (sleep_list s) \<le> fuel \<Longrightarrow> run_sched fuel uc (trap_clock_hdl uc s) \<noteq> None"
    and "run_sched fuel uc (trap_clock_hdl uc s) = Some (Inr (uc', s')) \<Longrightarrow> idle_safe i s'"
proof -
  have "(length (ready_queue s) + length (sleep_list s) \<le> fuel \<longrightarrow> run_sched fuel uc (trap_clock_hdl uc s) \<noteq> None) \<and>
      (run_sched fuel uc (trap_clock_hdl uc s) = Some (Inr (uc', s')) \<longrightarrow> idle_safe i s')"
  proof (cases "trap_clock_hdl uc s")
    case (Inr sr)
    then obtain rc t where u: "update_sleep_list s = Inr (rc, t)" and d: "do_scheduler uc t = Inr sr"
      by (auto simp: trap_clock_hdl_def)
    note t = sleep_idle [OF id u]
    have idt: "kernel_inv t" "initial_kc t = K_Start" "active_proc t = Some i \<or> idle_ready i t"
      using t(1) by (simp_all add: idle_safe_def)
    from do_scheduler_stays [OF t(1) d] show ?thesis
    proof (elim disjE exE)
      fix k v assume sr: "sr = Switched k v"
      note nx = do_scheduler_idle [OF idt d [unfolded sr]]
      show ?thesis
      proof (cases "switched_in v")
        case sw: (Inr x)
        obtain uc1 w where x: "x = (uc1, w)" by (cases x)
        have e: "run_sched fuel uc (trap_clock_hdl uc s) = run_res fuel uc1 (resume_k k uc1 w)"
          using Inr sr sw x by (simp add: run_sched_def)
        show ?thesis
        proof (cases "resume_k k uc1 w")
          case rk: (Inr y)
          note res = resumed_idle [OF nx(1) sw [unfolded x] rk]
          have "\<forall>k u. y = Yield k u \<longrightarrow> length (ready_queue u) \<le> fuel"
            if "length (ready_queue s) + length (sleep_list s) \<le> fuel"
            using res(2) nx(2) t(2) that by fastforce
          then show ?thesis unfolding e using run_idle [OF res(1)] rk by (auto simp: run_res_def)
        qed (simp add: e run_res_def)
      qed (use Inr sr in \<open>simp add: run_sched_def\<close>)
    qed (use Inr t(1) in \<open>auto simp: run_sched_def\<close>)
  qed (simp add: run_sched_def)
  then show "length (ready_queue s) + length (sleep_list s) \<le> fuel \<Longrightarrow> run_sched fuel uc (trap_clock_hdl uc s) \<noteq> None"
    and "run_sched fuel uc (trap_clock_hdl uc s) = Some (Inr (uc', s')) \<Longrightarrow> idle_safe i s'" by blast+
qed

section \<open>Whole traps\<close>

text \<open>A handler of a trap from a process other than idle.\<close>

lemma handler_kres:
  assumes id: "idle_ready i s" and inv: "\<And>r. h = Inr r \<Longrightarrow> kernel_inv (kres_state r)"
    and q: "\<And>r. h = Inr r \<Longrightarrow> queues 1 s (kres_state r) \<or> wakes s (kres_state r) \<and> (\<forall>k s'. r \<noteq> Yield k s')"
    and h: "h = Inr r"
  shows "idle_kres i r"
  using q [OF h] queues_ready [of 1 s "kres_state r" i] queues_safe [of s "kres_state r" i] inv [OF h] id
    queues_wakes [of 1 s "kres_state r"]
  by (cases r) auto

lemma handler_idle:
  assumes id: "idle_ready i s" and inv: "\<And>r. h = Inr r \<Longrightarrow> kernel_inv (kres_state r)"
    and q: "\<And>r. h = Inr r \<Longrightarrow> queues 1 s (kres_state r) \<or> wakes s (kres_state r) \<and> (\<forall>k s'. r \<noteq> Yield k s')"
  shows "length (ready_queue s) + 1 \<le> fuel \<Longrightarrow> run_res fuel uc h \<noteq> None"
    and "run_res fuel uc h = Some (Inr (uc', s')) \<Longrightarrow> idle_safe i s'"
proof -
  have k: "idle_kres i r" if h: "h = Inr r" for r
    using handler_kres [OF id inv q h] .
  have f: "length (ready_queue t) \<le> length (ready_queue s) + 1" if h: "h = Inr (Yield k t)" for k t
    using q [OF h] queues_length [of 1 s t] by auto
  show "length (ready_queue s) + 1 \<le> fuel \<Longrightarrow> run_res fuel uc h \<noteq> None"
  proof (cases h)
    case (Inr r)
    then have "\<forall>k t. r = Yield k t \<longrightarrow> length (ready_queue t) \<le> fuel" if "length (ready_queue s) + 1 \<le> fuel"
      using f that le_trans by blast
    then show "length (ready_queue s) + 1 \<le> fuel \<Longrightarrow> run_res fuel uc h \<noteq> None"
      using run_idle(1) [OF k [OF Inr]] Inr by (simp add: run_res_def)
  qed (simp add: run_res_def)
  show "run_res fuel uc h = Some (Inr (uc', s')) \<Longrightarrow> idle_safe i s'"
    using run_idle(2) [OF k] by (cases h) (auto simp: run_res_def)
qed

text \<open>The interrupts, which come from devices and may find idle running.\<close>

definition interrupt :: "user_context \<Rightarrow> bool" where
  "interrupt uc \<longleftrightarrow> uc_vector uc \<in> {TRAP_CLOCK, TRAP_TTY_RECEIVE, TRAP_TTY_TRANSMIT, TRAP_DISK}"

lemma attends_safe: "attends s s' \<Longrightarrow> idle_safe i s \<Longrightarrow> kernel_inv s' \<Longrightarrow> idle_safe i s'"
  using queues_ready [of _ s s' i] by (auto simp: attends_def wakes_def idle_safe_def queues_def)

lemma int_vector_cases:
  obtains "\<not> interrupt uc" and "int_vector fs fuel line uc s = run_res fuel uc (trap_kernel_hdl fs uc s)"
  | "\<not> interrupt uc" and "int_vector fs fuel line uc s = run_res fuel uc (trap_memory_hdl uc s)"
  | "\<not> interrupt uc" and "int_vector fs fuel line uc s = run_res fuel uc (sys_Exit uc 1 s)"
  | "int_vector fs fuel line uc s = run_sched fuel uc (trap_clock_hdl uc s)"
  | "uc_vector uc = TRAP_TTY_RECEIVE" and
    "int_vector fs fuel line uc s = map_option (\<lambda>r. res_bind r (\<lambda>s. Inr (uc, s))) (trap_tty_receive_hdl fuel line uc s)"
  | "int_vector fs fuel line uc s = Some (res_bind (trap_tty_transmit_hdl uc s) (\<lambda>s. Inr (uc, s)))"
  | "int_vector fs fuel line uc s = run_res fuel uc (trap_disk_hdl uc s)"
  | "int_vector fs fuel line uc s = Some (Inl OutOfBounds)"
proof -
  let ?v = "uc_vector uc"
  note defs = int_vector_def Let_def trap_illegal_hdl_def trap_math_hdl_def trap_undefined_hdl_def interrupt_def
  consider "?v = TRAP_KERNEL" | "?v = TRAP_CLOCK" | "?v = TRAP_ILLEGAL" | "?v = TRAP_MEMORY" | "?v = TRAP_MATH" |
    "?v = TRAP_TTY_RECEIVE" | "?v = TRAP_TTY_TRANSMIT" | "?v = TRAP_DISK" | "TRAP_DISK < ?v" "?v < TRAP_VECTOR_SIZE" |
    "?v < 0" | "TRAP_VECTOR_SIZE \<le> ?v"
    by simp linarith
  then show thesis
  proof cases
    case 1 then show ?thesis by (intro that(1)) (simp_all add: defs)
  next
    case 2 then show ?thesis by (intro that(4)) (simp add: defs)
  next
    case 3 then show ?thesis by (intro that(3)) (simp_all add: defs)
  next
    case 4 then show ?thesis by (intro that(2)) (simp_all add: defs)
  next
    case 5 then show ?thesis by (intro that(3)) (simp_all add: defs)
  next
    case 6 then show ?thesis by (intro that(5)) (simp_all add: defs)
  next
    case 7 then show ?thesis by (intro that(6)) (simp add: defs)
  next
    case 8 then show ?thesis by (intro that(7)) (simp add: defs)
  next
    case 9 then show ?thesis by (intro that(3)) (simp_all add: defs)
  qed (intro that(8), simp add: defs)+
qed

lemma trap_idle:
  assumes id: "idle_safe i s" and intr: "active_proc s = Some i \<longrightarrow> interrupt uc"
  shows "uc_vector uc \<noteq> TRAP_TTY_RECEIVE \<Longrightarrow> length (ready_queue s) + length (sleep_list s) + 1 \<le> fuel \<Longrightarrow>
      int_vector fs fuel line uc s \<noteq> None"
    and "int_vector fs fuel line uc s = Some (Inr (uc', s')) \<Longrightarrow> idle_safe i s'"
proof -
  let ?bound = "length (ready_queue s) + length (sleep_list s) + 1 \<le> fuel"
  have inv: "kernel_inv s" using id by (simp add: idle_safe_def)
  have ready: "idle_ready i s" if "\<not> interrupt uc" using id intr that by (auto simp: idle_safe_def)
  let ?ok = "\<lambda>h. (?bound \<longrightarrow> run_res fuel uc h \<noteq> None) \<and> (run_res fuel uc h = Some (Inr (uc', s')) \<longrightarrow> idle_safe i s')"
  have kernel: "?ok (trap_kernel_hdl fs uc s)" if "\<not> interrupt uc"
    using handler_idle [OF ready [OF that] kernel_call_inv [OF inv] call_queues [OF inv]] by simp
  have memory: "?ok (trap_memory_hdl uc s)" if "\<not> interrupt uc"
    using handler_idle [OF ready [OF that] memory_inv [OF inv] disjI1 [OF memory_queues]] by simp
  have exit: "?ok (sys_Exit uc 1 s)" if "\<not> interrupt uc"
    using handler_idle [OF ready [OF that] exit_inv [OF inv] disjI1 [OF exit_queues]] by simp
  have disk: "run_res fuel uc (trap_disk_hdl uc s) = Some (Inr (uc, s))" by (simp add: run_res_def trap_disk_hdl_def)
  have rx: "idle_safe i s'"
    if "map_option (\<lambda>r. res_bind r (\<lambda>s. Inr (uc, s))) (trap_tty_receive_hdl fuel line uc s) = Some (Inr (uc', s'))"
  proof -
    from that have r: "trap_tty_receive_hdl fuel line uc s = Some (Inr s')" by auto
    show ?thesis using attends_safe [OF tty_receive_attends [OF r] id] quiet_inv [OF inv tty_receive_quiet [OF r]] .
  qed
  have tx: "idle_safe i s'" if "res_bind (trap_tty_transmit_hdl uc s) (\<lambda>s. Inr (uc, s)) = Inr (uc', s')"
  proof -
    from that have r: "trap_tty_transmit_hdl uc s = Inr s'" by auto
    show ?thesis using attends_safe [OF tty_transmit_attends [OF r] id] quiet_inv [OF inv tty_transmit_quiet [OF r]] .
  qed
  let ?iv = "int_vector fs fuel line uc s"
  consider (call) "\<not> interrupt uc" "?iv = run_res fuel uc (trap_kernel_hdl fs uc s)"
    | (mem) "\<not> interrupt uc" "?iv = run_res fuel uc (trap_memory_hdl uc s)"
    | (kill) "\<not> interrupt uc" "?iv = run_res fuel uc (sys_Exit uc 1 s)"
    | (clock) "?iv = run_sched fuel uc (trap_clock_hdl uc s)"
    | (rx) "uc_vector uc = TRAP_TTY_RECEIVE"
        "?iv = map_option (\<lambda>r. res_bind r (\<lambda>s. Inr (uc, s))) (trap_tty_receive_hdl fuel line uc s)"
    | (tx) "?iv = Some (res_bind (trap_tty_transmit_hdl uc s) (\<lambda>s. Inr (uc, s)))"
    | (disk) "?iv = run_res fuel uc (trap_disk_hdl uc s)"
    | (bad) "?iv = Some (Inl OutOfBounds)"
    by (rule int_vector_cases) blast+
  note cases_iv = this
  show "?iv \<noteq> None" if "uc_vector uc \<noteq> TRAP_TTY_RECEIVE" ?bound
    by (rule cases_iv) (use that kernel memory exit clock_idle(1) [OF id] disk in auto)
  show "idle_safe i s'" if "?iv = Some (Inr (uc', s'))"
  proof (rule cases_iv)
    show "?iv = run_sched fuel uc (trap_clock_hdl uc s) \<Longrightarrow> idle_safe i s'" by (rule clock_idle(2) [OF id, of fuel uc uc']) (use that in simp)
  qed (use that kernel memory exit rx tx disk id in simp_all)
qed

end
