(* ===== verification/Termination_Properties.thy ===== *)
theory Termination_Properties
  imports Trap_Termination Boot_Properties
begin

text \<open>
  After boot the kernel always finds a process to run and every trap comes back to user mode, as
  long as idle does what idle.c does: it never enters the kernel by itself.
\<close>

section \<open>Runs in which idle only waits for interrupts\<close>

text \<open>
  The steps of \<open>reachable\<close>, with \<open>i\<close> the process that KernelStart made idle: while it runs only
  interrupts enter the kernel.
\<close>

inductive idle_runs ::
    "(byte list \<Rightarrow> program option) \<Rightarrow> byte list list \<Rightarrow> u32 \<Rightarrow> user_context \<Rightarrow> kstate \<Rightarrow> addr \<Rightarrow> kstate \<Rightarrow> bool"
  for fs argl n uc s i where
  boot: "KernelStart fs argl n uc s = Inr (uc', t) \<Longrightarrow> p_idle t = Some i \<Longrightarrow> idle_runs fs argl n uc s i t"
| user: "idle_runs fs argl n uc s i t \<Longrightarrow> idle_runs fs argl n uc s i (t\<lparr>pmem := m\<rparr>)"
| kernel_brk: "idle_runs fs argl n uc s i t \<Longrightarrow> SetKernelBrk a t = Inr (rc, u) \<Longrightarrow> idle_runs fs argl n uc s i u"
| trap: "idle_runs fs argl n uc s i t \<Longrightarrow> (active_proc t = Some i \<longrightarrow> interrupt uc1) \<Longrightarrow>
    int_vector fs fuel line uc1 t = Some (Inr (uc2, u)) \<Longrightarrow> idle_runs fs argl n uc s i u"

lemma idle_runs_reachable: "idle_runs fs argl n uc s i t \<Longrightarrow> reachable fs argl n uc s t"
  by (induction rule: idle_runs.induct) (auto intro: reachable.intros)

lemma kernel_brk_queues: "SetKernelBrk a s = Inr (rc, s') \<Longrightarrow> queues 0 s s' \<and> active_proc s' = active_proc s"
  by (auto simp: SetKernelBrk_def queues_def Let_def split: if_splits)

lemma user_safe:
  assumes "idle_safe i t"
  shows "idle_safe i (t\<lparr>pmem := m\<rparr>)"
proof -
  have "quiet t (t\<lparr>pmem := m\<rparr>)" by (simp add: quiet_def)
  then have "kernel_inv (t\<lparr>pmem := m\<rparr>)" using assms quiet_inv unfolding idle_safe_def by blast
  moreover have "attends t (t\<lparr>pmem := m\<rparr>)" unfolding attends_def by (simp add: queues_wakes [of 0])
  ultimately show ?thesis using attends_safe assms by blast
qed

lemma kernel_brk_safe:
  assumes id: "idle_safe i t" and run: "SetKernelBrk a t = Inr (rc, u)"
  shows "idle_safe i u"
proof -
  have "kernel_inv u" using kernel_brk_inv [OF _ run] id unfolding idle_safe_def by blast
  moreover have "attends t u" using kernel_brk_queues [OF run] queues_wakes unfolding attends_def by blast
  ultimately show ?thesis using attends_safe id by blast
qed

lemma idle_runs_safe:
  assumes "idle_runs fs argl n uc s i t" and on: "switched_on s" "130 \<le> uint n div 8192"
  shows "idle_safe i t"
  using assms(1)
proof (induction rule: idle_runs.induct)
  case (boot uc' t)
  from on boot(1) obtain a p b q where st: "kernel_inv t" "active_proc t = Some a" "pcbs t = [a \<mapsto> p, b \<mapsto> q]" "a \<noteq> b"
    "pid p = 0" "pid q = 1" "ready_queue t = [b]" "uc' = uctxt p" "next_pid t = 2" "initial_kc t = K_Start"
    "state p = RUNNING" "state q = READY" "p_idle t = Some b" "pfn (k_stack_pt q ! 0) = 0"
    by (rule boot_state)
  then show ?case using boot(2) by (auto simp: idle_safe_def idle_ready_def rested_def)
qed (auto intro: user_safe kernel_brk_safe trap_idle(2))

section \<open>Every trap returns\<close>

text \<open>
  The receive handler looks at the first process of io_list only; it comes to an end when that one
  waits for the terminal the input is from, or when nobody waits. \<open>tty_receive_hangs\<close> shows that it
  does not otherwise.
\<close>

definition receive_ends :: "user_context \<Rightarrow> kstate \<Rightarrow> bool" where
  "receive_ends uc s \<longleftrightarrow>
     (case io_list s of
        [] \<Rightarrow> True
      | a # _ \<Rightarrow> (case pcbs s a of None \<Rightarrow> True | Some p \<Rightarrow> state p = BLOCKED_R \<and> tty_id p = uc_code uc))"

lemma receive_returns:
  assumes "receive_ends uc s" and "0 < fuel"
  shows "trap_tty_receive_hdl fuel line uc s \<noteq> None"
proof -
  obtain f where f: "fuel = Suc f" using assms(2) by (cases fuel) auto
  have "receive_scan (Suc f) (uc_code uc) (klist_index (io_list s) 1) u \<noteq> None" if "pcbs u = pcbs s" for u
    using assms(1) that
    by (cases "io_list s") (auto simp: receive_ends_def klist_index_def in_range_def deref_def split: option.splits)
  then show ?thesis unfolding trap_tty_receive_hdl_def Let_def f by simp
qed

text \<open>
C3: every trap returns, as long as malloc does not fail. In every state that a run without a kernel
fault reaches after boot, while idle only takes interrupts and malloc never fails, each trap comes back
to user mode or ends in a fault of the C program: one trap calls normal_schedule at most as often as
there are entries in the ready queue and the sleep list, plus one, because a process that blocks leaves
the queue and idle, which never blocks, is in it. A receive interrupt is included only when the first
process of io_list, if any, waits for that terminal; otherwise its handler loops
(\<open>tty_receive_hangs\<close>). Without memory the statement fails: the clock handler loses a process,
idle included, when it cannot allocate its node (\<open>preempted_without_memory\<close>), and a loop of
Acquire with an empty ready queue then never ends.
\<close>

theorem kernel_always_returns:
  assumes "powered_on s0" and "malloc_fails s0 = (\<lambda>_. False)" and "130 \<le> uint n div 8192" and "idle_runs fs argl n uc s0 i s"
    and "active_proc s = Some i \<longrightarrow> interrupt uc1" and "uc_vector uc1 = TRAP_TTY_RECEIVE \<longrightarrow> receive_ends uc1 s"
    and "length (ready_queue s) + length (sleep_list s) + 1 \<le> fuel"
  shows "int_vector fs fuel line uc1 s \<noteq> None"
proof (cases "uc_vector uc1 = TRAP_TTY_RECEIVE")
  case True
  then have "trap_tty_receive_hdl fuel line uc1 s \<noteq> None" using receive_returns assms(6,7) by simp
  then show ?thesis using True by (simp add: int_vector_def)
next
  case False
  then show ?thesis using trap_idle(1) [OF idle_runs_safe [OF assms(4) switched_onI [OF assms(1,2)] assms(3)] assms(5) _ assms(7)] by blast
qed

text \<open>
The processor is never without a process. In every state that a run without a kernel fault reaches
after boot while idle only takes interrupts and malloc never fails, either idle runs or it is in the ready queue, so a process that blocks
always finds another one to switch to; and an idle process that waits in the queue was last switched
out by the clock or has not run yet, so that it goes straight on in user mode.
\<close>

theorem idle_always_ready:
  assumes "powered_on s0" and "malloc_fails s0 = (\<lambda>_. False)" and "130 \<le> uint n div 8192"
    and "idle_runs fs argl n uc s0 i s"
  shows "active_proc s = Some i \<or> i \<in> set (ready_queue s) \<and>
     (\<exists>p. pcbs s i = Some p \<and> (pfn (k_stack_pt p ! 0) = 0 \<or> kctxt p = K_Start \<or> kctxt p = K_Sched))"
  using idle_runs_safe [OF assms(4) switched_onI [OF assms(1,2)] assms(3)] by (auto simp: idle_safe_def idle_ready_def rested_def rests_def)

section \<open>A run\<close>

lemma cold_idle_runs:
  obtains s i where "idle_runs (\<lambda>_. None) [[0x69]] 0x400000 sample_uc cold i s" and "active_proc s \<noteq> Some i"
    and "ready_queue s = [i]"
proof -
  obtain uc' s a p ff where b: "KernelStart (\<lambda>_. None) [[0x69]] 0x400000 sample_uc cold = Inr (uc', s)"
    and "active_proc s = Some a" and "pcbs s a = Some p" and "u_page_table p = replicate 128 null_pte"
    and "next_heap_pn p = 4" and "free_frames s = 507 # ff"
    by (rule cold_boot_state)
  have "130 \<le> uint (0x400000 :: u32) div 8192" by simp
  from cold_on this b obtain a p i q where st: "kernel_inv s" "active_proc s = Some a" "pcbs s = [a \<mapsto> p, i \<mapsto> q]" "a \<noteq> i"
    "pid p = 0" "pid q = 1" "ready_queue s = [i]" "uc' = uctxt p" "next_pid s = 2" "initial_kc s = K_Start"
    "state p = RUNNING" "state q = READY" "p_idle s = Some i" "pfn (k_stack_pt q ! 0) = 0"
    by (rule boot_state)
  show thesis by (rule that [OF idle_runs.boot [OF b st(13)]]) (use st in auto)
qed

theorem kernel_always_returns_witness:
  "\<exists>s i. idle_runs (\<lambda>_. None) [[0x69]] 0x400000 sample_uc cold i s \<and> ready_queue s = [i] \<and>
     int_vector (\<lambda>_. None) (2 + length (sleep_list s)) [] ((args 5 0 0)\<lparr>uc_code := uint YALNIX_DELAY\<rparr>) s \<noteq> None"
proof -
  obtain s i where r: "idle_runs (\<lambda>_. None) [[0x69]] 0x400000 sample_uc cold i s" "active_proc s \<noteq> Some i"
    "ready_queue s = [i]"
    by (rule cold_idle_runs)
  have n: "130 \<le> uint (0x400000 :: u32) div 8192" by simp
  have v: "uc_vector ((args 5 0 0)\<lparr>uc_code := uint YALNIX_DELAY\<rparr>) = 0" by (simp add: args_def sample_uc_def)
  have "int_vector (\<lambda>_. None) (2 + length (sleep_list s)) [] ((args 5 0 0)\<lparr>uc_code := uint YALNIX_DELAY\<rparr>) s \<noteq> None"
    by (rule kernel_always_returns [OF cold_powered n r(1)]) (use r v in simp_all)
  then show ?thesis using r by blast
qed

theorem idle_always_ready_witness:
  "\<exists>s i. idle_runs (\<lambda>_. None) [[0x69]] 0x400000 sample_uc cold i s \<and> active_proc s \<noteq> Some i \<and> i \<in> set (ready_queue s)"
proof -
  obtain s i where r: "idle_runs (\<lambda>_. None) [[0x69]] 0x400000 sample_uc cold i s" "active_proc s \<noteq> Some i"
    "ready_queue s = [i]"
    by (rule cold_idle_runs)
  have n: "130 \<le> uint (0x400000 :: u32) div 8192" by simp
  show ?thesis using idle_always_ready [OF cold_powered n r(1)] r by blast
qed

end
