(* ===== verification/Memory_Protection.thy ===== *)
theory Memory_Protection
  imports Trap_Isolation Memory_View
begin

text \<open>
  Which frames the kernel writes on behalf of a process: those the process maps, those taken from
  the free list and, in Exec, those of the kernel stack.
\<close>

section \<open>The running process\<close>

text \<open>The frames of the running process.\<close>

definition own :: "kstate \<Rightarrow> nat set" where
  "own s = {f. \<exists>a p. active_proc s = Some a \<and> pcbs s a = Some p \<and> f \<in> table_frames (u_page_table p)}"

lemma own_eq: "active_proc s = Some a \<Longrightarrow> pcbs s a = Some p \<Longrightarrow> own s = table_frames (u_page_table p)"
  by (simp add: own_def)

lemma own_upd [simp]:
  "own (s\<lparr>malloc_cnt := x1\<rparr>) = own s" "own (s\<lparr>pipes := x2\<rparr>) = own s" "own (s\<lparr>locks := x3\<rparr>) = own s"
  "own (s\<lparr>cvars := x4\<rparr>) = own s" "own (s\<lparr>pmem := x5\<rparr>) = own s"
  by (simp_all add: own_def)

lemma own_set_pcb [simp]: "(\<And>p. u_page_table (f p) = u_page_table p) \<Longrightarrow> own (set_pcb a f s) = own s"
  by (auto simp: own_def set_pcb_def)

lemma confined_upd [simp]:
  "confined W (s\<lparr>malloc_cnt := x1\<rparr>) t = confined W s t" "confined W (s\<lparr>pipes := x2\<rparr>) t = confined W s t"
  "confined W (s\<lparr>locks := x3\<rparr>) t = confined W s t" "confined W (s\<lparr>cvars := x4\<rparr>) t = confined W s t"
  "confined W (set_pcb a f s) t = confined W s t"
  "confined W s (t\<lparr>malloc_cnt := x1\<rparr>) = confined W s t" "confined W s (t\<lparr>pipes := x2\<rparr>) = confined W s t"
  "confined W s (t\<lparr>locks := x3\<rparr>) = confined W s t" "confined W s (t\<lparr>cvars := x4\<rparr>) = confined W s t"
  "confined W s (t\<lparr>deads := x6\<rparr>) = confined W s t" "confined W s (t\<lparr>dead_list := x7\<rparr>) = confined W s t"
  "confined W s (t\<lparr>pipe_list := x8\<rparr>) = confined W s t" "confined W s (t\<lparr>lock_list := x9\<rparr>) = confined W s t"
  "confined W s (t\<lparr>cvar_list := x10\<rparr>) = confined W s t" "confined W s (t\<lparr>reclaims := x11\<rparr>) = confined W s t"
  "confined W s (t\<lparr>reclaim_list := x12\<rparr>) = confined W s t" "confined W s (t\<lparr>ub_log := x13\<rparr>) = confined W s t"
  "confined W s (t\<lparr>ready_queue := x14\<rparr>) = confined W s t"
  by (simp_all add: confined_def set_pcb_def)

lemma user_store_confined: "user_store a bs s = Inr s' \<Longrightarrow> confined (own s) s s'"
  using vm_store_confined by (fastforce simp: user_store_def confined_def own_def deref_ptr_def split: option.splits)

section \<open>System calls that write a result for the user\<close>

lemma writer_confined:
  "sys_Wait uc s = Inr r \<Longrightarrow> confined (own s) s (kres_state r)"
  "wait_resume x i s = Inr r \<Longrightarrow> confined (own s) s (kres_state r)"
  "ttyread_resume t s = Inr r \<Longrightarrow> confined (own s) s (kres_state r)"
  "pipe_take a p buf n s = Inr r \<Longrightarrow> confined (own s) s (kres_state r)"
  "sys_PipeInit uc s = Inr r \<Longrightarrow> confined (own s) s (kres_state r)"
  "sys_LockInit uc s = Inr r \<Longrightarrow> confined (own s) s (kres_state r)"
  "sys_CvarInit uc s = Inr r \<Longrightarrow> confined (own s) s (kres_state r)"
  subgoal by (auto simp: sys_Wait_def reap_def klist_append_eq Let_def confined_pmem split: if_splits option.splits dest!: user_store_confined)
  subgoal by (auto simp: wait_resume_def reap_def split: if_splits option.splits dest!: user_store_confined)
  subgoal by (auto simp: ttyread_resume_def Let_def split: if_splits dest!: user_store_confined)
  subgoal by (auto simp: pipe_take_def malloc_def ready_insert_eq Let_def split: if_splits list.splits dest!: user_store_confined)
  subgoal by (auto simp: sys_PipeInit_def malloc_def klist_append_eq Let_def split: if_splits dest!: user_store_confined)
  subgoal by (auto simp: sys_LockInit_def malloc_def klist_append_eq Let_def split: if_splits dest!: user_store_confined)
  subgoal by (auto simp: sys_CvarInit_def malloc_def klist_append_eq Let_def split: if_splits dest!: user_store_confined)
  done

section \<open>System calls that write no memory\<close>

lemma pipe_loop_confined: "pipe_read_loop a i buf n e s = Inr r \<Longrightarrow> confined (own s) s (kres_state r)"
  by (auto simp: pipe_read_loop_def klist_append_eq confined_pmem split: if_splits option.splits dest!: writer_confined(4))

lemma pipe_read_confined: "sys_PipeRead uc s = Inr r \<Longrightarrow> confined (own s) s (kres_state r)"
  by (auto simp: sys_PipeRead_def Let_def split: if_splits option.splits dest!: pipe_loop_confined)

lemma tty_block_pmem: "tty_block t c s = Inr r \<Longrightarrow> pmem (kres_state r) = pmem s"
  by (auto simp: tty_block_def klist_append_eq set_pcb_def Let_def split: if_splits option.splits)

lemma tty_loop_pmem: "tty_loop uc t n s = Inr r \<Longrightarrow> pmem (kres_state r) = pmem s"
  by (auto simp: tty_loop_def Let_def split: if_splits dest!: tty_block_pmem)

lemma acquire_loop_pmem: "acquire_loop K l i e s = Inr r \<Longrightarrow> pmem (kres_state r) = pmem s"
  by (auto simp: acquire_loop_def klist_append_eq Let_def split: if_splits option.splits)

lemma acquire_pmem: "sys_Acquire K uc i s = Inr r \<Longrightarrow> pmem (kres_state r) = pmem s"
  by (auto simp: sys_Acquire_def Let_def split: if_splits option.splits dest!: acquire_loop_pmem)

lemma release_pmem: "sys_Release i s = Inr (rc, s') \<Longrightarrow> pmem s' = pmem s"
  by (auto simp: sys_Release_def ready_insert_eq Let_def split: option.splits list.splits)

lemma broadcast_loop_pmem: "broadcast_loop w s = (rc, w', s') \<Longrightarrow> pmem s' = pmem s"
  by (induction w arbitrary: s) (auto simp: ready_insert_eq split: if_splits)

lemma destroy_pmem:
  "destroy_pipe_info i s = Inr (rc, s') \<Longrightarrow> pmem s' = pmem s"
  "destroy_lock_info i s = Inr (rc, s') \<Longrightarrow> pmem s' = pmem s"
  "destroy_cvar_info i s = Inr (rc, s') \<Longrightarrow> pmem s' = pmem s"
  by (auto simp: destroy_pipe_info_def destroy_lock_info_def destroy_cvar_info_def Let_def
      split: if_splits option.splits prod.splits dest!: wake_loop_effect)

lemma reclaim_pmem: "sys_Reclaim uc s = Inr r \<Longrightarrow> pmem (kres_state r) = pmem s"
proof -
  have d: "destroy_by_type ty i s = Inr (rc, s') \<Longrightarrow> pmem s' = pmem s" for ty i rc s'
    by (auto simp: destroy_by_type_def split: if_splits dest!: destroy_pmem)
  show "sys_Reclaim uc s = Inr r \<Longrightarrow> pmem (kres_state r) = pmem s"
    by (auto simp: sys_Reclaim_def Let_def split: if_splits option.splits dest!: d)
qed

lemma calls_pmem:
  "sys_Delay uc s = Inr r \<Longrightarrow> pmem (kres_state r) = pmem s"
  "sys_TtyRead uc s = Inr r \<Longrightarrow> pmem (kres_state r) = pmem s"
  "sys_TtyWrite uc s = Inr r \<Longrightarrow> pmem (kres_state r) = pmem s"
  "sys_PipeWrite uc s = Inr r \<Longrightarrow> pmem (kres_state r) = pmem s"
  "sys_CvarSignal uc s = Inr r \<Longrightarrow> pmem (kres_state r) = pmem s"
  "sys_CvarBroadcast uc s = Inr r \<Longrightarrow> pmem (kres_state r) = pmem s"
  "sys_CvarWait uc s = Inr r \<Longrightarrow> pmem (kres_state r) = pmem s"
  "sys_Custom_0 uc s = Inr r \<Longrightarrow> pmem (kres_state r) = pmem s"
  "sys_Custom_1 uc s = Inr r \<Longrightarrow> pmem (kres_state r) = pmem s"
  "sys_Custom_2 uc s = Inr r \<Longrightarrow> pmem (kres_state r) = pmem s"
  by (auto simp: sys_Delay_def insert_sleep_list_def sys_TtyRead_def sys_TtyWrite_def sys_PipeWrite_def sys_CvarSignal_def
      sys_CvarBroadcast_def sys_CvarWait_def sys_Custom_0_def sys_Custom_1_def sys_Custom_2_def
      malloc_def klist_append_eq ready_insert_eq set_pcb_def Let_def
      split: if_splits option.splits list.splits prod.splits dest!: tty_loop_pmem release_pmem broadcast_loop_pmem)

lemma brk_pmem: "sys_Brk uc s = Inr r \<Longrightarrow> pmem (kres_state r) = pmem s"
  by (auto simp: sys_Brk_def set_pcb_def Let_def split: if_splits)

text \<open>Exit copies nothing; the frames it frees keep their contents.\<close>

lemma exit_pmem: "sys_Exit uc mode s = Inr r \<Longrightarrow> pmem (kres_state r) = pmem s"
proof -
  have orphan: "orphan_children cs s = Inr s' \<Longrightarrow> pmem s' = pmem s" for cs s s'
    by (induction cs arbitrary: s) (auto simp: set_pcb_def)
  have report: "report_to_parent me st s = Inr (rc, s') \<Longrightarrow> pmem s' = pmem s" for me st s rc s'
    by (auto simp: report_to_parent_def insert_dead_list_def malloc_def klist_append_eq set_pcb_def Let_def split: if_splits option.splits)
  have wake: "wake_parent pp s = Inr (rc, s') \<Longrightarrow> pmem s' = pmem s" for pp s rc s'
    by (auto simp: wake_parent_def ready_insert_eq split: option.splits prod.splits)
  have free: "pmem (free_proc a p s) = pmem s" for a p s
  proof -
    obtain t s1 where f1: "free_table (u_page_table p) s = (t, s1)" by (cases "free_table (u_page_table p) s")
    obtain k s2 where f2: "free_table (k_stack_pt p) s1 = (k, s2)" by (cases "free_table (k_stack_pt p) s1")
    from free_table_effect [OF f1] free_table_effect [OF f2] show ?thesis
      using f1 f2 by (auto simp: free_proc_def set_pcb_def)
  qed
  show "sys_Exit uc mode s = Inr r \<Longrightarrow> pmem (kres_state r) = pmem s"
    by (auto simp: sys_Exit_def Let_def free split: if_splits dest!: orphan report wake)
qed

section \<open>Fork and Exec\<close>

lemma copy_pages_confined:
  "copy_pages es s = (ok, t, s') \<Longrightarrow> confined (insert 0 (set (free_frames s))) s s'"
proof (induction es arbitrary: s ok t s')
  case (Cons e es)
  show ?case
  proof (cases "valid e")
    case False
    obtain ok1 t1 s1 where "copy_pages es s = (ok1, t1, s1)" by (cases "copy_pages es s") auto
    with Cons.IH [OF this] Cons.prems False show ?thesis by auto
  next
    case True
    obtain f ff1 where gr: "grab (free_frames s) = (f, ff1)" by (cases "grab (free_frames s)")
    have sub: "set ff1 \<subseteq> set (free_frames s)" "f = 0 \<or> f \<in> set (free_frames s)"
      using gr by (cases "free_frames s"; auto)+
    have g: "grab_a_frame s = (f, s\<lparr>free_frames := ff1\<rparr>)" using gr by (simp add: grab_a_frame_grab)
    show ?thesis
    proof (cases "f = 0")
      case True
      then show ?thesis using Cons.prems \<open>valid e\<close> g by (auto simp: confined_pmem)
    next
      case False
      let ?s = "copy_frame f (pfn e) (s\<lparr>free_frames := ff1\<rparr>)"
      obtain ok1 t1 s2 where c: "copy_pages es ?s = (ok1, t1, s2)" by (cases "copy_pages es ?s") auto
      with Cons.prems \<open>valid e\<close> g False have r: "s' = s2" by auto
      have "confined (insert 0 (set (free_frames s))) s ?s" using sub False by (auto simp: confined_def copy_frame_def)
      moreover have "confined (insert 0 (set (free_frames s))) ?s s2"
        using Cons.IH [OF c] sub by (auto simp: copy_frame_def intro: confined_mono)
      ultimately show ?thesis unfolding r by (rule confined_trans)
    qed
  qed
qed simp

lemma init_kernel_confined:
  assumes "init_proc_kernel c s = Inr s'"
  shows "confined (insert 0 (set (take 2 (free_frames s)))) s s'"
  using assms
  by (cases "free_frames s"; cases "tl (free_frames s)")
    (auto simp: init_proc_kernel_def set_pcb_def grab_a_frame_def copy_frame_def confined_def Let_def split: if_splits)

lemma fork_confined:
  assumes inv: "kernel_inv s" and run: "sys_Fork uc s = Inr r"
  shows "confined (insert 0 (set (free_frames s))) s (kres_state r)"
proof -
  let ?c = "malloc_cnt s"
  have ok: "mem_ok s" using inv by (simp add: kernel_inv_def)
  obtain a where a: "active_proc s = Some a"
    using run ok by (cases "active_proc s") (auto simp: sys_Fork_def malloc_ok)
  obtain p where p: "pcbs s a = Some p" using run ok a by (auto simp: sys_Fork_def malloc_ok)
  have n: "0 \<le> next_pid s" "next_pid s < MAX_PROC"
    using run ok a p by (auto simp: sys_Fork_def malloc_ok Let_def split: if_splits)
  have ac: "a \<noteq> ?c" using inv p by (auto simp: kernel_inv_def)
  let ?s0 = "fork_start uc a p s"
  from run [unfolded fork_unfold [OF ok a p ac n]] obtain s1 where i: "init_proc_kernel ?c ?s0 = Inr s1" by blast
  have "pcbs ?s0 ?c = Some (fork_child uc p s)" "length (k_stack_pt (fork_child uc p s)) = 2"
    using inv by (simp_all add: fork_start_def fork_child_def kernel_inv_def sized_def)
  with i obtain f0 f1 ff m where ff: "free_frames ?s0 = f0 # f1 # ff" "f0 \<noteq> 0" "f1 \<noteq> 0"
    and s1: "s1 = ?s0\<lparr>free_frames := ff, pcbs := (pcbs ?s0)(?c \<mapsto> (fork_child uc p s)\<lparr>kctxt := initial_kc ?s0,
           k_stack_pt := [fresh_entry f0, fresh_entry f1]\<rparr>), pmem := m\<rparr>"
    by (rule init_proc_kernel_effect)
  have "confined {0, f0, f1} ?s0 s1" using init_kernel_confined [OF i] ff(1) by (simp add: insert_commute)
  then have c1: "confined (insert 0 (set (free_frames s))) s s1"
    using ff(1) by (auto simp: confined_def fork_start_def)
  obtain ok1 t s2 where c: "copy_pages (u_page_table p) s1 = (ok1, t, s2)"
    by (cases "copy_pages (u_page_table p) s1") auto
  have "confined (insert 0 (set (free_frames s))) s1 s2"
    by (rule confined_mono [OF copy_pages_confined [OF c]]) (use s1 ff(1) in \<open>auto simp: fork_start_def\<close>)
  then have c2: "confined (insert 0 (set (free_frames s))) s s2" using c1 confined_trans by blast
  have "pmem (kres_state r) = pmem s2"
    using run [unfolded fork_unfold [OF ok a p ac n] i res_bind_simps c]
    by (auto simp: Let_def set_pcb_def ready_insert_eq split: if_splits)
  then show ?thesis using c2 by (simp add: confined_def)
qed

text \<open>Exec rewrites the process and, as its last step, the kernel stack.\<close>

lemma exec_confined:
  assumes run: "sys_Exec fs uc s = Inr r"
  shows "confined (own s \<union> set (free_frames s) \<union> {stack_frame 0 s, stack_frame 1 s}) s (kres_state r)"
proof -
  from run obtain me where "deref_ptr (pcbs s) (active_proc s) = Inr me" by (auto simp: sys_Exec_def)
  then obtain a where a: "active_proc s = Some a" "pcbs s a = Some me" by (cases "active_proc s") auto
  consider "kres_state r = s"
    | name as rc s1 where "load_program fs name as a s = Inr (rc, s1)"
        "confined {stack_frame 0 s1, stack_frame 1 s1} s1 (kres_state r)"
    using run a by (auto simp: sys_Exec_def return_initial_state_def copy_frame_def confined_def Let_def stack_frame_def
        split: if_splits)
  then show ?thesis
  proof cases
    case 2
    from moves_load_program [OF a(2) 2(1)] have "confined (table_frames (u_page_table me) \<union> set (free_frames s)) s s1"
      and k: "keeps s s1"
      using a(2) by (auto simp: moves_def)
    then have c: "confined (own s \<union> set (free_frames s)) s s1" using own_eq [OF a] by simp
    have "stack_frame i s1 = stack_frame i s" for i using k by (simp add: keeps_def stack_frame_def)
    then have "confined {stack_frame 0 s, stack_frame 1 s} s1 (kres_state r)" using 2(2) by simp
    then show ?thesis using confined_trans [OF confined_mono [OF c Un_upper1] confined_mono [OF _ Un_upper2]] by blast
  qed simp
qed

section \<open>Whole calls\<close>

text \<open>The frames a handler may write on behalf of the running process.\<close>

definition writable :: "kstate \<Rightarrow> nat set" where
  "writable s = insert 0 (own s \<union> set (free_frames s) \<union> {stack_frame 0 s, stack_frame 1 s})"

lemma own_writable: "confined (own s) s s' \<Longrightarrow> confined (writable s) s s'"
  by (erule confined_mono) (auto simp: writable_def)

lemma call_confined:
  assumes inv: "kernel_inv s" and run: "trap_kernel_hdl fs uc s = Inr r"
  shows "confined (writable s) s (kres_state r)"
proof -
  have getpid: "res_bind (sys_Getpid s) (\<lambda>p. Inr (Done (Some p) s)) = Inr r \<Longrightarrow> pmem (kres_state r) = pmem s" for r
    by auto
  have rel: "res_bind (sys_Release i s) (\<lambda>(rc, s). Inr (Done (Some rc) s)) = Inr r \<Longrightarrow> pmem (kres_state r) = pmem s" for i r
    by (auto dest!: release_pmem)
  have "pmem (kres_state r) = pmem s \<or> confined (own s) s (kres_state r) \<or> sys_Fork uc s = Inr r \<or> sys_Exec fs uc s = Inr r"
    using run unfolding trap_kernel_hdl_def Let_def
    by (elim if_branchE)
      (auto dest!: writer_confined pipe_read_confined calls_pmem brk_pmem exit_pmem acquire_pmem reclaim_pmem getpid rel)
  moreover have "confined (writable s) s (kres_state r)" if "sys_Fork uc s = Inr r"
    by (rule confined_mono [OF fork_confined [OF inv that]]) (auto simp: writable_def)
  moreover have "confined (writable s) s (kres_state r)" if "sys_Exec fs uc s = Inr r"
    by (rule confined_mono [OF exec_confined [OF that]]) (auto simp: writable_def)
  ultimately show ?thesis using own_writable confined_pmem by blast
qed

lemma memory_pmem: "trap_memory_hdl uc s = Inr r \<Longrightarrow> pmem (kres_state r) = pmem s"
  by (auto simp: trap_memory_hdl_def set_pcb_def Let_def split: if_splits dest!: exit_pmem)

text \<open>The page tables of the other processes stay as they are.\<close>

definition spares :: "kstate \<Rightarrow> kstate \<Rightarrow> bool" where
  "spares s s' \<longleftrightarrow> (\<forall>b. active_proc s \<noteq> Some b \<and> pcbs s b \<noteq> None \<longrightarrow> map_option tables (pcbs s' b) = map_option tables (pcbs s b))"

lemma quiet_spares: "quiet s s' \<Longrightarrow> spares s s'"
  by (simp add: quiet_def spares_def)

lemma spares_own:
  "active_proc s = Some a \<Longrightarrow> (\<And>b. b \<noteq> a \<Longrightarrow> pcbs s b \<noteq> None \<Longrightarrow> pcbs s' b = pcbs s b) \<Longrightarrow> spares s s'"
  by (auto simp: spares_def)

lemma brk_spares:
  assumes run: "sys_Brk uc s = Inr r"
  shows "spares s (kres_state r)"
proof -
  from run obtain rv s' where r: "r = Done rv s'" by (auto simp: sys_Brk_def Let_def split: if_splits)
  with run obtain a p ok t ff where a: "active_proc s = Some a" "pcbs s a = Some p"
    and m: "map_range (next_heap_pn p) (page_of (UP_TO_PAGE (reg uc 0) - VMEM_1_BASE))
           (u_page_table p) (free_frames s) = Inr (ok, t, ff)"
    using sys_Brk_result by blast
  show ?thesis using run [unfolded sys_Brk_eq [OF a m]]
    by (intro spares_own [OF a(1)]) (auto split: if_splits)
qed

lemma fork_spares:
  assumes inv: "kernel_inv s" and run: "sys_Fork uc s = Inr r"
  shows "spares s (kres_state r)"
proof -
  from inv run obtain a p q where a: "active_proc s = Some a" "pcbs s a = Some p" "sized q"
    "pcbs (kres_state r) = (pcbs s)(a \<mapsto> p\<lparr>children := children p @ [next_pid s]\<rparr>, malloc_cnt s \<mapsto> q)"
    by (rule fork_effect)
  have "pcbs s (malloc_cnt s) = None" using inv unfolding kernel_inv_def by (metis less_irrefl not_Some_eq)
  then show ?thesis using a by (intro spares_own [OF a(1)]) auto
qed

lemma exec_spares:
  assumes run: "sys_Exec fs uc s = Inr r"
  shows "spares s (kres_state r)"
proof -
  from run obtain me where "deref_ptr (pcbs s) (active_proc s) = Inr me" by (auto simp: sys_Exec_def)
  then obtain a where a: "active_proc s = Some a" "pcbs s a = Some me" by (cases "active_proc s") auto
  consider "kres_state r = s"
    | name as rc s1 where "load_program fs name as a s = Inr (rc, s1)" "pcbs (kres_state r) = pcbs s1"
    using run a by (auto simp: sys_Exec_def return_initial_state_def copy_frame_def Let_def split: if_splits)
  then show ?thesis
  proof cases
    case 2
    from moves_load_program [OF a(2) 2(1)] obtain p' where "pcbs s1 = (pcbs s)(a \<mapsto> p')" by (auto simp: moves_def)
    then show ?thesis using 2(2) by (intro spares_own [OF a(1)]) auto
  qed (simp add: spares_def)
qed

lemma exit_spares:
  assumes run: "sys_Exit uc mode s = Inr r"
  shows "spares s (kres_state r)"
proof -
  from run obtain me s1 rc s2 where me: "deref_ptr (pcbs s) (active_proc s) = Inr me"
    and o: "orphan_children (children me) s = Inr s1"
    and rp: "report_to_parent me (if mode = 0 then sint (reg uc 0) else ERROR) s1 = Inr (rc, s2)"
    by (auto simp: sys_Exit_def Let_def)
  from me obtain a where a: "active_proc s = Some a" "pcbs s a = Some me" by (cases "active_proc s") auto
  have q: "quiet s s2" using orphan_quiet [OF o] report_quiet [OF rp] quiet_trans by auto
  show ?thesis
  proof (cases "rc = 0")
    case False
    then show ?thesis using run me o rp quiet_spares [OF q] by (auto simp: sys_Exit_def Let_def)
  next
    case True
    have "map_option tables (pcbs s2 a) = Some (tables me)" using q a(2) by (simp add: quiet_def)
    then obtain q2 where "pcbs s2 a = Some q2" by auto
    then obtain n ff t k where f: "free_proc a me s2 =
        s2\<lparr>malloc_cnt := n, free_frames := ff, pcbs := (pcbs s2)(a \<mapsto> q2\<lparr>u_page_table := t, k_stack_pt := k\<rparr>)\<rparr>"
      by (rule free_proc_effect)
    from run me o rp True a(1) obtain rc' s3 where w: "wake_parent (ppid me) (free_proc a me s2) = Inr (rc', s3)"
      and r: "pcbs (kres_state r) = pcbs s3"
      by (auto simp: sys_Exit_def Let_def split: if_splits)
    have "map_option tables (pcbs s3 b) = map_option tables (pcbs s b)" if "b \<noteq> a" for b
      using wake_parent_quiet [OF w] q that f by (simp add: quiet_def)
    then show ?thesis using a r by (auto simp: spares_def)
  qed
qed

lemma call_spares:
  assumes inv: "kernel_inv s" and run: "trap_kernel_hdl fs uc s = Inr r"
  shows "spares s (kres_state r)"
  using kernel_call_cases [OF run] brk_spares fork_spares [OF inv] exec_spares exit_spares quiet_spares by blast

lemma memory_spares:
  assumes run: "trap_memory_hdl uc s = Inr r"
  shows "spares s (kres_state r)"
proof -
  from run obtain p where p: "deref_ptr (pcbs s) (active_proc s) = Inr p" by (auto simp: trap_memory_hdl_def)
  then obtain a where a: "active_proc s = Some a" "pcbs s a = Some p" by (cases "active_proc s") auto
  then have "sys_Exit uc 1 s = Inr r \<or> spares s (kres_state r)"
    using run p by (auto simp: trap_memory_hdl_def Let_def set_pcb_def split: if_splits intro!: spares_own [OF a(1)])
  then show ?thesis using exit_spares by blast
qed

text \<open>No frame of another process is writable.\<close>

lemma others_not_writable:
  assumes inv: "kernel_inv s" and b: "pcbs s b = Some q" "active_proc s \<noteq> Some b"
    and e: "e \<in> set (u_page_table q) \<union> set (k_stack_pt q)" "valid e" "pfn e \<noteq> 0"
  shows "pfn e \<notin> writable s"
proof
  assume w: "pfn e \<in> writable s"
  have iso: "isolated (frames_of s)" and ks: "kstack_mapped (krnl_page_table s)" using inv by (simp_all add: kernel_inv_def)
  have in_used: "pfn e \<in># used t" if "e \<in> set t" for t
    using that e(2,3) used_member [of _ t] by (metis in_set_conv_nth)
  then have fb: "pfn e \<in># frames_of s (Proc b)" using e(1) b(1) by auto
  have only: "c = Proc b" if "pfn e \<in># frames_of s c" for c
    using iso fb that unfolding isolated_def by blast
  consider "pfn e \<in> own s" | "pfn e \<in> set (free_frames s)" | "pfn e = stack_frame 0 s" | "pfn e = stack_frame 1 s"
    using w e(3) by (auto simp: writable_def)
  then show False
  proof cases
    case 1
    then obtain a p where "active_proc s = Some a" "pcbs s a = Some p" "pfn e \<in># used (u_page_table p)"
      using e(3) by (auto simp: own_def table_frames_def)
    then show False using only [of "Proc a"] b(2) by simp
  next
    case 2
    then have "pfn e \<in># frames_of s Free" using e(3) by (simp add: nonzero_def)
    then show False using only by blast
  next
    case 3
    then have "pfn e \<in># frames_of s Kernel"
      using ks e(3) used_member [of 126 "krnl_page_table s"] by (simp add: stack_frame_def kstack_mapped_def)
    then show False using only by blast
  next
    case 4
    then have "pfn e \<in># frames_of s Kernel"
      using ks e(3) used_member [of 127 "krnl_page_table s"] by (simp add: stack_frame_def kstack_mapped_def)
    then show False using only by blast
  qed
qed

end
