(* ===== verification/Protection_Properties.thy ===== *)
theory Protection_Properties
  imports Memory_Protection Loader_Properties
begin

text \<open>
  Memory protection: a system call writes the memory of its caller only. Exec as one trap: the
  process comes back from it in the new program, whose memory is what the loader installed.
\<close>

section \<open>The memory of other processes\<close>

text \<open>The code that goes on after a process has been switched in again.\<close>

lemma resume_confined: "resume_k k uc s = Inr r \<Longrightarrow> confined (own s) s (kres_state r)"
proof -
  have st: "kres_state (cvar_rc x) = kres_state x" for x by (cases x rule: cvar_rc.cases) simp_all
  have pipe: "pipe_resume a i buf n e s = Inr x \<Longrightarrow> confined (own s) s (kres_state x)" for a i buf n e x
    by (auto simp: pipe_resume_def Let_def confined_pmem split: if_splits dest!: pipe_loop_confined)
  have acq: "acquire_resume K l i e s = Inr x \<Longrightarrow> pmem (kres_state x) = pmem s" for K l i e x
    by (auto simp: acquire_resume_def Let_def split: if_splits dest!: acquire_loop_pmem)
  have cv: "cvar_resume uc c i s = Inr x \<Longrightarrow> pmem (kres_state x) = pmem s" for c i x
    by (auto simp: cvar_resume_def st split: option.splits dest!: acquire_pmem)
  show "resume_k k uc s = Inr r \<Longrightarrow> confined (own s) s (kres_state r)"
    by (cases k) (auto simp: st confined_pmem dest!: writer_confined(2,3) pipe acq cv tty_loop_pmem)
qed

text \<open>
  A stretch of kernel code that runs for one process: a handler from its trap, or the rest of a call
  from the point where the process was switched in, up to the return to user mode or to the next
  call of normal_schedule.
\<close>

definition kernel_stretch :: "(byte list \<Rightarrow> program option) \<Rightarrow> user_context \<Rightarrow> kstate \<Rightarrow> kres \<Rightarrow> bool" where
  "kernel_stretch fs uc s r \<longleftrightarrow> trap_kernel_hdl fs uc s = Inr r \<or> trap_memory_hdl uc s = Inr r \<or>
     trap_illegal_hdl uc s = Inr r \<or> trap_math_hdl uc s = Inr r \<or> (\<exists>k. resume_k k uc s = Inr r)"

lemma stretch_effect:
  assumes inv: "kernel_inv s" and run: "kernel_stretch fs uc s r"
  shows "spares s (kres_state r)" and "confined (writable s) s (kres_state r)"
proof -
  consider "trap_kernel_hdl fs uc s = Inr r" | "trap_memory_hdl uc s = Inr r" | "sys_Exit uc 1 s = Inr r"
    | k where "resume_k k uc s = Inr r"
    using run by (auto simp: kernel_stretch_def trap_illegal_hdl_def trap_math_hdl_def)
  then have "spares s (kres_state r) \<and> confined (writable s) s (kres_state r)"
  proof cases
    case 1
    then show ?thesis using call_spares [OF inv] call_confined [OF inv] by blast
  next
    case 2
    then show ?thesis using memory_spares confined_pmem [OF memory_pmem] by blast
  next
    case 3
    then show ?thesis using exit_spares confined_pmem [OF exit_pmem] by blast
  next
    case 4
    then show ?thesis using quiet_spares [OF resume_quiet] own_writable [OF resume_confined] by blast
  qed
  then show "spares s (kres_state r)" "confined (writable s) s (kres_state r)" by blast+
qed

text \<open>
C2: kernel code protects memory, as long as it does not fault. Take a stretch of kernel code that runs
for one process without a fault: a system call, memory fault or fatal trap from its start, or the rest
of a call after the process was switched in again (a read or a wait that now delivers its result), up
to the return to user mode or the next switch. Every other process keeps its page table and its kernel
stack table, and every frame they map, its user memory and its saved kernel stack, keeps its contents.
The state is any that satisfies the kernel invariant (malloc does not fail), which holds in every state
that \<open>isolation_always\<close> speaks of. A call that follows a user pointer into the kernel's own
memory, as PipeInit, LockInit and CvarInit do unchecked, is a fault here, and nothing is said of it.
\<close>

theorem system_calls_protect_memory:
  assumes "kernel_inv s" and "kernel_stretch fs uc s r"
    and "pcbs s b = Some q" and "active_proc s \<noteq> Some b"
  shows "\<exists>q'. pcbs (kres_state r) b = Some q' \<and> u_page_table q' = u_page_table q \<and> k_stack_pt q' = k_stack_pt q \<and>
     (\<forall>e. e \<in> set (u_page_table q) \<union> set (k_stack_pt q) \<and> valid e \<and> pfn e \<noteq> 0 \<longrightarrow>
        pmem (kres_state r) (pfn e) = pmem s (pfn e))"
proof -
  note eff = stretch_effect [OF assms(1,2)]
  then have "map_option tables (pcbs (kres_state r) b) = Some (tables q)" using assms(3,4) by (simp add: spares_def)
  then obtain q' where q: "pcbs (kres_state r) b = Some q'" "tables q' = tables q" by auto
  from eff(2) have "pmem (kres_state r) (pfn e) = pmem s (pfn e)"
    if "e \<in> set (u_page_table q) \<union> set (k_stack_pt q)" "valid e" "pfn e \<noteq> 0" for e
    using others_not_writable [OF assms(1,3,4) that] by (simp add: confined_def)
  then show ?thesis using q by (auto simp: tables_def)
qed

section \<open>Exec from user mode to user mode\<close>

lemma byte_at_frames:
  assumes "\<And>f. (\<exists>j<length t. valid (t ! j) \<and> f = pfn (t ! j)) \<Longrightarrow> m' f = m f"
  shows "byte_at m' t x = byte_at m t x"
proof (cases "translate t PROT_READ x")
  case (Inr c)
  obtain f i where c: "c = (f, i)" by (cases c)
  have "\<exists>j<length t. valid (t ! j) \<and> f = pfn (t ! j)" using translate_Inr(2-4) [OF Inr [unfolded c]] by blast
  then show ?thesis using assms Inr c by (simp add: byte_at_def del: PROT_READ_def)
qed (simp add: byte_at_def del: PROT_READ_def)

lemma image_in_bytes:
  assumes same: "\<And>x. byte_at m' t x = byte_at m t x" and im: "image_in m t prog li xs"
  shows "image_in m' t prog li xs"
proof -
  have b: "bytes_are m' t v bs = bytes_are m t v bs" for v bs by (simp add: bytes_are_def same)
  have "argv_at m' t c d ys = argv_at m t c d ys" for c d ys
    by (induction ys arbitrary: c d) (simp_all add: b)
  then show ?thesis using im by (simp add: image_in_def b)
qed

text \<open>The stack pages that Exec resets are not pages of a process.\<close>

lemma stack_frame_apart:
  assumes inv: "kernel_inv s" and p: "pcbs s a = Some p" and j: "j < length (u_page_table p)" "valid (u_page_table p ! j)"
    and nz: "pfn (u_page_table p ! j) \<noteq> 0"
  shows "pfn (u_page_table p ! j) \<noteq> stack_frame 0 s \<and> pfn (u_page_table p ! j) \<noteq> stack_frame 1 s"
proof -
  have "pfn (u_page_table p ! j) \<notin> writable (s\<lparr>active_proc := None\<rparr>)"
  proof (rule others_not_writable)
    have "quiet s (s\<lparr>active_proc := None\<rparr>)" by (simp add: quiet_def)
    then show "kernel_inv (s\<lparr>active_proc := None\<rparr>)" using quiet_inv [OF inv] by blast
  qed (use p j nz in auto)
  then show ?thesis by (simp add: writable_def stack_frame_def)
qed

text \<open>
C15: Exec as a trap. A process that calls Exec with a well-formed executable, valid argument strings
and enough frames returns to user mode in the new program: the user context has the program's entry
point and a stack pointer to argc, only that process changed, and the memory it sees is the text,
data, zeros and argument vector of the program, which the reset of the kernel stack that Exec ends
with leaves alone.
\<close>

theorem exec_runs_program:
  assumes inv: "kernel_inv s" and run: "active_proc s = Some a" "pcbs s a = Some p"
    and call: "uc_vector uc = TRAP_KERNEL" "uc_code uc = uint YALNIX_EXEC"
    and args: "user_addr_ok (reg uc 1) p" "cstring (pmem s) (u_page_table p) (reg uc 0) = Inr name"
      "argv (pmem s) (u_page_table p) (reg uc 1) = Inr xs" "\<forall>x\<in>set xs. 0 \<notin> set x"
    and f: "fs name = Some prog" and ok: "loadable prog li xs tp dp p s"
  shows "\<exists>uc' s' p'. int_vector fs fuel line uc s = Some (Inr (uc', s')) \<and> active_proc s' = Some a \<and>
     pcbs s' = (pcbs s)(a \<mapsto> p') \<and> uc' = uctxt p' \<and> uc_pc uc' = li_entry li \<and> uc_sp uc' = args_sp xs \<and>
     program_table (u_page_table p') tp (t_npg li) dp (data_npg li) (nat (stack_npg xs)) \<and>
     image_in (pmem s') (u_page_table p') prog li xs \<and> argv (pmem s') (u_page_table p') (uc_sp uc' + 4) = Inr xs"
proof -
  from load_program_installs [of s a p fs name prog li xs tp dp, OF inv run(2) f ok args(4)]
  obtain s1 p1 where l: "load_program fs name (Inr xs) a s = Inr (0, s1)"
    "pcbs s1 = (pcbs s)(a \<mapsto> p1)" "uc_pc (uctxt p1) = li_entry li" "uc_sp (uctxt p1) = args_sp xs"
    "program_table (u_page_table p1) tp (t_npg li) dp (data_npg li) (nat (stack_npg xs))"
    "image_in (pmem s1) (u_page_table p1) prog li xs"
    by blast
  note mv = moves_load_program [OF run(2) l(1)]
  have inv1: "kernel_inv s1" using moves_inv [OF inv mv] .
  have act: "active_proc s1 = Some a" using mv run(1) by (auto simp: moves_def keeps_def)
  let ?s2 = "snd (return_initial_state s1)"
  have r2: "pcbs ?s2 = pcbs s1" "active_proc ?s2 = Some a" "confined {stack_frame 0 s1, stack_frame 1 s1} s1 ?s2"
    using act by (auto simp: return_initial_state_def copy_frame_def confined_def stack_frame_def Let_def)
  have "sys_Exec fs uc s = Inr (Restart ?s2)" using run args l(1) by (simp add: sys_Exec_def)
  then have "trap_kernel_hdl fs uc s = Inr (Restart ?s2)" using call by (simp add: trap_kernel_hdl_def)
  moreover obtain s3 where s3: "switched_in ?s2 = Inr (uctxt p1, s3)" "pcbs s3 = pcbs s1" "active_proc s3 = Some a"
    "pmem s3 = pmem ?s2"
    using r2 l(2) by (simp add: switched_in_def)
  ultimately have iv: "int_vector fs fuel line uc s = Some (Inr (uctxt p1, s3))"
    using call by (simp add: int_vector_def run_res_def)
  have same: "byte_at (pmem s3) (u_page_table p1) x = byte_at (pmem s1) (u_page_table p1) x" for x
  proof (rule byte_at_frames)
    fix f assume "\<exists>j<length (u_page_table p1). valid (u_page_table p1 ! j) \<and> f = pfn (u_page_table p1 ! j)"
    then obtain j where j: "j < length (u_page_table p1)" "valid (u_page_table p1 ! j)" "f = pfn (u_page_table p1 ! j)" by blast
    moreover have "pfn (u_page_table p1 ! j) \<noteq> 0" using l(5) j by (auto simp: program_table_def)
    ultimately have "f \<noteq> stack_frame 0 s1 \<and> f \<noteq> stack_frame 1 s1"
      using stack_frame_apart [of s1 a p1 j] inv1 l(2) by simp
    then show "pmem s3 f = pmem s1 f" using r2(3) s3(4) by (simp add: confined_def)
  qed
  have im: "image_in (pmem s3) (u_page_table p1) prog li xs" using image_in_bytes [OF same l(6)] .
  moreover have "argv (pmem s3) (u_page_table p1) (args_sp xs + 4) = Inr xs"
    using im args(4) argv_at_argv unfolding image_in_def by blast
  ultimately show ?thesis using iv l(2-5) s3 by (intro exI [of _ "uctxt p1"] exI [of _ s3] exI [of _ p1]) simp
qed

section \<open>On the sample machine\<close>

theorem exec_runs_program_witness:
  "\<exists>uc' s'. int_vector (\<lambda>_. Some sample_prog) 0 [] ((args 0x106000 0x106000 0)\<lparr>uc_code := uint YALNIX_EXEC\<rparr>) sample
       = Some (Inr (uc', s')) \<and> active_proc s' = Some 10 \<and> uc_pc uc' = 0x100010"
proof -
  let ?uc = "(args 0x106000 0x106000 0)\<lparr>uc_code := uint YALNIX_EXEC\<rparr>"
  have "reg ?uc 0 = 0x106000" "reg ?uc 1 = 0x106000" "uc_vector ?uc = 0" by (simp_all add: args_def reg_def sample_uc_def)
  then show ?thesis
    using exec_runs_program [of sample 10 _ ?uc "[]" "[]" "\<lambda>_. Some sample_prog" sample_prog sample_li 0 2 0 "[]"]
      sample_inv sample_addr_ok sample_strings sample_loadable [of "[]"]
    by (auto simp: sample_li_def)
qed

theorem system_calls_protect_memory_witness:
  "\<exists>rv s'. trap_kernel_hdl (\<lambda>_. None) ((args 0x106000 0 0)\<lparr>uc_code := uint YALNIX_LOCK_INIT\<rparr>) sample = Inr (Done rv s') \<and>
     pmem s' 202 = pmem sample 202"
proof -
  let ?uc = "(args 0x106000 0 0)\<lparr>uc_code := uint YALNIX_LOCK_INIT\<rparr>"
  have reg: "reg ?uc 0 = 0x106000" by (simp add: args_def reg_def)
  let ?p = "(sample_pcb 0 200)\<lparr>u_page_table := sample_table\<rparr>"
  obtain m where m: "vm_store (pmem sample) sample_table 0x106000 (int_bytes 1) = Inr m"
    using vm_store_total [of sample_table "0x106000" "int_bytes 1"] sample_mapped [of 2 4] by auto
  have store: "user_store 0x106000 (int_bytes 1) s = Inr (s\<lparr>pmem := m\<rparr>)"
    if "active_proc s = Some 10" "pcbs s 10 = Some ?p" "pmem s = pmem sample" for s
    using that m by (simp add: user_store_def)
  have f: "active_proc sample = Some 10" "pcbs sample 10 = Some ?p" "reclaim_list sample = []"
    "malloc_fails sample = (\<lambda>_. False)"
    by (simp_all add: sample_def)
  have "\<exists>s'. sys_LockInit ?uc sample = Inr (Done (Some 0) s')"
    unfolding sys_LockInit_def reg malloc_def klist_append_eq Let_def by (simp add: f store del: int_bytes_def)
  then obtain s' where r: "trap_kernel_hdl (\<lambda>_. None) ?uc sample = Inr (Done (Some 0) s')"
    by (auto simp: trap_kernel_hdl_def)
  have q: "pcbs sample 20 = Some (sample_pcb 1 202)" "active_proc sample \<noteq> Some 20" by (simp_all add: sample_def)
  have "rw_entry 202 \<in> set (k_stack_pt (sample_pcb 1 202))" by (simp add: sample_pcb_def)
  then have "pmem s' 202 = pmem sample 202"
    using system_calls_protect_memory [OF sample_inv _ q, of "\<lambda>_. None" ?uc "Done (Some 0) s'"] r by (force simp: rw_entry_def kernel_stretch_def)
  then show ?thesis using r by blast
qed

end
