(* ===== verification/Process_Places.thy ===== *)
theory Process_Places
  imports Trap_Termination
begin

text \<open>
  What every handler does to the places of processes: a call that blocks puts the running process
  into one queue, a call that wakes takes a process out of its queue before it makes it ready, and
  the scheduler exchanges the running process with one of the ready queue.
\<close>

section \<open>Calls\<close>

text \<open>Where a call leaves its process: on the processor, unless it blocked.\<close>

fun held :: "kres \<Rightarrow> addr option" where
  "held (Yield k s) = None"
| "held (Done v s) = active_proc s"
| "held (Restart s) = active_proc s"

definition tracks :: "kstate \<Rightarrow> kres \<Rightarrow> bool" where
  "tracks s r \<longleftrightarrow> shifts (places (active_proc s) s) (places (held r) (kres_state r))"

lemma tracks_same: "places None s' = places None s \<Longrightarrow> active_proc s' = active_proc s \<Longrightarrow> tracks s (Done v s')"
  using places_processor [of s' s "active_proc s"] by (simp add: tracks_def)

lemmas place_code = tracks_def klist_append_eq ready_insert_eq malloc_def mem_ok_def Let_def set_pcb_def

lemma shifts_block_the:
  "deref_ptr m r = Inr p \<Longrightarrow> places None s x = M \<Longrightarrow> x \<noteq> Running \<Longrightarrow>
   shifts (places r s) ((places None s)(x := add_mset (the r) M))"
  using shifts_block by (cases r) auto

lemmas place_moves = shifts_block shifts_block_the shifts_block_fresh shifts_wake shifts_drop

lemma delay_tracks: "mem_ok s \<Longrightarrow> sys_Delay uc s = Inr r \<Longrightarrow> tracks s r"
  by (auto simp: sys_Delay_def insert_sleep_list_def place_code split: if_splits option.splits intro!: place_moves)

lemma wait_tracks: "mem_ok s \<Longrightarrow> sys_Wait uc s = Inr r \<Longrightarrow> tracks s r"
  by (auto simp: sys_Wait_def reap_def place_code split: if_splits option.splits dest!: user_store_effect intro!: place_moves)

lemma wait_resume_tracks: "wait_resume a i s = Inr r \<Longrightarrow> tracks s r"
  by (auto simp: wait_resume_def reap_def place_code split: if_splits option.splits dest!: user_store_effect)

lemma tty_block_tracks: "mem_ok s \<Longrightarrow> tty_block t c s = Inr r \<Longrightarrow> tracks s r"
  by (auto simp: tty_block_def place_code split: if_splits option.splits intro!: place_moves)

lemma tty_read_tracks: "mem_ok s \<Longrightarrow> sys_TtyRead uc s = Inr r \<Longrightarrow> tracks s r"
  by (auto simp: sys_TtyRead_def place_code split: if_splits option.splits intro!: place_moves)

lemma tty_read_resume_tracks: "ttyread_resume t s = Inr r \<Longrightarrow> tracks s r"
  by (auto simp: ttyread_resume_def place_code split: if_splits option.splits dest!: user_store_effect)

lemma mem_ok_frame [simp]:
  "mem_ok (s\<lparr>busy_terminal := x\<rparr>) = mem_ok s" "mem_ok (s\<lparr>hw := y\<rparr>) = mem_ok s"
  by (simp_all add: mem_ok_def)

lemma tty_loop_tracks: "mem_ok s \<Longrightarrow> tty_loop uc t n s = Inr r \<Longrightarrow> tracks s r"
  by (auto simp: tty_loop_def Let_def tracks_def split: if_splits dest!: tty_block_tracks [rotated])

lemma tty_write_tracks: "mem_ok s \<Longrightarrow> sys_TtyWrite uc s = Inr r \<Longrightarrow> tracks s r"
  by (auto simp: sys_TtyWrite_def Let_def tracks_def split: if_splits dest!: tty_loop_tracks [rotated])

lemma pipe_take_tracks: "mem_ok s \<Longrightarrow> pipes s a = Some p \<Longrightarrow> pipe_take a p buf n s = Inr r \<Longrightarrow> tracks s r"
  by (auto simp: pipe_take_def place_code split: if_splits list.splits dest!: user_store_effect intro!: place_moves)

lemma pipe_loop_tracks: "mem_ok s \<Longrightarrow> pipe_read_loop a i buf n e s = Inr r \<Longrightarrow> tracks s r"
  by (auto simp: pipe_read_loop_def klist_append_ok tracks_def split: if_splits option.splits
      dest!: pipe_take_tracks [rotated 2] intro!: place_moves)

lemma pipe_read_tracks: "mem_ok s \<Longrightarrow> sys_PipeRead uc s = Inr r \<Longrightarrow> tracks s r"
  by (auto simp: sys_PipeRead_def Let_def tracks_def split: if_splits option.splits dest!: pipe_loop_tracks [rotated])

lemma pipe_resume_tracks: "mem_ok s \<Longrightarrow> pipe_resume a i buf n e s = Inr r \<Longrightarrow> tracks s r"
  by (auto simp: pipe_resume_def Let_def tracks_def split: if_splits dest!: pipe_loop_tracks [rotated])

lemma acquire_loop_tracks: "mem_ok s \<Longrightarrow> acquire_loop K l i e s = Inr r \<Longrightarrow> tracks s r"
  by (auto simp: acquire_loop_def place_code split: if_splits option.splits intro!: place_moves)

lemma acquire_tracks: "mem_ok s \<Longrightarrow> sys_Acquire K uc i s = Inr r \<Longrightarrow> tracks s r"
  by (auto simp: sys_Acquire_def Let_def tracks_def split: if_splits option.splits dest!: acquire_loop_tracks [rotated])

lemma acquire_resume_tracks: "mem_ok s \<Longrightarrow> acquire_resume K l i e s = Inr r \<Longrightarrow> tracks s r"
  by (auto simp: acquire_resume_def Let_def tracks_def split: if_splits dest!: acquire_loop_tracks [rotated])

text \<open>sys_Release, whose caller goes on with its result.\<close>

lemma release_shifts:
  "mem_ok s \<Longrightarrow> sys_Release i s = Inr (rc, s') \<Longrightarrow>
     shifts (places (active_proc s) s) (places (active_proc s') s') \<and> active_proc s' = active_proc s \<and> mem_ok s'"
  by (auto simp: sys_Release_def place_code split: option.splits list.splits intro!: place_moves)

lemma cvar_wait_tracks: "mem_ok s \<Longrightarrow> sys_CvarWait uc s = Inr r \<Longrightarrow> tracks s r"
proof -
  assume ok: "mem_ok s" and run: "sys_CvarWait uc s = Inr r"
  from run obtain rc t where rel: "sys_Release (sint (reg uc 1)) s = Inr (rc, t)" by (auto simp: sys_CvarWait_def Let_def)
  note t = release_shifts [OF ok rel]
  have "tracks t r" using run rel t
    by (auto simp: sys_CvarWait_def place_code split: if_splits option.splits intro!: place_moves)
  then show ?thesis using t shifts_trans by (auto simp: tracks_def)
qed

lemma held_cvar_rc [simp]: "held (cvar_rc r) = held r" "kres_state (cvar_rc r) = kres_state r"
  by (cases r rule: cvar_rc.cases; simp)+

lemma cvar_resume_tracks: "mem_ok s \<Longrightarrow> cvar_resume uc c i s = Inr r \<Longrightarrow> tracks s r"
  using acquire_tracks [of s K_CvarAcquire uc i] by (auto simp: cvar_resume_def tracks_def split: option.splits)

lemma sem_tracks:
  "mem_ok s \<Longrightarrow> sys_Custom_0 uc s = Inr r \<Longrightarrow> tracks s r"
  "mem_ok s \<Longrightarrow> sys_Custom_1 uc s = Inr r \<Longrightarrow> tracks s r"
  "mem_ok s \<Longrightarrow> sys_Custom_2 uc s = Inr r \<Longrightarrow> tracks s r"
  by (auto simp: sys_Custom_0_def sys_Custom_1_def sys_Custom_2_def find_sem_def place_code
      split: if_splits option.splits list.splits intro!: place_moves)

lemma object_tracks:
  "mem_ok s \<Longrightarrow> sys_PipeInit uc s = Inr r \<Longrightarrow> tracks s r"
  "mem_ok s \<Longrightarrow> sys_PipeWrite uc s = Inr r \<Longrightarrow> tracks s r"
  "mem_ok s \<Longrightarrow> sys_LockInit uc s = Inr r \<Longrightarrow> tracks s r"
  "mem_ok s \<Longrightarrow> sys_CvarInit uc s = Inr r \<Longrightarrow> tracks s r"
  "mem_ok s \<Longrightarrow> sys_CvarSignal uc s = Inr r \<Longrightarrow> tracks s r"
  by (auto simp: sys_PipeInit_def sys_PipeWrite_def sys_LockInit_def sys_CvarInit_def sys_CvarSignal_def place_code
      split: if_splits option.splits list.splits dest!: user_store_effect intro!: place_moves)

section \<open>Calls that wake many\<close>

lemma broadcast_tracks: "mem_ok s \<Longrightarrow> sys_CvarBroadcast uc s = Inr r \<Longrightarrow> tracks s r"
  by (auto simp: sys_CvarBroadcast_def broadcast_loop_ok tracks_def Let_def split: if_splits option.splits
      intro!: shifts_wake_all)

lemma wake_loop_places:
  assumes "mem_ok s" and "wake_loop 1 w s = (w', s')"
  shows "\<exists>R n. s' = s\<lparr>malloc_cnt := n, ready_queue := ready_queue s @ R\<rparr> \<and> mset R \<subseteq># mset w"
proof -
  let ?k = "Suc (length w) div 2"
  have "mset (take ?k w) \<subseteq># mset w"
    using mset_subset_eq_add_left [of "mset (take ?k w)" "mset (drop ?k w)"] by (simp flip: mset_append)
  moreover from assms(1) obtain n where "wake_loop 1 w s = (drop ?k w, s\<lparr>malloc_cnt := n, ready_queue := ready_queue s @ take ?k w\<rparr>)"
    by (rule wake_loop_halves)
  ultimately show ?thesis using assms(2) by auto
qed

lemma destroy_shifts:
  assumes "mem_ok s"
  shows "destroy_pipe_info i s = Inr (rc, s') \<Longrightarrow> shifts (places r s) (places r s') \<and> active_proc s' = active_proc s"
    and "destroy_lock_info i s = Inr (rc, s') \<Longrightarrow> shifts (places r s) (places r s') \<and> active_proc s' = active_proc s"
    and "destroy_cvar_info i s = Inr (rc, s') \<Longrightarrow> shifts (places r s) (places r s') \<and> active_proc s' = active_proc s"
  by (auto simp: destroy_pipe_info_def destroy_lock_info_def destroy_cvar_info_def Let_def split: if_splits option.splits prod.splits
      dest!: wake_loop_places [OF assms] intro!: shifts_wake_all(2))

lemma reclaim_tracks: "mem_ok s \<Longrightarrow> sys_Reclaim uc s = Inr r \<Longrightarrow> tracks s r"
proof -
  assume ok: "mem_ok s"
  have d: "destroy_by_type ty i s = Inr (rc, s') \<Longrightarrow> shifts (places r s) (places r s') \<and> active_proc s' = active_proc s"
    for ty i rc s' r
    by (auto simp: destroy_by_type_def split: if_splits dest!: destroy_shifts [OF ok])
  show "sys_Reclaim uc s = Inr r \<Longrightarrow> tracks s r"
    by (auto simp: sys_Reclaim_def tracks_def Let_def split: if_splits option.splits dest!: d)
qed

section \<open>Calls that change the running process\<close>

lemma brk_tracks: "sys_Brk uc s = Inr r \<Longrightarrow> tracks s r"
proof -
  assume run: "sys_Brk uc s = Inr r"
  then obtain rv s' where r: "r = Done rv s'" by (auto simp: sys_Brk_def Let_def split: if_splits)
  with run obtain a p ok t ff where a: "active_proc s = Some a" "pcbs s a = Some p"
    and m: "map_range (next_heap_pn p) (page_of (UP_TO_PAGE (reg uc 0) - VMEM_1_BASE))
           (u_page_table p) (free_frames s) = Inr (ok, t, ff)"
    using sys_Brk_result by blast
  show ?thesis using run [unfolded sys_Brk_eq [OF a m]] by (auto simp: tracks_def split: if_splits)
qed

lemma exec_tracks: "sys_Exec fs uc s = Inr r \<Longrightarrow> tracks s r"
proof -
  assume run: "sys_Exec fs uc s = Inr r"
  then obtain me where "deref_ptr (pcbs s) (active_proc s) = Inr me" by (auto simp: sys_Exec_def)
  then obtain a where a: "active_proc s = Some a" "pcbs s a = Some me" by (cases "active_proc s") auto
  let ?same = "\<lambda>s'. places None s' = places None s \<and> active_proc s' = active_proc s"
  have load: "?same s1" if "load_program fs nm as a s = Inr (rc, s1)" for nm as rc s1
    using moves_load_program [OF a(2) that] by (auto simp: moves_def keeps_def)
  have "?same (kres_state r) \<and> held r = active_proc s"
    using run a by (auto simp: sys_Exec_def return_initial_state_def copy_frame_def Let_def split: if_splits dest!: load)
  then show ?thesis using places_processor [of "kres_state r" s] by (simp add: tracks_def)
qed

lemma memory_grow_tracks:
  "trap_memory_hdl uc s = Inr r \<Longrightarrow> sys_Exit uc 1 s = Inr r \<or> tracks s r"
  by (auto simp: trap_memory_hdl_def tracks_def set_pcb_def Let_def split: if_splits)

subsection \<open>Exit\<close>

lemma orphan_places: "orphan_children cs s = Inr s' \<Longrightarrow> places r s' = places r s"
  by (induction cs arbitrary: s) auto

lemma report_places: "report_to_parent me st s = Inr (rc, s') \<Longrightarrow> places r s' = places r s"
  by (auto simp: report_to_parent_def insert_dead_list_def klist_append_eq malloc_def Let_def split: if_splits option.splits)

lemma free_table_places: "places r (snd (free_table t s)) = places r s"
proof (induction t arbitrary: s)
  case (Cons e t)
  have "places r (snd (snd (klist_insert (free_frames s) 1 (pfn e) s))) = places r s"
    by (simp add: klist_insert_def malloc_def)
  then show ?case using Cons.IH by (simp add: split_beta Let_def)
qed simp

lemma free_proc_places: "places r (free_proc a p s) = places r s"
  using free_table_places [of r "u_page_table p" s] free_table_places [of r "k_stack_pt p" "snd (free_table (u_page_table p) s)"]
  by (simp add: free_proc_def split_beta)

lemma klist_remove_mset:
  "klist_remove xs i = (Some q, ys) \<Longrightarrow> mset xs = add_mset q (mset ys)"
proof -
  assume "klist_remove xs i = (Some q, ys)"
  then have "nat (i - 1) < length xs" "q = xs ! nat (i - 1)" "ys = take (nat (i - 1)) xs @ drop (Suc (nat (i - 1))) xs"
    by (auto simp: klist_remove_def remove_at_def in_range_def Suc_nat_eq_nat_zadd1 split: if_splits)
  then have "xs = take (nat (i - 1)) xs @ q # drop (Suc (nat (i - 1))) xs" and y: "mset ys = mset (take (nat (i - 1)) xs) +
      mset (drop (Suc (nat (i - 1))) xs)"
    by (simp_all add: id_take_nth_drop)
  from arg_cong [OF this(1), of mset] y show ?thesis by simp
qed

lemma wake_parent_shifts:
  assumes "mem_ok s" and "wake_parent pp s = Inr (rc, s')"
  shows "shifts (places r s) (places r s')"
  using assms by (auto simp: wake_parent_def place_code split: option.splits prod.splits dest!: klist_remove_mset intro!: place_moves)

lemma exit_tracks:
  assumes ok: "mem_ok s" and run: "sys_Exit uc mode s = Inr r"
  shows "tracks s r"
proof -
  from run obtain me s1 rc s2 where me: "deref_ptr (pcbs s) (active_proc s) = Inr me"
    and o: "orphan_children (children me) s = Inr s1"
    and rp: "report_to_parent me (if mode = 0 then sint (reg uc 0) else ERROR) s1 = Inr (rc, s2)"
    by (auto simp: sys_Exit_def Let_def)
  from me obtain a where a: "active_proc s = Some a" "pcbs s a = Some me" by (cases "active_proc s") auto
  have q: "quiet s s2" "active_proc s2 = Some a"
    using orphan_quiet [OF o] report_quiet [OF rp] a(1) quiet_trans by auto
  have p2: "places x s2 = places x s" for x using orphan_places [OF o] report_places [OF rp] by simp
  show ?thesis
  proof (cases "rc = 0")
    case False
    then show ?thesis using run me o rp p2 a(1) q(2) by (auto simp: sys_Exit_def tracks_def Let_def)
  next
    case True
    have "map_option tables (pcbs s2 a) = Some (tables me)" using q(1) a(2) by (simp add: quiet_def)
    then obtain x where "pcbs s2 a = Some x" by auto
    then obtain n ff t k where f: "free_proc a me s2 =
        s2\<lparr>malloc_cnt := n, free_frames := ff, pcbs := (pcbs s2)(a \<mapsto> x\<lparr>u_page_table := t, k_stack_pt := k\<rparr>)\<rparr>"
      by (rule free_proc_effect)
    have ok2: "mem_ok (free_proc a me s2)" using ok q(1) unfolding f by (simp add: mem_ok_def quiet_def)
    from run me o rp True a(1) obtain rc' s3 where w: "wake_parent (ppid me) (free_proc a me s2) = Inr (rc', s3)"
      and r: "rc' \<noteq> 0 \<and> r = Done (Some ERROR) s3 \<or> r = Yield K_Exit (s3\<lparr>active_proc := None\<rparr>)"
      by (auto simp: sys_Exit_def Let_def split: if_splits)
    have "active_proc s3 = active_proc s" using w q(2) a(1) unfolding f
      by (auto simp: wake_parent_def ready_insert_eq split: option.splits prod.splits)
    moreover have "shifts (places x s) (places x s3)" for x
      using wake_parent_shifts [OF ok2 w, of x] p2 by (simp add: free_proc_places)
    moreover have "shifts (places (active_proc s) s) (places None s3)" using calculation(2) shifts_leave shifts_trans by blast
    ultimately show ?thesis using r by (auto simp: tracks_def)
  qed
qed

section \<open>The calls together\<close>

text \<open>
  Nobody is in two places, and whoever is somewhere has a pcb. \<open>relocates\<close> adds to \<open>shifts\<close> the
  processes that Fork creates; a process that exists stays where it can be found or is gone for good.
\<close>

definition seated :: "addr option \<Rightarrow> kstate \<Rightarrow> bool" where
  "seated r s \<longleftrightarrow> isolated (places r s) \<and> placed (places r s) \<subseteq> dom (pcbs s)"

definition relocates :: "addr option \<Rightarrow> kstate \<Rightarrow> addr option \<Rightarrow> kstate \<Rightarrow> bool" where
  "relocates r s r' s' \<longleftrightarrow> (seated r s \<longrightarrow> seated r' s') \<and>
     placed (places r' s') \<subseteq> placed (places r s) \<union> - dom (pcbs s) \<and> dom (pcbs s) \<subseteq> dom (pcbs s')"

lemma relocates_refl [simp]: "relocates r s r s"
  by (auto simp: relocates_def)

lemma relocates_trans: "relocates r s q t \<Longrightarrow> relocates q t p u \<Longrightarrow> relocates r s p u"
  unfolding relocates_def by blast

lemma relocates_shifts:
  assumes "shifts (places r s) (places r' s')" and "dom (pcbs s) \<subseteq> dom (pcbs s')"
  shows "relocates r s r' s'"
  using assms unfolding relocates_def seated_def shifts_def by blast

lemma queues_dom:
  assumes "queues n s s'"
  shows "dom (pcbs s) \<subseteq> dom (pcbs s')"
proof
  fix a assume a: "a \<in> dom (pcbs s)"
  with assms have "map_option (idle_view (active_proc s) a) (pcbs s' a) = map_option (idle_view (active_proc s) a) (pcbs s a)"
    unfolding queues_def by blast
  then show "a \<in> dom (pcbs s')" using a by (cases "pcbs s' a") auto
qed

lemma wakes_dom: "wakes s s' \<Longrightarrow> dom (pcbs s) \<subseteq> dom (pcbs s')"
  unfolding wakes_def by (elim exE) (rule queues_dom)

lemma tracks_relocates:
  "tracks s r \<Longrightarrow> wakes s (kres_state r) \<Longrightarrow> relocates (active_proc s) s (held r) (kres_state r)"
  unfolding tracks_def by (rule relocates_shifts [OF _ wakes_dom])

subsection \<open>Fork\<close>

text \<open>Setting up a kernel stack moves nobody.\<close>

definition same_places :: "kstate \<Rightarrow> kstate \<Rightarrow> bool" where
  "same_places s s' \<longleftrightarrow> (\<forall>r. places r s' = places r s) \<and> ready_queue s' = ready_queue s \<and>
     dom (pcbs s') = dom (pcbs s) \<and> active_proc s' = active_proc s"

lemma same_places_trans: "same_places s t \<Longrightarrow> same_places t u \<Longrightarrow> same_places s u"
  by (simp add: same_places_def)

lemma init_stack_pages_places: "init_stack_pages is a s = Inr s' \<Longrightarrow> same_places s s'"
proof (induction "is" arbitrary: s)
  case (Cons i "is")
  obtain f t where g: "grab_a_frame s = (f, t)" by (cases "grab_a_frame s")
  let ?u = "set_pcb a (\<lambda>p. p\<lparr>k_stack_pt := (k_stack_pt p)[i := fresh_entry f]\<rparr>) t"
  let ?v = "copy_frame f (pfn (initial_ks ?u ! i)) ?u"
  have run: "init_stack_pages is a ?v = Inr s'" using Cons.prems g by (simp add: Let_def split: if_splits)
  have "same_places s ?v" using g by (auto simp: same_places_def copy_frame_def grab_a_frame_grab)
  then show ?case using Cons.IH [OF run] by (rule same_places_trans)
qed (simp add: same_places_def)

lemma init_proc_kernel_places: "init_proc_kernel a s = Inr s' \<Longrightarrow> same_places s s'"
proof -
  assume "init_proc_kernel a s = Inr s'"
  then have "init_stack_pages [0, 1] a (set_pcb a (\<lambda>p. p\<lparr>kctxt := initial_kc s\<rparr>) s) = Inr s'"
    by (auto simp: init_proc_kernel_def simp del: init_stack_pages.simps)
  moreover have "same_places s (set_pcb a (\<lambda>p. p\<lparr>kctxt := initial_kc s\<rparr>) s)" by (simp add: same_places_def)
  ultimately show ?thesis using init_stack_pages_places same_places_trans by blast
qed

lemma fork_places:
  assumes "mem_ok s" and "sys_Fork uc s = Inr r"
  shows "places None (kres_state r) = (places None s)(In_Ready := mset (ready_queue (kres_state r)))"
    and "held r = active_proc (kres_state r)"
proof -
  have self: "(places None s)(In_Ready := mset (ready_queue s)) = places None s" for s
    by (rule places_eqI) simp
  have c: "places None s' = places None s \<and> ready_queue s' = ready_queue s" if "copy_pages t s = (b, u, s')" for t s b u s'
    using copy_pages_frames [OF that] by auto
  have i: "places None s' = places None s \<and> ready_queue s' = ready_queue s" if "init_proc_kernel a s = Inr s'" for a s s'
    using init_proc_kernel_places [OF that] by (simp add: same_places_def)
  show "places None (kres_state r) = (places None s)(In_Ready := mset (ready_queue (kres_state r)))" "held r = active_proc (kres_state r)"
    using assms by (auto simp: sys_Fork_def place_code self split: if_splits option.splits prod.splits dest!: c i)
qed

lemma fork_relocates:
  assumes inv: "kernel_inv s" and run: "sys_Fork uc s = Inr r"
  shows "relocates (active_proc s) s (held r) (kres_state r)"
proof -
  from inv run obtain a p q where a: "active_proc s = Some a" "pcbs s a = Some p" "sized q"
    "pcbs (kres_state r) = (pcbs s)(a \<mapsto> p\<lparr>children := children p @ [next_pid s]\<rparr>, malloc_cnt s \<mapsto> q)"
    "used (u_page_table q) + used (k_stack_pt q) + nonzero (free_frames (kres_state r)) \<subseteq># nonzero (free_frames s)"
    "malloc_cnt s < malloc_cnt (kres_state r)" "malloc_fails (kres_state r) = malloc_fails s"
    "fresh_pcb (kres_state r) = fresh_pcb s" "krnl_page_table (kres_state r) = krnl_page_table s"
    "initial_ks (kres_state r) = initial_ks s"
    "active_proc (kres_state r) = Some a" "initial_kc (kres_state r) = initial_kc s"
    "ready_queue (kres_state r) = ready_queue s \<or> ready_queue (kres_state r) = ready_queue s @ [malloc_cnt s]"
    by (rule fork_effect)
  have ok: "mem_ok s" using inv by (simp add: kernel_inv_def)
  have new: "pcbs s (malloc_cnt s) = None" using inv unfolding kernel_inv_def by (metis less_irrefl not_Some_eq)
  let ?F = "places (Some a) s"
  have F: "places (Some a) (kres_state r) = ?F(In_Ready := mset (ready_queue (kres_state r)))"
  proof (rule places_eqI)
    fix x show "places (Some a) (kres_state r) x = (?F(In_Ready := mset (ready_queue (kres_state r)))) x"
      using fun_cong [OF fork_places(1) [OF ok run], of x] by (cases x) simp_all
  qed
  have d: "dom (pcbs (kres_state r)) = insert (malloc_cnt s) (dom (pcbs s))" using a(2,4) by auto
  from a(13) show ?thesis
  proof
    assume same: "ready_queue (kres_state r) = ready_queue s"
    have "shifts ?F (places (Some a) (kres_state r))" unfolding F same by (rule shifts_less) simp
    then show ?thesis using a(1,11) d fork_places(2) [OF ok run] by (auto intro: relocates_shifts)
  next
    assume more: "ready_queue (kres_state r) = ready_queue s @ [malloc_cnt s]"
    have G: "places (Some a) (kres_state r) = ?F(In_Ready := add_mset (malloc_cnt s) (?F In_Ready))"
      unfolding F more by simp
    have pl: "placed (places (Some a) (kres_state r)) = insert (malloc_cnt s) (placed ?F)"
      unfolding G by (rule placed_new)
    have iso: "isolated (places (Some a) (kres_state r))" if "seated (Some a) s"
      unfolding G by (rule isolated_new) (use that new in \<open>auto simp: seated_def placed_def\<close>)
    have "seated (Some a) (kres_state r)" if "seated (Some a) s"
      using iso [OF that] pl that unfolding seated_def d by blast
    then show ?thesis using pl new a(1,11) d fork_places(2) [OF ok run] unfolding relocates_def by auto
  qed
qed

subsection \<open>Every call and every resumed call\<close>

lemma call_relocates:
  assumes inv: "kernel_inv s" and run: "trap_kernel_hdl fs uc s = Inr r"
  shows "relocates (active_proc s) s (held r) (kres_state r)"
proof -
  have ok: "mem_ok s" using inv by (simp add: kernel_inv_def)
  have getpid: "res_bind (sys_Getpid s) (\<lambda>p. Inr (Done (Some p) s)) = Inr r \<Longrightarrow> tracks s r" for r
    by (auto simp: tracks_def)
  have rel: "res_bind (sys_Release i s) (\<lambda>(rc, s). Inr (Done (Some rc) s)) = Inr r \<Longrightarrow> tracks s r" for i r
  proof -
    assume "res_bind (sys_Release i s) (\<lambda>(rc, s). Inr (Done (Some rc) s)) = Inr r"
    then obtain rc s' where "sys_Release i s = Inr (rc, s')" "r = Done (Some rc) s'" by auto
    then show "tracks s r" using release_shifts [OF ok, of i rc s'] by (auto simp: tracks_def)
  qed
  have "sys_Fork uc s = Inr r \<or> tracks s r"
    using run unfolding trap_kernel_hdl_def Let_def
    by (elim if_branchE)
      (auto dest!: wait_tracks [OF ok] delay_tracks [OF ok] getpid tty_read_tracks [OF ok] tty_write_tracks [OF ok]
        object_tracks [OF ok] pipe_read_tracks [OF ok] acquire_tracks [OF ok] rel cvar_wait_tracks [OF ok]
        sem_tracks [OF ok] exit_tracks [OF ok] brk_tracks exec_tracks broadcast_tracks [OF ok] reclaim_tracks [OF ok])
  moreover have "wakes s (kres_state r)" using call_queues [OF inv run] queues_wakes by blast
  ultimately show ?thesis using fork_relocates [OF inv] tracks_relocates by blast
qed

lemma exit_relocates:
  "kernel_inv s \<Longrightarrow> sys_Exit uc mode s = Inr r \<Longrightarrow> relocates (active_proc s) s (held r) (kres_state r)"
  using exit_tracks queues_wakes [OF exit_queues] tracks_relocates by (simp add: kernel_inv_def)

lemma memory_relocates:
  assumes "kernel_inv s" and run: "trap_memory_hdl uc s = Inr r"
  shows "relocates (active_proc s) s (held r) (kres_state r)"
  using memory_grow_tracks [OF run] queues_wakes [OF memory_queues [OF run]] exit_relocates [OF assms(1)] tracks_relocates by blast

lemma resume_relocates:
  assumes "kernel_inv s" and run: "resume_k k uc s = Inr r"
  shows "relocates (active_proc s) s (held r) (kres_state r)"
proof -
  have ok: "mem_ok s" using assms(1) by (simp add: kernel_inv_def)
  have acq: "acquire_resume K_CvarAcquire l i e s = Inr r' \<Longrightarrow> tracks s (cvar_rc r')" for l i e r'
    using acquire_resume_tracks [OF ok] by (auto simp: tracks_def)
  have "tracks s r" using run
    by (cases k) (auto simp: tracks_def [of s "Done _ s"] dest: wait_resume_tracks tty_read_resume_tracks tty_loop_tracks [OF ok]
        pipe_resume_tracks [OF ok] acquire_resume_tracks [OF ok] cvar_resume_tracks [OF ok] acq)
  then show ?thesis using queues_wakes [OF resume_queues [OF run]] tracks_relocates by blast
qed

section \<open>Interrupts\<close>

lemma receive_shifts:
  assumes "mem_ok s" and "a = hd (io_list s)" and "io_list s \<noteq> []" 
  shows "receive_scan fuel t (Some a) s = Some (Inr s') \<Longrightarrow> shifts (places r s) (places r s')"
proof (induction fuel)
  case (Suc fuel)
  have "mset (io_list s) = add_mset a (mset (snd (klist_remove (io_list s) 1)))" using assms(2,3) by (cases "io_list s") simp_all
  then have wake: "shifts (places r s) (places r (snd (ready_insert a (s\<lparr>io_list := snd (klist_remove (io_list s) 1)\<rparr>))))"
    using assms(1) shifts_wake [of "places r s" In_Io a "mset (snd (klist_remove (io_list s) 1))"] by (simp add: place_code)
  from Suc.prems obtain p where p: "deref (pcbs s) a = Inr p" by (cases "deref (pcbs s) a") simp_all
  show ?case
  proof (cases "state p = BLOCKED_R \<and> t = tty_id p")
    case True
    then show ?thesis using Suc.prems p wake by simp
  next
    case False
    then have "receive_scan fuel t (Some a) s = Some (Inr s')" using Suc.prems p by (simp only: receive_scan.simps sum.case if_False)
    then show ?thesis by (rule Suc.IH)
  qed
qed simp

lemma tty_receive_shifts:
  assumes "mem_ok s" and "trap_tty_receive_hdl fuel l uc s = Some (Inr s')"
  shows "shifts (places r s) (places r s')"
proof -
  let ?rx = "\<lambda>u. receive_scan fuel (uc_code uc) (klist_index (io_list s) 1) u = Some (Inr s')"
  from assms(2) obtain u where u: "?rx u" "places r u = places r s" "io_list u = io_list s" "mem_ok u"
    using assms(1) by (auto simp: trap_tty_receive_hdl_def mem_ok_def Let_def split: if_splits)
  show ?thesis
  proof (cases "io_list s")
    case Nil
    then have "klist_index (io_list s) 1 = None" by (simp add: klist_index_def in_range_def)
    then show ?thesis using u(1,2) by simp
  next
    case (Cons a as)
    then have "klist_index (io_list s) 1 = Some a" by (simp add: klist_index_def in_range_def)
    then show ?thesis using receive_shifts [OF u(4), of a fuel "uc_code uc" s' r] u(1-3) Cons by simp
  qed
qed

lemma tty_transmit_shifts:
  assumes "mem_ok s" and "trap_tty_transmit_hdl uc s = Inr s'"
  shows "shifts (places r s) (places r s')"
proof -
  have pos: "mset xs = add_mset a (mset (snd (klist_remove xs j)))"
    if f: "find_obj m P 1 xs = Inr (Some (j, a))" for m :: "addr \<Rightarrow> pcb option" and P xs j a
  proof -
    from f obtain k x where k: "k < length xs" "xs ! k = a" "j = 1 + int k" "m a = Some x" "P x" by (rule find_obj_Some)
    then have "klist_remove xs j = (Some a, snd (klist_remove xs j))" by (simp add: klist_remove_def in_range_def)
    then show ?thesis by (rule klist_remove_mset)
  qed
  show ?thesis using assms
    by (auto simp: trap_tty_transmit_hdl_def place_code split: if_splits option.splits dest!: pos intro!: place_moves)
qed

text \<open>The clock over the sleep list: the position counted by the code is always one of the list.\<close>

lemma update_sleep_shifts:
  assumes "mem_ok s" and "1 \<le> i" and "nat (i - 1) + length l \<le> length (sleep_list s)" and "update_sleep l i s = Inr (rc, s')"
  shows "shifts (places r s) (places r s')"
  using assms
proof (induction l arbitrary: i s)
  case (Cons a rest)
  from Cons.prems(4) obtain si where si: "sleeps s a = Some si" by auto
  let ?t = "s\<lparr>sleeps := (sleeps s)(a \<mapsto> si\<lparr>ticks_left := ticks_left si - 1\<rparr>)\<rparr>"
  have t: "places r ?t = places r s" using si by (intro places_eqI) simp
  show ?case
  proof (cases "ticks_left si - 1 \<le> 0")
    case False
    have run: "update_sleep rest (i + 1) ?t = Inr (rc, s')" using Cons.prems si False by (simp add: Let_def)
    show ?thesis using Cons.IH [OF _ _ _ run] Cons.prems t by (simp add: mem_ok_def)
  next
    case True
    let ?v = "snd (ready_insert (sleep_pcb si) (set_pcb (sleep_pcb si) (\<lambda>p. p\<lparr>state := READY\<rparr>) ?t))"
    have "in_range i (sleep_list s)" using Cons.prems(2,3) by (simp add: in_range_def)
    then obtain x q where x: "klist_remove (sleep_list s) i = (Some x, q)" "length q = length (sleep_list s) - 1"
      by (auto simp: klist_remove_def remove_at_def in_range_def)
    let ?w = "?v\<lparr>sleep_list := q, sleeps := (sleeps ?v)(a := None), ub_log := ub_log ?v @ [ReadFreedNode]\<rparr>"
    have sl: "sleep_list ?v = sleep_list s" "sleeps ?v = sleeps ?t" by (simp_all add: ready_insert_eq set_pcb_def)
    have run: "update_sleep rest i ?w = Inr (rc, s')"
      using Cons.prems si True x(1) sl by (auto simp: Let_def split_beta)
    have "shifts (places r s) (places r ?w)"
      using Cons.prems(1) si t by (auto simp: place_code fun_upd_twist intro!: shifts_wake)
    moreover have "shifts (places r ?w) (places r s')"
      by (rule Cons.IH [OF _ _ _ run]) (use Cons.prems x in \<open>auto simp: ready_insert_eq mem_ok_def set_pcb_def\<close>)
    ultimately show ?thesis by (rule shifts_trans)
  qed
qed simp

section \<open>Switching\<close>

lemma stack_copies [simp]:
  "places r (save_stack p s) = places r s" "pcbs (save_stack p s) = pcbs s"
  "places r (restore_stack p s) = places r s" "pcbs (restore_stack p s) = pcbs s"
  by (simp_all add: save_stack_def restore_stack_def copy_frame_def)

lemma switch_kernel_places:
  assumes "switch_kernel_context k old (Some new) s = Inr (k', s')"
  shows "places r s' = places r s" and "dom (pcbs s') = dom (pcbs s)"
proof -
  from assms obtain s1 p where "s1 = s \<or> (\<exists>a q. s1 = save_stack q (set_pcb a (\<lambda>p. p\<lparr>kctxt := k\<rparr>) s))"
    and "s' = (restore_stack p s1)\<lparr>hw := hw (restore_stack p s1) @ [HW_TLB_FLUSH TLB_FLUSH_ALL]\<rparr>"
    by (cases old) (auto simp: switch_kernel_context_def Let_def)
  then show "places r s' = places r s" "dom (pcbs s') = dom (pcbs s)" by (elim disjE exE; simp)+
qed

lemma context_switch_places:
  assumes run: "context_switch uc old new k s = Inr (k', s')"
  shows "places r s' = places r s" and "active_proc s' = Some new" and "dom (pcbs s') = dom (pcbs s)"
proof -
  let ?s = "s\<lparr>active_proc := Some new\<rparr>"
  from run obtain s1 p s2 where s1: "(case old of None \<Rightarrow> Inr ?s | Some a \<Rightarrow>
      res_bind (deref (pcbs ?s) a) (\<lambda>_. Inr (set_pcb a (\<lambda>p. p\<lparr>uctxt := uc\<rparr>) ?s))) = Inr s1"
    and p: "pcbs s1 new = Some p"
    and s2: "(if pfn (k_stack_pt p ! 0) = 0 then init_proc_kernel new s1 else Inr s1) = Inr s2"
    and sw: "switch_kernel_context k old (Some new) s2 = Inr (k', s')"
    by (auto simp: context_switch_def Let_def)
  from s1 have old1: "s1 = ?s \<or> (\<exists>a f. s1 = set_pcb a f ?s)" by (auto split: option.splits)
  then have e1: "places r s1 = places r s" "dom (pcbs s1) = dom (pcbs s)" "active_proc s1 = Some new"
    by (elim disjE exE; simp)+
  have i: "places r v = places r u \<and> dom (pcbs v) = dom (pcbs u) \<and> active_proc v = active_proc u"
    if "init_proc_kernel new u = Inr v" for u v
    using init_proc_kernel_places [OF that] by (simp add: same_places_def)
  from s2 i e1 have "places r s2 = places r s" "dom (pcbs s2) = dom (pcbs s)" "active_proc s2 = Some new"
    by (auto split: if_splits)
  then show "places r s' = places r s" "active_proc s' = Some new" "dom (pcbs s') = dom (pcbs s)"
    using switch_kernel_places [OF sw] switch_kernel_effect(2) [OF sw] by simp_all
qed

lemma dispatch_relocates:
  assumes sw: "context_switch uc old n k t = Inr (k', s')" and t: "places None t = (places None s)(In_Ready := mset q)"
    and q: "mset (ready_queue s) + (case r of None \<Rightarrow> {#} | Some a \<Rightarrow> {#a#}) = add_mset n (mset q)"
    and d: "dom (pcbs t) = dom (pcbs s)"
  shows "relocates r s (active_proc s') s'"
proof (rule relocates_shifts)
  note c = context_switch_places [OF sw]
  have "places (Some n) s' = (places r s)(Running := {#n#}, In_Ready := mset q)"
  proof (rule places_eqI)
    fix x show "places (Some n) s' x = ((places r s)(Running := {#n#}, In_Ready := mset q)) x"
      using fun_cong [OF t, of x] fun_cong [OF c(1) [of None], of x] by (cases x) simp_all
  qed
  moreover have "shifts (places r s) ((places r s)(Running := {#n#}, In_Ready := mset q))"
    using q by (intro shifts_move) (simp_all add: add.commute)
  ultimately show "shifts (places r s) (places (active_proc s') s')" using c(2) by simp
  show "dom (pcbs s) \<subseteq> dom (pcbs s')" using c(3) d by simp
qed

lemma normal_schedule_relocates:
  assumes ok: "mem_ok s" and run: "normal_schedule uc k s = Inr (Switched k' s')"
  shows "relocates None s (active_proc s') s'"
proof -
  obtain nxt q where Q: "ready_queue s = nxt # q" using run by (cases "ready_queue s") (auto simp: normal_schedule_def)
  obtain n q' where q': "q @ [nxt] = n # q'" by (cases "q @ [nxt]") auto
  from run Q q' ok consider
      "context_switch uc (active_proc s) nxt k (s\<lparr>ready_queue := q\<rparr>) = Inr (k', s')"
    | m where "context_switch uc (active_proc s) n k (s\<lparr>malloc_cnt := m, ready_queue := q'\<rparr>) = Inr (k', s')"
    by (auto simp: normal_schedule_def ready_insert_ok mem_ok_def ready_insert_eq Let_def split: if_splits)
  then show ?thesis
  proof cases
    case 1
    then show ?thesis using Q by (intro dispatch_relocates [OF 1, of s q]) simp_all
  next
    case 2
    then show ?thesis using Q arg_cong [OF q', of mset]
      by (intro dispatch_relocates [OF 2, of s q']) simp_all
  qed
qed

lemma do_scheduler_relocates:
  assumes ok: "mem_ok s" and run: "do_scheduler uc s = Inr (Switched k' s')"
  shows "relocates (active_proc s) s (active_proc s') s'"
proof -
  obtain nxt q where Q: "ready_queue s = nxt # q" using run by (cases "ready_queue s") (auto simp: do_scheduler_def)
  then obtain old where old: "active_proc s = Some old"
    using run by (cases "active_proc s") (auto simp: do_scheduler_def)
  obtain n q' where q': "q @ [old, nxt] = n # q'" by (cases q) auto
  from run Q q' old ok consider
      m where "context_switch uc (Some old) nxt K_Sched (s\<lparr>malloc_cnt := m, ready_queue := q @ [old]\<rparr>) = Inr (k', s')"
    | m where "context_switch uc (Some old) n K_Sched (s\<lparr>malloc_cnt := m, ready_queue := q'\<rparr>) = Inr (k', s')"
    by (auto simp: do_scheduler_def mem_ok_def ready_insert_eq Let_def split: if_splits)
  then show ?thesis
  proof cases
    case 1
    then show ?thesis using Q old by (intro dispatch_relocates [OF 1, of s "q @ [old]"]) simp_all
  next
    case 2
    then show ?thesis using Q old arg_cong [OF q', of mset]
      by (intro dispatch_relocates [OF 2, of s q']) (simp_all add: add_mset_commute)
  qed
qed

section \<open>Running kernel code to its end\<close>

lemma switched_in_relocates:
  "switched_in s = Inr (uc, s') \<Longrightarrow> places r s' = places r s \<and> active_proc s' = active_proc s \<and> dom (pcbs s') = dom (pcbs s)"
  by (auto simp: switched_in_def)

lemma resumed_relocates:
  assumes inv: "kernel_inv s" and sw: "switched_in s = Inr (uc, t)" and run: "resume_k k uc t = Inr r"
  shows "relocates (active_proc s) s (held r) (kres_state r)"
proof -
  note st = switched_in_relocates [OF sw]
  have "relocates (active_proc s) s (active_proc t) t" using st by (intro relocates_shifts) simp_all
  moreover have "kernel_inv t" using quiet_inv [OF inv switched_in_quiet [OF sw]] .
  ultimately show ?thesis using resume_relocates [OF _ run] relocates_trans by blast
qed

lemma run_relocates:
  "idle_kres i r \<Longrightarrow> run fuel uc r = Some (Inr (uc', s')) \<Longrightarrow> relocates (held r) (kres_state r) (active_proc s') s'"
proof (induction fuel uc r rule: run.induct)
  case (1 fuel uc r s)
  then show ?case by simp
next
  case (2 fuel uc s)
  then have "switched_in s = Inr (uc', s')" by simp
  from switched_in_relocates [OF this] show ?case by (intro relocates_shifts) simp_all
next
  case (4 fuel uc k s)
  then have id: "idle_ready i s" by simp
  have ok: "mem_ok s" using id by (simp add: idle_ready_def kernel_inv_def)
  from "4.prems" obtain sr where n: "normal_schedule uc k s = Inr sr" by (auto split: sum.splits)
  from id n obtain k' t where sr: "sr = Switched k' t" "length (ready_queue t) < length (ready_queue s)" "idle_at i k' t"
    by (rule normal_schedule_shrinks)
  have invt: "kernel_inv t" using sr(3) by (simp add: idle_at_def)
  from "4.prems" n sr(1) obtain uc1 t1 where sw: "switched_in t = Inr (uc1, t1)" by (auto split: sum.splits)
  from "4.prems" n sr(1) sw obtain r where rk: "resume_k k' uc1 t1 = Inr r" by (auto split: sum.splits)
  have r: "run fuel uc1 r = Some (Inr (uc', s'))" using "4.prems" n sr(1) sw rk by simp
  have "relocates None s (active_proc t) t" using normal_schedule_relocates [OF ok n [unfolded sr(1)]] .
  moreover have "relocates (active_proc t) t (held r) (kres_state r)" using resumed_relocates [OF invt sw rk] .
  moreover have "relocates (held r) (kres_state r) (active_proc s') s'"
    using "4.IH"(2) [OF n sr(1) sw refl rk resumed_idle(1) [OF sr(3) sw rk] r] .
  ultimately show ?case using relocates_trans by (metis held.simps(1) kres_state.simps(2))
qed simp

lemma handler_relocates:
  assumes id: "idle_ready i s" and inv: "\<And>r. h = Inr r \<Longrightarrow> kernel_inv (kres_state r)"
    and q: "\<And>r. h = Inr r \<Longrightarrow> queues 1 s (kres_state r) \<or> wakes s (kres_state r) \<and> (\<forall>k s'. r \<noteq> Yield k s')"
    and re: "\<And>r. h = Inr r \<Longrightarrow> relocates (active_proc s) s (held r) (kres_state r)"
    and run: "run_res fuel uc h = Some (Inr (uc', s'))"
  shows "relocates (active_proc s) s (active_proc s') s'"
proof -
  from run obtain r where h: "h = Inr r" and r: "run fuel uc r = Some (Inr (uc', s'))"
    by (cases h) (auto simp: run_res_def)
  show ?thesis using relocates_trans [OF re [OF h] run_relocates [OF handler_kres [OF id inv q h] r]] .
qed

lemma clock_relocates:
  assumes id: "idle_safe i s" and run: "run_sched fuel uc (trap_clock_hdl uc s) = Some (Inr (uc', s'))"
  shows "relocates (active_proc s) s (active_proc s') s'"
proof -
  from run obtain rc t sr where u: "update_sleep_list s = Inr (rc, t)" and d: "do_scheduler uc t = Inr sr"
    by (auto simp: run_sched_def trap_clock_hdl_def split: sum.splits)
  have ok: "mem_ok s" "mem_ok t" using id sleep_idle(1) [OF id u] by (simp_all add: idle_safe_def kernel_inv_def)
  have us: "update_sleep (sleep_list s) 1 s = Inr (rc, t)" using u by (simp add: update_sleep_list_def)
  note q = update_sleep_queues [OF us]
  have first: "relocates (active_proc s) s (active_proc t) t"
    using update_sleep_shifts [OF ok(1) _ _ us] q queues_dom [OF conjunct1 [OF q]] by (intro relocates_shifts) simp_all
  have t: "kernel_inv t" "initial_kc t = K_Start" "active_proc t = Some i \<or> idle_ready i t"
    using sleep_idle(1) [OF id u] by (simp_all add: idle_safe_def)
  from do_scheduler_stays [OF sleep_idle(1) [OF id u] d] show ?thesis
  proof (elim disjE exE)
    assume "sr = NoSwitch t"
    then show ?thesis using run u d first by (simp add: run_sched_def trap_clock_hdl_def)
  next
    fix k v assume sr: "sr = Switched k v"
    note nx = do_scheduler_idle(1) [OF t d [unfolded sr]]
    from run u d sr obtain uc1 w where sw: "switched_in v = Inr (uc1, w)" and
      r0: "run_res fuel uc1 (resume_k k uc1 w) = Some (Inr (uc', s'))"
      by (auto simp: run_sched_def trap_clock_hdl_def split: sum.splits)
    then obtain r where rk: "resume_k k uc1 w = Inr r" and r: "run fuel uc1 r = Some (Inr (uc', s'))"
      by (cases "resume_k k uc1 w") (auto simp: run_res_def)
    have "relocates (active_proc t) t (active_proc v) v" using do_scheduler_relocates [OF ok(2) d [unfolded sr]] .
    moreover have "kernel_inv v" using nx by (simp add: idle_at_def)
    then have "relocates (active_proc v) v (held r) (kres_state r)" using resumed_relocates [OF _ sw rk] by blast
    moreover have "relocates (held r) (kres_state r) (active_proc s') s'"
      using run_relocates [OF resumed_idle(1) [OF nx sw rk] r] .
    ultimately show ?thesis using first relocates_trans by metis
  qed
qed

lemma trap_relocates:
  assumes id: "idle_safe i s" and intr: "active_proc s = Some i \<longrightarrow> interrupt uc"
    and run: "int_vector fs fuel line uc s = Some (Inr (uc', s'))"
  shows "relocates (active_proc s) s (active_proc s') s'"
proof -
  have inv: "kernel_inv s" and ok: "mem_ok s" using id by (simp_all add: idle_safe_def kernel_inv_def)
  have ready: "idle_ready i s" if "\<not> interrupt uc" using id intr that by (auto simp: idle_safe_def)
  let ?iv = "int_vector fs fuel line uc s"
  consider (call) "\<not> interrupt uc" "?iv = run_res fuel uc (trap_kernel_hdl fs uc s)"
    | (mem) "\<not> interrupt uc" "?iv = run_res fuel uc (trap_memory_hdl uc s)"
    | (kill) "\<not> interrupt uc" "?iv = run_res fuel uc (sys_Exit uc 1 s)"
    | (clock) "?iv = run_sched fuel uc (trap_clock_hdl uc s)"
    | (rx) "uc_vector uc = TRAP_TTY_RECEIVE"
        "?iv = map_option (\<lambda>r. res_bind r (\<lambda>s. Inr (uc, s))) (trap_tty_receive_hdl fuel line uc s)"
    | (tx) "?iv = Some (res_bind (trap_tty_transmit_hdl uc s) (\<lambda>s. Inr (uc, s)))"
    | (disk) "?iv = run_res fuel uc (trap_disk_hdl uc s)"
    | (bad) "?iv = Some (Inl OutOfBounds)"
    by (rule int_vector_cases) blast+
  then show ?thesis
  proof cases
    case call
    show ?thesis
      by (rule handler_relocates [OF ready [OF call(1)] kernel_call_inv [OF inv] call_queues [OF inv] call_relocates [OF inv]
            run [unfolded call(2)]])
  next
    case mem
    show ?thesis
      by (rule handler_relocates [OF ready [OF mem(1)] memory_inv [OF inv] disjI1 [OF memory_queues] memory_relocates [OF inv]
            run [unfolded mem(2)]])
  next
    case kill
    show ?thesis
      by (rule handler_relocates [OF ready [OF kill(1)] exit_inv [OF inv] disjI1 [OF exit_queues] exit_relocates [OF inv]
            run [unfolded kill(2)]])
  next
    case clock
    then show ?thesis using clock_relocates [OF id, of fuel uc uc' s'] run by simp
  next
    case rx
    from rx(2) run have "map_option (\<lambda>r. res_bind r (\<lambda>s. Inr (uc, s))) (trap_tty_receive_hdl fuel line uc s) = Some (Inr (uc', s'))"
      by (simp only:)
    then have r: "trap_tty_receive_hdl fuel line uc s = Some (Inr s')" by auto
    have a: "attends s s'" by (rule tty_receive_attends [OF r])
    then have "dom (pcbs s) \<subseteq> dom (pcbs s')" using wakes_dom by (simp add: attends_def)
    then show ?thesis using tty_receive_shifts [OF ok r] a by (intro relocates_shifts) (simp_all add: attends_def)
  next
    case tx
    from tx run have "res_bind (trap_tty_transmit_hdl uc s) (\<lambda>s. Inr (uc, s)) = Inr (uc', s')" by (simp only: option.inject)
    then have r: "trap_tty_transmit_hdl uc s = Inr s'" by auto
    have a: "attends s s'" by (rule tty_transmit_attends [OF r])
    then have "dom (pcbs s) \<subseteq> dom (pcbs s')" using wakes_dom by (simp add: attends_def)
    then show ?thesis using tty_transmit_shifts [OF ok r] a by (intro relocates_shifts) (simp_all add: attends_def)
  next
    case disk
    then show ?thesis using run by (simp add: run_res_def trap_disk_hdl_def)
  next
    case bad
    then show ?thesis using run by simp
  qed
qed

end
