(* ===== verification/Boot_Frames.thy ===== *)
theory Boot_Frames
  imports Boot_Properties
begin

text \<open>KernelStart after init_queues: no process and no object gets into a queue or a list, but idle into the ready queue.\<close>

definition unmoved :: "kstate \<Rightarrow> kstate \<Rightarrow> bool" where
  "unmoved s s' \<longleftrightarrow> places None s' = places None s \<and> shelves s' = shelves s"

lemma unmoved_trans: "unmoved s t \<Longrightarrow> unmoved t u \<Longrightarrow> unmoved s u"
  by (simp add: unmoved_def)

lemma vmem_unmoved: "enable_vmem s = Inr s' \<Longrightarrow> unmoved s s'"
  by (auto simp: enable_vmem_def unmoved_def)

lemma load_first_unmoved: "load_first fs nm argl a s = Inr s' \<Longrightarrow> pcbs s a \<noteq> None \<Longrightarrow> unmoved s s'"
  using load_first_moves [of fs nm argl a s s'] by (auto simp: moves_def keeps_def unmoved_def)

lemma init_kstack_unmoved: "init_kstack is a s = (b, s') \<Longrightarrow> unmoved s s' \<and> dom (pcbs s') = dom (pcbs s)"
proof (induction "is" arbitrary: s)
  case (Cons i "is")
  obtain f t where g: "grab_a_frame s = (f, t)" by (cases "grab_a_frame s")
  have t: "unmoved s t" "dom (pcbs t) = dom (pcbs s)" using g by (auto simp: grab_a_frame_grab unmoved_def)
  show ?case
  proof (cases "f = 0")
    case True
    then have "\<exists>h. s' = set_pcb a h t" using Cons.prems g by auto
    then show ?thesis using t by (elim exE) (simp add: unmoved_def)
  next
    case False
    let ?u = "set_pcb a (\<lambda>p. p\<lparr>k_stack_pt := (k_stack_pt p)[i := fresh_entry f]\<rparr>) t"
    have "init_kstack is a ?u = (b, s')" using Cons.prems g False by simp
    from Cons.IH [OF this] t show ?thesis by (simp add: unmoved_def)
  qed
qed (simp add: unmoved_def)

lemma init_init_unmoved:
  assumes run: "init_init fs uc argl s = Inr s'"
  shows "unmoved s s'"
proof -
  let ?a = "malloc_cnt s"
  let ?u = "s\<lparr>p_init := Some ?a, pcbs := (pcbs s)(?a \<mapsto> (fresh_pcb s ?a)\<lparr>uctxt := uc, state := RUNNING, pid := next_pid s,
      ppid := -1, children := []\<rparr>), next_pid := next_pid s + 1, pcb_table := (pcb_table s)(next_pid s := Some ?a),
      malloc_cnt := Suc (Suc ?a)\<rparr>"
  show ?thesis
  proof (cases "malloc_fails s ?a")
    case False
    obtain b v where k: "init_kstack [0, 1] ?a ?u = (b, v)" by (cases "init_kstack [0, 1] ?a ?u")
    have v: "s' = v \<or> load_first fs (case argl of [] \<Rightarrow> None | nm # _ \<Rightarrow> Some nm) (Inr (tl argl)) ?a (empty_region1 ?a v) = Inr s'"
      using run False k unfolding init_init_def
      by (cases b) (auto simp: new_pcb_def malloc_def Let_def simp del: init_kstack.simps split: if_splits)
    note kp = init_kstack_unmoved [OF k]
    have "pcbs (empty_region1 ?a v) ?a \<noteq> None" using kp by (auto simp: empty_region1_def set_pcb_def dom_def)
    then have "s' = v \<or> unmoved (empty_region1 ?a v) s'" using v load_first_unmoved [of fs _ _ ?a "empty_region1 ?a v" s'] by blast
    moreover have "unmoved v (empty_region1 ?a v)" by (simp add: unmoved_def empty_region1_def Let_def)
    moreover have "unmoved s v" using kp by (simp add: unmoved_def)
    ultimately show ?thesis using unmoved_trans by blast
  qed (use run in \<open>auto simp: init_init_def malloc_def unmoved_def\<close>)
qed

lemma init_idle_unmoved: "init_idle fs uc argl s = Inr s' \<Longrightarrow> unmoved s s'"
  by (auto simp: set_pcb_def init_idle_def new_pcb_def empty_region1_def malloc_def Let_def unmoved_def [of s]
      split: if_splits option.splits prod.splits bool.splits dest!: load_first_unmoved) (simp_all add: unmoved_def)

lemma save_pages_unmoved: "unmoved s (snd (save_initial_pages is s))"
proof (induction "is" arbitrary: s)
  case (Cons i "is")
  obtain f t where g: "grab_a_frame s = (f, t)" by (cases "grab_a_frame s")
  have "unmoved s t" using g by (auto simp: grab_a_frame_grab unmoved_def)
  then show ?case using g Cons.IH by (simp add: copy_frame_def Let_def unmoved_def)
qed (simp add: unmoved_def)

lemma boot_frame:
  assumes run: "KernelStart fs argl n uc s = Inr (uc', s')"
  shows "shelves s' = shelves (start n s)" and "x \<noteq> In_Ready \<Longrightarrow> places None s' x = places None (start n s) x"
proof -
  from run obtain s1 s2 s3 i where s1: "enable_vmem (start n s) = Inr s1" and i2: "init_init fs uc argl s1 = Inr s2"
    and i3: "init_idle fs uc argl s2 = Inr s3"
    and r: "switched_in (snd (save_initial_kernel K_Start ((snd (ready_insert i s3))\<lparr>active_proc := p_init (snd (ready_insert i s3))\<rparr>)))
      = Inr (uc', s')"
    by (auto simp: KernelStart_def start_def Let_def split: option.splits)
  have 3: "unmoved (start n s) s3"
    using unmoved_trans [OF vmem_unmoved [OF s1] unmoved_trans [OF init_init_unmoved [OF i2] init_idle_unmoved [OF i3]]] .
  have save: "unmoved u (snd (save_initial_kernel k u))" for k u
    using save_pages_unmoved [of "u\<lparr>initial_kc := k\<rparr>" "[0, 1]"] by (simp add: save_initial_kernel_def unmoved_def)
  have "unmoved (snd (ready_insert i s3)) s'"
    using r save [of "(snd (ready_insert i s3))\<lparr>active_proc := p_init (snd (ready_insert i s3))\<rparr>" K_Start]
    by (auto simp: switched_in_def unmoved_def)
  then show "shelves s' = shelves (start n s)" "x \<noteq> In_Ready \<Longrightarrow> places None s' x = places None (start n s) x"
    using 3 by (auto simp: unmoved_def ready_insert_eq)
qed

end
