(* ===== verification/Place_Properties.thy ===== *)
theory Place_Properties
  imports Process_Places Termination_Properties Boot_Frames
begin

text \<open>
  After boot every process is in one place: it runs, or it is ready, or it waits in one queue. A
  process that is in none, because it exited or because the object it waited for was destroyed, never
  gets the processor again.
\<close>

section \<open>Boot\<close>

text \<open>No objects exist when the machine is switched on.\<close>

definition no_objects :: "kstate \<Rightarrow> bool" where
  "no_objects s \<longleftrightarrow> sleeps s = Map.empty \<and> pipes s = Map.empty \<and> locks s = Map.empty \<and> cvars s = Map.empty \<and>
     sems s = Map.empty"

lemma start_places:
  assumes "switched_on s" and "no_objects s"
  shows "places None (start n s) = (\<lambda>_. {#})"
proof -
  let ?s0 = "s\<lparr>total_frames := uint (drop_bit PAGESHIFT n), next_pid := 0, next_sem := 0,
       vmem_enabled := False, busy_terminal := replicate (nat NUM_TERMINALS) 0\<rparr>"
  have ok: "mem_ok ?s0" "mem_ok (init_int_vector (init_queues ?s0))"
    using assms by (simp_all add: switched_on_def powered_on_def mem_ok_def init_int_vector_def init_queues_ok)
  from gather_free_frames_effect [OF ok(2)] obtain m ff where
    e: "start n s = (init_int_vector (init_queues ?s0))\<lparr>malloc_cnt := m, free_frames := ff\<rparr>"
    unfolding start_def by blast
  show ?thesis
  proof (rule places_eqI)
    fix x show "places None (start n s) x = {#}"
      using assms(2) ok(1) unfolding e by (cases x) (simp_all add: no_objects_def init_int_vector_def init_queues_ok)
  qed
qed

lemma boot_places:
  assumes on: "switched_on s" "no_objects s" and n: "130 \<le> uint n div 8192"
    and run: "KernelStart fs argl n uc s = Inr (uc', s')"
  obtains a b where "active_proc s' = Some a" and "a \<noteq> b" and "dom (pcbs s') = {a, b}"
    and "places (Some a) s' = (\<lambda>_. {#})(Running := {#a#}, In_Ready := {#b#})"
proof -
  from on(1) n run obtain a p b q where st: "kernel_inv s'" "active_proc s' = Some a" "pcbs s' = [a \<mapsto> p, b \<mapsto> q]" "a \<noteq> b"
    "pid p = 0" "pid q = 1" "ready_queue s' = [b]" "uc' = uctxt p" "next_pid s' = 2" "initial_kc s' = K_Start"
    "state p = RUNNING" "state q = READY" "p_idle s' = Some b" "pfn (k_stack_pt q ! 0) = 0"
    by (rule boot_state)
  have "places None s' x = (if x = In_Ready then {#b#} else {#})" for x
    using boot_frame(2) [OF run, of x] start_places [OF on, of n] st(7) by (cases "x = In_Ready") simp_all
  note P = this
  show thesis
  proof (rule that [OF st(2,4)])
    show "places (Some a) s' = (\<lambda>_. {#})(Running := {#a#}, In_Ready := {#b#})"
    proof (rule places_eqI)
      fix x show "places (Some a) s' x = ((\<lambda>_. {#})(Running := {#a#}, In_Ready := {#b#})) x"
        using P [of x] by (cases x) simp_all
    qed
  qed (use st(3) in auto)
qed

section \<open>From one state to a later one\<close>

text \<open>The steps of \<open>idle_runs\<close>, from any state on.\<close>

inductive onward :: "(byte list \<Rightarrow> program option) \<Rightarrow> addr \<Rightarrow> kstate \<Rightarrow> kstate \<Rightarrow> bool" for fs i s where
  now: "onward fs i s s"
| user: "onward fs i s t \<Longrightarrow> onward fs i s (t\<lparr>pmem := m\<rparr>)"
| kernel_brk: "onward fs i s t \<Longrightarrow> SetKernelBrk a t = Inr (rc, u) \<Longrightarrow> onward fs i s u"
| trap: "onward fs i s t \<Longrightarrow> (active_proc t = Some i \<longrightarrow> interrupt uc1) \<Longrightarrow>
    int_vector fs fuel line uc1 t = Some (Inr (uc2, u)) \<Longrightarrow> onward fs i s u"

lemma kernel_brk_places: "SetKernelBrk a s = Inr (rc, s') \<Longrightarrow> places r s' = places r s \<and> dom (pcbs s') = dom (pcbs s)"
  by (auto simp: SetKernelBrk_def Let_def split: if_splits)

lemma onward_safe: "onward fs i s t \<Longrightarrow> idle_safe i s \<Longrightarrow> idle_safe i t"
  by (induction rule: onward.induct) (auto intro: user_safe kernel_brk_safe trap_idle(2))

lemma onward_relocates:
  "onward fs i s t \<Longrightarrow> idle_safe i s \<Longrightarrow> relocates (active_proc s) s (active_proc t) t"
proof (induction rule: onward.induct)
  case (user t m)
  have "relocates (active_proc t) t (active_proc t) (t\<lparr>pmem := m\<rparr>)" by (intro relocates_shifts) simp_all
  then show ?case using user relocates_trans by fastforce
next
  case (kernel_brk t a rc u)
  have "relocates (active_proc t) t (active_proc u) u"
    using kernel_brk_places [OF kernel_brk(2)] kernel_brk_queues [OF kernel_brk(2)] by (intro relocates_shifts) simp_all
  then show ?case using kernel_brk relocates_trans by blast
next
  case (trap t uc1 fuel line uc2 u)
  have "idle_safe i t" using onward_safe [OF trap(1) trap.prems] .
  from trap_relocates [OF this trap(2,3)] show ?case using trap relocates_trans by blast
qed simp

lemma idle_runs_onward:
  assumes "idle_runs fs argl n uc s i t"
  obtains uc' t0 where "KernelStart fs argl n uc s = Inr (uc', t0)" and "p_idle t0 = Some i" and "onward fs i t0 t"
proof -
  from assms have "\<exists>uc' t0. KernelStart fs argl n uc s = Inr (uc', t0) \<and> p_idle t0 = Some i \<and> onward fs i t0 t"
    by (induction rule: idle_runs.induct) (blast intro: onward.intros)+
  then show thesis using that by blast
qed

lemma idle_runs_seated:
  assumes on: "switched_on s0" "no_objects s0" and n: "130 \<le> uint n div 8192" and run: "idle_runs fs argl n uc s0 i s"
  shows "seated (active_proc s) s"
proof -
  from run obtain uc' t where t: "KernelStart fs argl n uc s0 = Inr (uc', t)" "p_idle t = Some i" "onward fs i t s"
    by (rule idle_runs_onward)
  from on n t(1) obtain a b where b: "active_proc t = Some a" "a \<noteq> b" "dom (pcbs t) = {a, b}"
    "places (Some a) t = (\<lambda>_. {#})(Running := {#a#}, In_Ready := {#b#})"
    by (rule boot_places)
  then have "seated (active_proc t) t" by (auto simp: seated_def isolated_def placed_def simp del: places.simps split: if_splits)
  moreover have "idle_safe i t" using idle_runs_safe [OF idle_runs.boot [OF t(1,2)] on(1) n] .
  ultimately show ?thesis using onward_relocates [OF t(3)] by (simp add: relocates_def)
qed

text \<open>
C4: every process is in one place, as long as malloc does not fail. In every state that a run without a
kernel fault reaches after boot, while idle only takes interrupts and malloc never fails, by system
calls, clock ticks, faults and terminal interrupts in any order, a process that runs, is ready, waits for a child, waits for a terminal, sleeps, or is in the wait list of a
pipe, lock, condition variable or semaphore does so once and is nowhere else, and its pcb exists. No
process is queued twice, none is ready and blocked, and the running process is in no queue. When the
list nodes cannot be allocated this fails: the clock's scheduler drops the process it preempts
(\<open>preempted_without_memory\<close>), and with idle gone a call that blocks returns to a process that
is still in a queue.
\<close>

theorem process_in_one_place:
  assumes "powered_on s0" and "malloc_fails s0 = (\<lambda>_. False)" and "no_objects s0" and "130 \<le> uint n div 8192" and "idle_runs fs argl n uc s0 i s"
    and "a \<in># places (active_proc s) s x"
  shows "count (places (active_proc s) s x) a = 1 \<and> (\<forall>y. a \<in># places (active_proc s) s y \<longrightarrow> y = x) \<and> pcbs s a \<noteq> None"
proof -
  have "seated (active_proc s) s" using switched_onI [OF assms(1,2)] assms(3-5) by (rule idle_runs_seated)
  then have iso: "isolated (places (active_proc s) s)" and d: "placed (places (active_proc s) s) \<subseteq> dom (pcbs s)"
    by (simp_all add: seated_def)
  have "pcbs s a \<noteq> None" using d assms(6) unfolding placed_def by blast
  moreover have "count (places (active_proc s) s x) a = 1 \<and> (\<forall>y. a \<in># places (active_proc s) s y \<longrightarrow> y = x)"
    using iso assms(6) unfolding isolated_def by blast
  ultimately show ?thesis by blast
qed

lemma not_placed:
  assumes "a \<notin> placed (places (active_proc t) t)"
  shows "active_proc t \<noteq> Some a \<and> a \<notin> set (ready_queue t) \<and> (\<forall>x. a \<notin># places (active_proc t) t x)"
proof -
  have no: "a \<notin># places (active_proc t) t x" for x using assms unfolding placed_def by blast
  from no [of Running] no [of In_Ready] no show ?thesis by (auto split: option.splits)
qed

text \<open>
Who is nowhere never runs again. If, without kernel faults and with a malloc that never fails, a process
exists in a state the machine reaches after boot but is neither running nor in the ready queue nor in a queue where it could be woken up, then in no
later state does it have the processor, a place in the ready queue, or one in any other queue.
\<close>

theorem nowhere_never_runs:
  assumes "powered_on s0" and "malloc_fails s0 = (\<lambda>_. False)" and "130 \<le> uint n div 8192"
    and "idle_runs fs argl n uc s0 i s" and "pcbs s a \<noteq> None" and "\<forall>x. a \<notin># places (active_proc s) s x" and "onward fs i s t"
  shows "active_proc t \<noteq> Some a \<and> a \<notin> set (ready_queue t) \<and> (\<forall>x. a \<notin># places (active_proc t) t x)"
proof -
  have "relocates (active_proc s) s (active_proc t) t"
    using onward_relocates [OF assms(7) idle_runs_safe [OF assms(4) switched_onI [OF assms(1,2)] assms(3)]] .
  then have "a \<notin> placed (places (active_proc t) t)" using assms(5,6) unfolding relocates_def placed_def by blast
  then show ?thesis by (rule not_placed)
qed

section \<open>Exit\<close>

text \<open>The traps that end the process they come from.\<close>

definition ends_process :: "user_context \<Rightarrow> bool" where
  "ends_process uc \<longleftrightarrow> uc_vector uc = TRAP_ILLEGAL \<or> uc_vector uc = TRAP_MATH \<or>
     uc_vector uc = TRAP_KERNEL \<and> word_of_int (uc_code uc) = YALNIX_EXIT"

lemma ends_process_exit:
  assumes "ends_process uc"
  obtains mode where "int_vector fs fuel line uc s = run_res fuel uc (sys_Exit uc mode s)" and "\<not> interrupt uc"
proof -
  have call: "trap_kernel_hdl fs uc s = sys_Exit uc 0 s" if "word_of_int (uc_code uc) = YALNIX_EXIT"
    unfolding trap_kernel_hdl_def Let_def that by simp
  consider "uc_vector uc = TRAP_ILLEGAL" | "uc_vector uc = TRAP_MATH"
    | "uc_vector uc = TRAP_KERNEL" "word_of_int (uc_code uc) = YALNIX_EXIT"
    using assms unfolding ends_process_def by blast
  then show thesis
  proof cases
    case 1
    then show ?thesis by (intro that [of 1]) (simp_all add: int_vector_def trap_illegal_hdl_def interrupt_def)
  next
    case 2
    then show ?thesis by (intro that [of 1]) (simp_all add: int_vector_def trap_math_hdl_def interrupt_def)
  next
    case 3
    have "int_vector fs fuel line uc s = run_res fuel uc (trap_kernel_hdl fs uc s)" using 3(1) by (simp add: int_vector_def)
    then show ?thesis using 3 by (intro that [of 0]) (simp_all only: call, simp add: interrupt_def)
  qed
qed

lemma wake_parent_returns:
  assumes run: "wake_parent pp s = Inr (rc, s')"
  shows "rc = 0"
proof (cases "find_obj (pcbs s) (\<lambda>w. pid w = pp) 1 (wait_list s)")
  case (Inr f)
  show ?thesis
  proof (cases f)
    case (Some jw)
    obtain j w where jw: "jw = (j, w)" by (cases jw)
    from Inr [unfolded Some jw] obtain k x where "k < length (wait_list s)" "wait_list s ! k = w" "j = 1 + int k"
      "pcbs s w = Some x" "pid x = pp"
      by (rule find_obj_Some)
    then have "klist_remove (wait_list s) j = (Some w, snd (klist_remove (wait_list s) j))"
      by (simp add: klist_remove_def in_range_def)
    then show ?thesis using run Inr Some jw by (auto simp: wake_parent_def split: prod.splits)
  qed (use run Inr in \<open>simp add: wake_parent_def\<close>)
qed (use run in \<open>simp add: wake_parent_def\<close>)

text \<open>Exit gives up the processor and puts its process nowhere.\<close>

lemma exit_leaves:
  assumes ok: "mem_ok s" and run: "sys_Exit uc mode s = Inr r"
  obtains s1 where "r = Yield K_Exit s1" and "shifts (places None s) (places None s1)"
proof -
  from run obtain me s1 rc s2 where me: "deref_ptr (pcbs s) (active_proc s) = Inr me"
    and o: "orphan_children (children me) s = Inr s1"
    and rp: "report_to_parent me (if mode = 0 then sint (reg uc 0) else ERROR) s1 = Inr (rc, s2)"
    by (auto simp: sys_Exit_def Let_def)
  from me obtain a where a: "active_proc s = Some a" "pcbs s a = Some me" by (cases "active_proc s") auto
  have q: "quiet s s1" "quiet s s2" "active_proc s2 = Some a"
    using orphan_quiet [OF o] report_quiet [OF rp] a(1) quiet_trans by auto
  have p2: "places x s2 = places x s" for x using orphan_places [OF o] report_places [OF rp] by simp
  have rc: "rc = 0" using rp ok q(1)
    by (auto simp: report_to_parent_def insert_dead_list_def klist_append_eq malloc_def mem_ok_def quiet_def Let_def split: if_splits)
  have "map_option tables (pcbs s2 a) = Some (tables me)" using q(2) a(2) by (simp add: quiet_def)
  then obtain x where "pcbs s2 a = Some x" by auto
  then obtain n ff t k where f: "free_proc a me s2 =
      s2\<lparr>malloc_cnt := n, free_frames := ff, pcbs := (pcbs s2)(a \<mapsto> x\<lparr>u_page_table := t, k_stack_pt := k\<rparr>)\<rparr>"
    by (rule free_proc_effect)
  have ok2: "mem_ok (free_proc a me s2)" using ok q(2) unfolding f by (simp add: mem_ok_def quiet_def)
  from run me o rp rc a(1) obtain rc' s3 where w: "wake_parent (ppid me) (free_proc a me s2) = Inr (rc', s3)"
    and r: "rc' \<noteq> 0 \<or> r = Yield K_Exit (s3\<lparr>active_proc := None\<rparr>)"
    by (auto simp: sys_Exit_def Let_def split: if_splits)
  have "shifts (places None s) (places None s3)"
    using wake_parent_shifts [OF ok2 w, of None] p2 by (simp add: free_proc_places)
  then show thesis using that r wake_parent_returns [OF w] by simp
qed

lemma exit_nowhere:
  assumes "switched_on s0" and "no_objects s0" and "130 \<le> uint n div 8192" and "idle_runs fs argl n uc s0 i s"
    and "active_proc s = Some a" and "a \<noteq> i" and "ends_process uc1"
    and "int_vector fs fuel line uc1 s = Some (Inr (uc2, u))"
  shows "a \<notin> placed (places (active_proc u) u)" and "a \<in> dom (pcbs u)" and "idle_safe i u"
proof -
  have id: "idle_safe i s" using idle_runs_safe [OF assms(4,1,3)] .
  then have ready: "idle_ready i s" and inv: "kernel_inv s" using assms(5,6) by (auto simp: idle_safe_def)
  have ok: "mem_ok s" using inv by (simp add: kernel_inv_def)
  from assms(7) obtain mode where e: "int_vector fs fuel line uc1 s = run_res fuel uc1 (sys_Exit uc1 mode s)" and ni: "\<not> interrupt uc1"
    by (rule ends_process_exit)
  with assms(8) obtain r where r: "sys_Exit uc1 mode s = Inr r" "run fuel uc1 r = Some (Inr (uc2, u))"
    by (cases "sys_Exit uc1 mode s") (auto simp: run_res_def)
  from ok r(1) obtain s1 where s1: "r = Yield K_Exit s1" "shifts (places None s) (places None s1)" by (rule exit_leaves)
  have seat: "seated (active_proc s) s" using idle_runs_seated [OF assms(1-4)] .
  have "a \<notin> placed (places None s)"
  proof
    assume "a \<in> placed (places None s)"
    then obtain x where "a \<in># places None s x" unfolding placed_def by blast
    then have "x \<noteq> Running" "a \<in># places (active_proc s) s x" by (cases x; simp)+
    moreover have "a \<in># places (active_proc s) s Running" using assms(5) by simp
    ultimately show False using seat unfolding seated_def isolated_def by blast
  qed
  then have out1: "a \<notin> placed (places None s1)" using s1(2) unfolding shifts_def by blast
  have "a \<in># places (active_proc s) s Running" using assms(5) by simp
  then have "a \<in> dom (pcbs s)" using seat unfolding seated_def placed_def by blast
  then have dom1: "a \<in> dom (pcbs s1)" using queues_dom [OF exit_queues [OF r(1)]] s1(1) by auto
  have k: "idle_kres i r"
    using handler_kres [OF ready exit_inv [OF inv] disjI1 [OF exit_queues] r(1)] .
  have "relocates None s1 (active_proc u) u" using run_relocates [OF k r(2)] s1(1) by simp
  then show "a \<notin> placed (places (active_proc u) u)" "a \<in> dom (pcbs u)" using out1 dom1 unfolding relocates_def by blast+
  show "idle_safe i u" using trap_idle(2) [OF id _ assms(8)] assms(5,6) by simp
qed

text \<open>
C16: an exit is final, as long as malloc does not fail. When, in a run without a kernel fault in which
malloc never fails and idle only takes interrupts, a process other than idle calls Exit or is killed for
an illegal instruction or an arithmetic fault, then in no later state of such a run does it have the
processor again, a place in the ready queue, or one in a queue from which it could be woken up. Without
memory for the record of its exit the process goes on running: \<open>exit_exact\<close>.
\<close>

theorem exited_never_runs:
  assumes "powered_on s0" and "malloc_fails s0 = (\<lambda>_. False)" and "no_objects s0" and "130 \<le> uint n div 8192" and "idle_runs fs argl n uc s0 i s"
    and "active_proc s = Some a" and "a \<noteq> i" and "ends_process uc1"
    and "int_vector fs fuel line uc1 s = Some (Inr (uc2, u))" and "onward fs i u t"
  shows "active_proc t \<noteq> Some a \<and> a \<notin> set (ready_queue t) \<and> (\<forall>x. a \<notin># places (active_proc t) t x)"
proof -
  note u = exit_nowhere [OF switched_onI [OF assms(1,2)] assms(3-9)]
  have "relocates (active_proc u) u (active_proc t) t" using onward_relocates [OF assms(10) u(3)] .
  then have "a \<notin> placed (places (active_proc t) t)" using u(1,2) unfolding relocates_def by blast
  then show ?thesis by (rule not_placed)
qed

section \<open>Destroyed objects\<close>

lemma destroy_keeps_cvars:
  "destroy_pipe_info i s = Inr (rc, s') \<Longrightarrow> cvars s' = cvars s"
  "destroy_lock_info i s = Inr (rc, s') \<Longrightarrow> cvars s' = cvars s"
  by (auto simp: destroy_pipe_info_def destroy_lock_info_def Let_def split: if_splits option.splits prod.splits
      dest!: wake_loop_effect)

lemma destroy_cvar_places:
  assumes ok: "mem_ok s" and run: "destroy_cvar_info i s = Inr (rc, s')" and c: "cvars s c = Some x" "cvars s' c = None"
  shows "places r s' = (places r s)(In_Ready := mset (ready_queue s @ take (Suc (length (cvar_wait_list x)) div 2) (cvar_wait_list x)),
           At_Cvar c := {#})"
    and "ready_queue s' = ready_queue s @ take (Suc (length (cvar_wait_list x)) div 2) (cvar_wait_list x)"
proof -
  from run c obtain j a y where f: "find_obj (cvars s) (\<lambda>c. cvarid c = i) 1 (cvar_list s) = Inr (Some (j, a))"
    and y: "cvars s a = Some y"
    by (auto simp: destroy_cvar_info_def Let_def split: if_splits option.splits)
  from ok obtain n where w: "wake_loop 1 (cvar_wait_list y) s = (drop (Suc (length (cvar_wait_list y)) div 2) (cvar_wait_list y),
     s\<lparr>malloc_cnt := n, ready_queue := ready_queue s @ take (Suc (length (cvar_wait_list y)) div 2) (cvar_wait_list y)\<rparr>)"
    by (rule wake_loop_halves)
  have "a = c" using run c f y w by (auto simp: destroy_cvar_info_def Let_def split: if_splits option.splits prod.splits)
  with y c(1) have "a = c" "y = x" by simp_all
  then show "places r s' = (places r s)(In_Ready := mset (ready_queue s @ take (Suc (length (cvar_wait_list x)) div 2) (cvar_wait_list x)),
           At_Cvar c := {#})"
    "ready_queue s' = ready_queue s @ take (Suc (length (cvar_wait_list x)) div 2) (cvar_wait_list x)"
    using run f y w c(2)
    by (auto simp: destroy_cvar_info_def Let_def split: if_splits option.splits prod.splits)
qed

text \<open>Reclaim, when condition variable \<open>c\<close> is what it destroys.\<close>

lemma reclaim_cvar_places:
  assumes ok: "mem_ok s" and run: "sys_Reclaim uc s = Inr r" and c: "cvars s c = Some x" "cvars (kres_state r) c = None"
  shows "places (held r) (kres_state r) = (places (active_proc s) s)
    (In_Ready := mset (ready_queue s @ take (Suc (length (cvar_wait_list x)) div 2) (cvar_wait_list x)), At_Cvar c := {#})"
    and "\<exists>v. r = Done v (kres_state r)"
    and "ready_queue (kres_state r) = ready_queue s @ take (Suc (length (cvar_wait_list x)) div 2) (cvar_wait_list x)"
proof -
  from run c obtain ty i rc t where d: "destroy_by_type ty i s = Inr (rc, t)" "cvars (kres_state r) = cvars t"
    "places (held r) (kres_state r) = places (active_proc t) t" "\<exists>v. r = Done v (kres_state r)"
    "ready_queue (kres_state r) = ready_queue t"
    by (auto simp: sys_Reclaim_def Let_def split: if_splits option.splits)
  have cv: "destroy_cvar_info i s = Inr (rc, t)"
    using d(1,2) c destroy_keeps_cvars by (auto simp: destroy_by_type_def split: if_splits)
  have "active_proc t = active_proc s" using destroy_shifts(3) [OF ok cv] by simp
  then show "places (held r) (kres_state r) = (places (active_proc s) s)
    (In_Ready := mset (ready_queue s @ take (Suc (length (cvar_wait_list x)) div 2) (cvar_wait_list x)), At_Cvar c := {#})"
    using destroy_cvar_places(1) [OF ok cv c(1)] d(2,3) c(2) by simp
  show "ready_queue (kres_state r) = ready_queue s @ take (Suc (length (cvar_wait_list x)) div 2) (cvar_wait_list x)"
    using destroy_cvar_places(2) [OF ok cv c(1)] d(2,5) c(2) by simp
  show "\<exists>v. r = Done v (kres_state r)" by (rule d(4))
qed

text \<open>When only the first \<open>k\<close> of the processes in one queue are moved to the ready queue, the others are nowhere.\<close>

lemma dropped_nowhere:
  assumes iso: "isolated P" and w: "P q = mset w" "P In_Ready = mset rq" "q \<noteq> In_Ready" and a: "a \<in> set (drop k w)"
  shows "a \<notin># (P(In_Ready := mset (rq @ take k w), q := {#})) y"
proof -
  have aw: "a \<in># P q" using w(1) a by (auto dest: in_set_dropD)
  then have one: "count (mset w) a = 1" using iso w(1) unfolding isolated_def by metis
  have only: "a \<notin># P y" if "y \<noteq> q" for y using iso aw that unfolding isolated_def by blast
  have "mset w = mset (take k w) + mset (drop k w)" by (simp flip: mset_append)
  then have "count (mset (take k w)) a + count (mset (drop k w)) a = 1" using one by simp
  moreover have "0 < count (mset (drop k w)) a" using a by (simp only: count_greater_zero_iff set_mset_mset)
  ultimately have "count (mset (take k w)) a = 0" by linarith
  then have "a \<notin># mset (take k w)" by (simp only: not_in_iff)
  then show ?thesis using only [of y] only [of In_Ready] w(2,3) by auto
qed

text \<open>
C40: half of the waiters are lost. In a state of the running machine (idle as it must be, every process
in one place, malloc works) a process calls Reclaim and a condition variable is destroyed: of the
processes that wait on it the first half, rounded up, is appended to the ready queue in order; each of
the others is in no queue of the kernel after the call and never runs again, whatever happens without
a kernel fault, although the comment says that all waiters are woken.
\<close>

theorem reclaimed_waiters_lost:
  assumes "idle_safe i s" and "seated (active_proc s) s" and "active_proc s \<noteq> Some i"
    and "uc_vector uc1 = TRAP_KERNEL" and "uc_code uc1 = uint YALNIX_RECLAIM"
    and "int_vector fs fuel line uc1 s = Some (Inr (uc2, u))"
    and "cvars s c = Some x" and "cvars u c = None"
    and "k = Suc (length (cvar_wait_list x)) div 2" and "onward fs i u t"
  shows "ready_queue u = ready_queue s @ take k (cvar_wait_list x) \<and>
    (\<forall>a\<in>set (drop k (cvar_wait_list x)). active_proc t \<noteq> Some a \<and> a \<notin> set (ready_queue t) \<and>
       (\<forall>y. a \<notin># places (active_proc t) t y))"
proof -
  have inv: "kernel_inv s" and ok: "mem_ok s" using assms(1) by (simp_all add: idle_safe_def kernel_inv_def)
  have call: "trap_kernel_hdl fs uc1 s = sys_Reclaim uc1 s" using assms(5) by (simp add: trap_kernel_hdl_def)
  have "run_res fuel uc1 (sys_Reclaim uc1 s) = Some (Inr (uc2, u))"
    using assms(4,6) call by (simp add: int_vector_def)
  then obtain r where r: "sys_Reclaim uc1 s = Inr r" "run fuel uc1 r = Some (Inr (uc2, u))"
    by (cases "sys_Reclaim uc1 s") (auto simp: run_res_def)
  obtain v where v: "r = Done v (kres_state r)"
    using done_not_yield(3) r(1) by (cases r) (auto simp: sys_Reclaim_def Let_def split: if_splits option.splits)
  have u: "u = kres_state r" using r(2) by (subst (asm) v) simp
  let ?w = "cvar_wait_list x" and ?k = "Suc (length (cvar_wait_list x)) div 2"
  note k = assms(9)
  have c: "cvars (kres_state r) c = None" using assms(8) u by simp
  have "places (active_proc u) u = (places (active_proc s) s)(In_Ready := mset (ready_queue s @ take ?k ?w), At_Cvar c := {#})"
    using reclaim_cvar_places(1) [OF ok r(1) assms(7) c] v u by (metis held.simps(2))
  note P = this
  have rq: "ready_queue u = ready_queue s @ take ?k ?w" using reclaim_cvar_places(3) [OF ok r(1) assms(7) c] u by simp
  have seat: "isolated (places (active_proc s) s)" "placed (places (active_proc s) s) \<subseteq> dom (pcbs s)"
    using assms(2) by (simp_all add: seated_def)
  have q: "places (active_proc s) s (At_Cvar c) = mset ?w" "places (active_proc s) s In_Ready = mset (ready_queue s)"
    using assms(7) by simp_all
  have "idle_safe i u" using trap_idle(2) [OF assms(1) _ assms(6)] assms(3) by simp
  then have later: "relocates (active_proc u) u (active_proc t) t" using onward_relocates [OF assms(10)] by blast
  have lost: "active_proc t \<noteq> Some a \<and> a \<notin> set (ready_queue t) \<and> (\<forall>y. a \<notin># places (active_proc t) t y)"
    if a: "a \<in> set (drop ?k ?w)" for a
  proof (rule not_placed)
    have "a \<notin># places (active_proc u) u y" for y unfolding P by (rule dropped_nowhere [OF seat(1) q _ a]) simp
    then have out: "a \<notin> placed (places (active_proc u) u)" by (simp add: placed_def)
    have "a \<in># places (active_proc s) s (At_Cvar c)" unfolding q(1) using a by (auto dest: in_set_dropD)
    then have "a \<in> dom (pcbs s)" using seat(2) unfolding placed_def by blast
    then have "a \<in> dom (pcbs u)" using wakes_dom [OF reclaim_wakes [OF r(1)]] u by auto
    then show "a \<notin> placed (places (active_proc t) t)" using out later unfolding relocates_def by blast
  qed
  show ?thesis using rq lost unfolding k by blast
qed

section \<open>Runs\<close>

lemma cold_objects: "no_objects cold"
  by (simp add: no_objects_def cold_def sample_def)

lemma free_null_table: "free_table (replicate n null_pte) s = (replicate n null_pte, s)"
  by (induction n) simp_all

text \<open>On the cold machine init exits at once; idle is switched in.\<close>

definition exit_uc :: user_context where
  "exit_uc = sample_uc\<lparr>uc_vector := TRAP_ILLEGAL\<rparr>"

lemma cold_exit:
  obtains s i a uc u where "idle_runs (\<lambda>_. None) [[0x69]] 0x400000 sample_uc cold i s" and "active_proc s = Some a"
    and "a \<noteq> i" and "int_vector (\<lambda>_. None) 1 [] exit_uc s = Some (Inr (uc, u))" and "pcbs s a \<noteq> None"
    and "active_proc u = Some i" and "pcbs u a \<noteq> None"
proof -
  obtain uc' s a p ff where b: "KernelStart (\<lambda>_. None) [[0x69]] 0x400000 sample_uc cold = Inr (uc', s)"
    and s: "active_proc s = Some a" "pcbs s a = Some p" "u_page_table p = replicate 128 null_pte" "next_heap_pn p = 4"
      "free_frames s = 507 # ff" "children p = []" "ppid p = -1" "k_stack_pt p = [fresh_entry 511, fresh_entry 510]"
    by (rule cold_boot_process)
  have n: "130 \<le> uint (0x400000 :: u32) div 8192" by simp
  from cold_on n b obtain a' p' i q where st: "kernel_inv s" "active_proc s = Some a'" "pcbs s = [a' \<mapsto> p', i \<mapsto> q]" "a' \<noteq> i"
    "pid p' = 0" "pid q = 1" "ready_queue s = [i]" "uc' = uctxt p'" "next_pid s = 2" "initial_kc s = K_Start"
    "state p' = RUNNING" "state q = READY" "p_idle s = Some i" "pfn (k_stack_pt q ! 0) = 0"
    by (rule boot_state)
  have a: "a' = a" "p' = p" using s(1,2) st(2,3,4) by auto
  obtain x y where "places (Some x) s = (\<lambda>_. {#})(Running := {#x#}, In_Ready := {#y#})"
    using boot_places [OF cold_on cold_objects n b] by metis
  from fun_cong [OF this, of In_Wait] have w: "wait_list s = []" by simp
  have ok: "malloc_fails s = (\<lambda>_. False)" using st(1) by (simp add: kernel_inv_def mem_ok_def)
  have "pcbs s i = Some q" using st(3) by simp
  then have k2: "length (k_stack_pt q) = 2" using st(1) unfolding kernel_inv_def sized_def by (auto simp: numeral_2_eq_2)
  have "\<exists>s1. sys_Exit exit_uc 1 s = Inr (Yield K_Exit s1) \<and> active_proc s1 = None \<and> ready_queue s1 = [i] \<and> malloc_fails s1 = (\<lambda>_. False) \<and>
      pcbs s1 i = Some q \<and> pcbs s1 a \<noteq> None \<and> free_frames s1 = 510 # 511 # 507 # ff \<and> initial_kc s1 = K_Start"
    using s st(3,4,7,10) a w ok
    by (simp add: sys_Exit_def report_to_parent_def free_proc_def free_null_table fresh_entry_def wake_parent_def klist_insert_def
        malloc_def insert_at_def set_pcb_def)
  then obtain s1 where e: "sys_Exit exit_uc 1 s = Inr (Yield K_Exit s1)" and s1: "active_proc s1 = None" "ready_queue s1 = [i]"
      "malloc_fails s1 = (\<lambda>_. False)" "pcbs s1 i = Some q" "pcbs s1 a \<noteq> None" "free_frames s1 = 510 # 511 # 507 # ff" "initial_kc s1 = K_Start"
    by blast
  have "\<exists>t. normal_schedule exit_uc K_Exit s1 = Inr (Switched K_Start t) \<and> active_proc t = Some i \<and> pcbs t i \<noteq> None \<and> pcbs t a \<noteq> None"
    using s1 st(4,6,14) a k2
    by (simp add: normal_schedule_def ready_insert_eq context_switch_def init_proc_kernel_def grab_a_frame_def set_pcb_def
        copy_frame_def switch_kernel_context_def restore_stack_def Let_def)
  then obtain t where t: "normal_schedule exit_uc K_Exit s1 = Inr (Switched K_Start t)" "active_proc t = Some i" "pcbs t i \<noteq> None" "pcbs t a \<noteq> None"
    by blast
  then obtain uc2 u where sw: "switched_in t = Inr (uc2, u)" "pcbs u = pcbs t" "active_proc u = Some i"
    by (auto simp: switched_in_def)
  have "int_vector (\<lambda>_. None) 1 [] exit_uc s = run_res 1 exit_uc (sys_Exit exit_uc 1 s)"
    by (simp add: int_vector_def exit_uc_def trap_illegal_hdl_def)
  also have "\<dots> = Some (Inr (uc2, u))" using e t sw by (simp add: run_res_def)
  finally have iv: "int_vector (\<lambda>_. None) 1 [] exit_uc s = Some (Inr (uc2, u))" .
  show thesis
    by (rule that [OF idle_runs.boot [OF b st(13)] s(1) _ iv]) (use st(4) a s(2) sw t in auto)
qed

theorem process_in_one_place_witness:
  "\<exists>s i. idle_runs (\<lambda>_. None) [[0x69]] 0x400000 sample_uc cold i s \<and> count (places (active_proc s) s In_Ready) i = 1 \<and>
     i \<notin># places (active_proc s) s Running"
proof -
  obtain s i where r: "idle_runs (\<lambda>_. None) [[0x69]] 0x400000 sample_uc cold i s" "active_proc s \<noteq> Some i"
    "ready_queue s = [i]"
    by (rule cold_idle_runs)
  have n: "130 \<le> uint (0x400000 :: u32) div 8192" by simp
  have "i \<in># places (active_proc s) s In_Ready" using r(3) by simp
  from process_in_one_place [OF cold_powered cold_objects n r(1) this] r show ?thesis by blast
qed

theorem exited_never_runs_witness:
  "\<exists>s i a uc u. idle_runs (\<lambda>_. None) [[0x69]] 0x400000 sample_uc cold i s \<and> active_proc s = Some a \<and>
     int_vector (\<lambda>_. None) 1 [] exit_uc s = Some (Inr (uc, u)) \<and> active_proc u = Some i \<and> a \<notin> set (ready_queue u)"
proof -
  obtain s i a uc u where r: "idle_runs (\<lambda>_. None) [[0x69]] 0x400000 sample_uc cold i s" "active_proc s = Some a" "a \<noteq> i"
    "int_vector (\<lambda>_. None) 1 [] exit_uc s = Some (Inr (uc, u))" "pcbs s a \<noteq> None" "active_proc u = Some i" "pcbs u a \<noteq> None"
    by (rule cold_exit)
  have n: "130 \<le> uint (0x400000 :: u32) div 8192" by simp
  have "ends_process exit_uc" by (simp add: ends_process_def exit_uc_def)
  from exited_never_runs [OF cold_powered cold_objects n r(1-3) this r(4) onward.now] r show ?thesis by blast
qed

theorem nowhere_never_runs_witness:
  "\<exists>s i a. idle_runs (\<lambda>_. None) [[0x69]] 0x400000 sample_uc cold i s \<and> pcbs s a \<noteq> None \<and> active_proc s = Some i \<and>
     a \<notin> set (ready_queue (s\<lparr>pmem := \<lambda>_ _. 1\<rparr>))"
proof -
  obtain s i a uc u where r: "idle_runs (\<lambda>_. None) [[0x69]] 0x400000 sample_uc cold i s" "active_proc s = Some a" "a \<noteq> i"
    "int_vector (\<lambda>_. None) 1 [] exit_uc s = Some (Inr (uc, u))" "pcbs s a \<noteq> None" "active_proc u = Some i" "pcbs u a \<noteq> None"
    by (rule cold_exit)
  have n: "130 \<le> uint (0x400000 :: u32) div 8192" by simp
  have "ends_process exit_uc" by (simp add: ends_process_def exit_uc_def)
  from exit_nowhere [OF cold_on cold_objects n r(1-3) this r(4)] have out: "\<forall>x. a \<notin># places (active_proc u) u x"
    by (simp add: placed_def)
  have u: "idle_runs (\<lambda>_. None) [[0x69]] 0x400000 sample_uc cold i u" by (rule idle_runs.trap [OF r(1) _ r(4)]) (use r in simp)
  have "a \<notin> set (ready_queue (u\<lparr>pmem := \<lambda>_ _. 1\<rparr>))"
    using nowhere_never_runs [OF cold_powered n u r(7) out onward.user [OF onward.now]] by blast
  then show ?thesis using u r(6,7) by blast
qed

text \<open>Two processes wait on a condition variable; the second is forgotten.\<close>

definition lost_sample :: kstate where
  "lost_sample = sample\<lparr>ready_queue := [20], pcbs := (pcbs sample)(31 \<mapsto> (sample_pcb 3 0)\<lparr>k_stack_pt := replicate 2 null_pte\<rparr>),
     cvars := [80 \<mapsto> \<lparr>cvarid = 3, cvar_wait_list = [30, 31]\<rparr>], cvar_list := [80],
     reclaims := [95 \<mapsto> \<lparr>reclaim_id = 3, reclaim_type = 2\<rparr>], reclaim_list := [95]\<rparr>"

lemma lost_sample_inv: "kernel_inv lost_sample"
proof -
  have "frames_of lost_sample = frames_of sample"
  proof (rule ext)
    fix c show "frames_of lost_sample c = frames_of sample c"
      by (cases c) (auto simp: lost_sample_def sample_def sample_pcb_def)
  qed
  then have "isolated (frames_of lost_sample)" using sample_isolated by simp
  then show ?thesis
    by (auto simp: kernel_inv_def lost_sample_def sample_def sized_def mem_ok_def sample_pcb_def sample_table_def kstack_mapped_def)
qed

lemma lost_sample_safe: "idle_safe 20 lost_sample"
proof -
  have "pcbs lost_sample 20 = Some (sample_pcb 1 202)" "ready_queue lost_sample = [20]" "active_proc lost_sample = Some 10"
    "initial_kc lost_sample = K_Start"
    by (simp_all add: lost_sample_def) (simp add: sample_def)
  then show ?thesis using lost_sample_inv by (simp add: idle_safe_def idle_ready_def rested_def rests_def)
qed

lemma lost_sample_seated: "seated (active_proc lost_sample) lost_sample"
proof -
  have P: "places (Some 10) lost_sample = (\<lambda>_. {#})(Running := {#10#}, In_Ready := {#20#}, At_Cvar 80 := {#30, 31#})"
  proof (rule places_eqI)
    fix x show "places (Some 10) lost_sample x = ((\<lambda>_. {#})(Running := {#10#}, In_Ready := {#20#}, At_Cvar 80 := {#30, 31#})) x"
      by (cases x) (auto simp: lost_sample_def sample_def)
  qed
  have "active_proc lost_sample = Some 10" by (simp add: lost_sample_def)
  moreover have "isolated (places (Some 10) lost_sample)" unfolding P isolated_def by (auto split: if_splits)
  moreover have "placed (places (Some 10) lost_sample) \<subseteq> dom (pcbs lost_sample)"
    unfolding P placed_def by (auto simp: lost_sample_def sample_def split: if_splits)
  ultimately show ?thesis by (simp add: seated_def)
qed

theorem reclaimed_waiters_lost_witness:
  "\<exists>uc u. int_vector (\<lambda>_. None) 0 [] ((args 3 0 0)\<lparr>uc_code := uint YALNIX_RECLAIM\<rparr>) lost_sample = Some (Inr (uc, u)) \<and>
     30 \<in> set (ready_queue u) \<and> 31 \<notin> set (ready_queue u)"
proof -
  let ?uc = "(args 3 0 0)\<lparr>uc_code := uint YALNIX_RECLAIM\<rparr>"
  have f: "mem_ok lost_sample" "reclaim_list lost_sample = [95]" "reclaims lost_sample 95 = Some \<lparr>reclaim_id = 3, reclaim_type = 2\<rparr>"
    "cvars lost_sample = [80 \<mapsto> \<lparr>cvarid = 3, cvar_wait_list = [30, 31]\<rparr>]" "cvar_list lost_sample = [80]"
    "ready_queue lost_sample = [20]" "active_proc lost_sample = Some 10"
    by (simp_all add: lost_sample_def mem_ok_def)
  have reg: "reg ?uc 0 = 3" "uc_vector ?uc = 0" "uc_code ?uc = uint YALNIX_RECLAIM" by (simp_all add: args_def reg_def sample_uc_def)
  from f(1) obtain n where "wake_loop 1 [30, 31] lost_sample = ([31], lost_sample\<lparr>malloc_cnt := n, ready_queue := [20, 30]\<rparr>)"
    by (rule wake_loop_halves [of _ "[30, 31]"]) (simp add: f)
  then obtain v u where r: "sys_Reclaim ?uc lost_sample = Inr (Done v u)" "cvars u 80 = None" "ready_queue u = [20, 30]"
    using f(2-6) reg(1) by (auto simp: sys_Reclaim_def destroy_by_type_def destroy_cvar_info_def Let_def)
  have "trap_kernel_hdl (\<lambda>_. None) ?uc lost_sample = sys_Reclaim ?uc lost_sample" using reg(3) by (simp add: trap_kernel_hdl_def)
  then have iv: "\<exists>uc. int_vector (\<lambda>_. None) 0 [] ?uc lost_sample = Some (Inr (uc, u))"
    using r(1) reg(2) by (simp add: int_vector_def run_res_def)
  then obtain uc where iv: "int_vector (\<lambda>_. None) 0 [] ?uc lost_sample = Some (Inr (uc, u))" by blast
  have "31 \<notin> set (ready_queue u)"
    using reclaimed_waiters_lost [OF lost_sample_safe lost_sample_seated _ _ _ iv _ r(2) refl onward.now] f reg(2,3) by simp
  then show ?thesis using iv r(3) by auto
qed

end
