(* ===== verification/Live_Objects.thy ===== *)
theory Live_Objects
  imports Trap_Isolation
begin

text \<open>Every handler keeps the lists of objects free of dangling and of duplicate entries.\<close>

lemmas list_code = objects_listed_def klist_append_eq ready_insert_eq malloc_def Let_def set_pcb_def
  listed_Suc listed_upd listed_new listed_undo

section \<open>System calls\<close>

lemma delay_listed: "objects_listed s \<Longrightarrow> sys_Delay uc s = Inr r \<Longrightarrow> objects_listed (kres_state r)"
  by (auto simp: sys_Delay_def insert_sleep_list_def list_code split: if_splits option.splits)

lemma wait_listed: "objects_listed s \<Longrightarrow> sys_Wait uc s = Inr r \<Longrightarrow> objects_listed (kres_state r)"
  by (auto simp: sys_Wait_def reap_def list_code split: if_splits option.splits dest!: user_store_effect)

lemma wait_resume_listed: "objects_listed s \<Longrightarrow> wait_resume a i s = Inr r \<Longrightarrow> objects_listed (kres_state r)"
  by (auto simp: wait_resume_def reap_def list_code split: if_splits option.splits dest!: user_store_effect)

lemma tty_block_listed: "objects_listed s \<Longrightarrow> tty_block t c s = Inr r \<Longrightarrow> objects_listed (kres_state r)"
  by (auto simp: tty_block_def list_code split: if_splits option.splits)

lemma tty_read_listed: "objects_listed s \<Longrightarrow> sys_TtyRead uc s = Inr r \<Longrightarrow> objects_listed (kres_state r)"
  by (auto simp: sys_TtyRead_def list_code split: if_splits option.splits)

lemma tty_read_resume_listed: "objects_listed s \<Longrightarrow> ttyread_resume t s = Inr r \<Longrightarrow> objects_listed (kres_state r)"
  by (auto simp: ttyread_resume_def list_code split: if_splits option.splits dest!: user_store_effect)

lemma objects_listed_frame [simp]:
  "objects_listed (s\<lparr>busy_terminal := x\<rparr>) = objects_listed s" "objects_listed (s\<lparr>hw := y\<rparr>) = objects_listed s"
  "objects_listed (s\<lparr>pmem := z\<rparr>) = objects_listed s" "objects_listed (s\<lparr>active_proc := u\<rparr>) = objects_listed s"
  "objects_listed (s\<lparr>ready_queue := v\<rparr>) = objects_listed s" "objects_listed (s\<lparr>io_list := w\<rparr>) = objects_listed s"
  "objects_listed (set_pcb a f s) = objects_listed s"
  by (simp_all add: objects_listed_def set_pcb_def)

lemma tty_loop_listed: "objects_listed s \<Longrightarrow> tty_loop uc t n s = Inr r \<Longrightarrow> objects_listed (kres_state r)"
  by (auto simp: tty_loop_def Let_def split: if_splits dest!: tty_block_listed [rotated])

lemma tty_write_listed: "objects_listed s \<Longrightarrow> sys_TtyWrite uc s = Inr r \<Longrightarrow> objects_listed (kres_state r)"
  by (auto simp: sys_TtyWrite_def Let_def split: if_splits dest!: tty_loop_listed [rotated])

lemma pipe_take_listed: "objects_listed s \<Longrightarrow> pipe_take a p buf n s = Inr r \<Longrightarrow> objects_listed (kres_state r)"
  by (auto simp: pipe_take_def list_code split: if_splits list.splits dest!: user_store_effect)

lemma pipe_loop_listed: "objects_listed s \<Longrightarrow> pipe_read_loop a i buf n e s = Inr r \<Longrightarrow> objects_listed (kres_state r)"
proof -
  assume l: "objects_listed s" and run: "pipe_read_loop a i buf n e s = Inr r"
  then obtain p where p: "pipes s a = Some p" by (auto simp: pipe_read_loop_def)
  show ?thesis
  proof (cases "cur_len p < n")
    case True
    then show ?thesis using l run p
      by (auto simp: pipe_read_loop_def list_code split: if_splits option.splits)
  next
    case False
    then show ?thesis using pipe_take_listed [OF l] run p by (auto simp: pipe_read_loop_def)
  qed
qed

lemma pipe_read_listed: "objects_listed s \<Longrightarrow> sys_PipeRead uc s = Inr r \<Longrightarrow> objects_listed (kres_state r)"
  by (auto simp: sys_PipeRead_def Let_def split: if_splits option.splits dest!: pipe_loop_listed [rotated])

lemma pipe_resume_listed: "objects_listed s \<Longrightarrow> pipe_resume a i buf n e s = Inr r \<Longrightarrow> objects_listed (kres_state r)"
  by (auto simp: pipe_resume_def Let_def split: if_splits dest!: pipe_loop_listed [rotated])

lemma acquire_loop_listed: "objects_listed s \<Longrightarrow> acquire_loop K l i e s = Inr r \<Longrightarrow> objects_listed (kres_state r)"
  by (auto simp: acquire_loop_def list_code split: if_splits option.splits)

lemma acquire_listed: "objects_listed s \<Longrightarrow> sys_Acquire K uc i s = Inr r \<Longrightarrow> objects_listed (kres_state r)"
  by (auto simp: sys_Acquire_def Let_def split: if_splits option.splits dest!: acquire_loop_listed [rotated])

lemma acquire_resume_listed: "objects_listed s \<Longrightarrow> acquire_resume K l i e s = Inr r \<Longrightarrow> objects_listed (kres_state r)"
  by (auto simp: acquire_resume_def Let_def split: if_splits dest!: acquire_loop_listed [rotated])

lemma release_listed: "objects_listed s \<Longrightarrow> sys_Release i s = Inr (rc, s') \<Longrightarrow> objects_listed s'"
  by (auto simp: sys_Release_def list_code split: option.splits list.splits)

lemma cvar_wait_listed: "objects_listed s \<Longrightarrow> sys_CvarWait uc s = Inr r \<Longrightarrow> objects_listed (kres_state r)"
proof -
  assume l: "objects_listed s" and run: "sys_CvarWait uc s = Inr r"
  from run obtain rc t where rel: "sys_Release (sint (reg uc 1)) s = Inr (rc, t)" by (auto simp: sys_CvarWait_def Let_def)
  have "objects_listed t" by (rule release_listed [OF l rel])
  then show ?thesis using run rel
    by (auto simp: sys_CvarWait_def list_code split: if_splits option.splits)
qed

lemma cvar_resume_listed: "objects_listed s \<Longrightarrow> cvar_resume uc c i s = Inr r \<Longrightarrow> objects_listed (kres_state r)"
proof -
  have st: "kres_state (cvar_rc r) = kres_state r" for r by (cases r rule: cvar_rc.cases) simp_all
  show "objects_listed s \<Longrightarrow> cvar_resume uc c i s = Inr r \<Longrightarrow> objects_listed (kres_state r)"
    using acquire_listed [of s K_CvarAcquire uc i] by (auto simp: cvar_resume_def st split: option.splits)
qed

lemma sem_listed:
  "objects_listed s \<Longrightarrow> sys_Custom_0 uc s = Inr r \<Longrightarrow> objects_listed (kres_state r)"
  "objects_listed s \<Longrightarrow> sys_Custom_1 uc s = Inr r \<Longrightarrow> objects_listed (kres_state r)"
  "objects_listed s \<Longrightarrow> sys_Custom_2 uc s = Inr r \<Longrightarrow> objects_listed (kres_state r)"
  by (auto simp: sys_Custom_0_def sys_Custom_1_def sys_Custom_2_def list_code
      split: if_splits option.splits list.splits)

text \<open>A new pipe, lock or condition variable, with its entry in the list of reclaimable ids.\<close>

lemma init_listed:
  "objects_listed s \<Longrightarrow> mem_ok s \<Longrightarrow> sys_PipeInit uc s = Inr r \<Longrightarrow> objects_listed (kres_state r)"
  "objects_listed s \<Longrightarrow> mem_ok s \<Longrightarrow> sys_LockInit uc s = Inr r \<Longrightarrow> objects_listed (kres_state r)"
  "objects_listed s \<Longrightarrow> mem_ok s \<Longrightarrow> sys_CvarInit uc s = Inr r \<Longrightarrow> objects_listed (kres_state r)"
  by (auto simp: sys_PipeInit_def sys_LockInit_def sys_CvarInit_def list_code mem_ok_def
      dest!: user_store_effect)

lemma pipe_write_listed: "objects_listed s \<Longrightarrow> sys_PipeWrite uc s = Inr r \<Longrightarrow> objects_listed (kres_state r)"
  by (auto simp: sys_PipeWrite_def list_code split: if_splits option.splits list.splits)

lemma signal_listed: "objects_listed s \<Longrightarrow> sys_CvarSignal uc s = Inr r \<Longrightarrow> objects_listed (kres_state r)"
  by (auto simp: sys_CvarSignal_def list_code split: if_splits option.splits list.splits)

section \<open>Destroying\<close>

lemma broadcast_listed: "objects_listed s \<Longrightarrow> mem_ok s \<Longrightarrow> sys_CvarBroadcast uc s = Inr r \<Longrightarrow> objects_listed (kres_state r)"
  by (auto simp: sys_CvarBroadcast_def broadcast_loop_ok objects_listed_def Let_def listed_upd listed_more [OF _ le_add1]
      split: if_splits option.splits)

text \<open>The object that was found leaves its list when it is freed.\<close>

lemma destroy_listed:
  assumes l: "objects_listed s"
  shows "destroy_pipe_info i s = Inr (rc, s') \<Longrightarrow> objects_listed s'"
    and "destroy_lock_info i s = Inr (rc, s') \<Longrightarrow> objects_listed s'"
    and "destroy_cvar_info i s = Inr (rc, s') \<Longrightarrow> objects_listed s'"
proof -
  have w: "objects_listed t \<and> shelves t = shelves s" if "wake_loop 1 w s = (w', t)" for w w' t
    using wake_loop_effect [OF that] objects_listed_cong [OF l] by auto
  have rm: "listed (m(a := None)) ys n \<and> b \<noteq> None"
    if "klist_remove xs j = (b, ys)" "find_obj m P 1 xs = Inr (Some (j, a))" "listed m xs n" for m :: "addr \<Rightarrow> 'a option" and P xs j a b ys n
    using listed_remove [OF that(2,3,1)] by blast
  show "destroy_pipe_info i s = Inr (rc, s') \<Longrightarrow> objects_listed s'"
    using l by (auto simp: destroy_pipe_info_def Let_def objects_listed_def shelves_def split: if_splits option.splits prod.splits
        dest!: w rm)
  show "destroy_lock_info i s = Inr (rc, s') \<Longrightarrow> objects_listed s'"
    using l by (auto simp: destroy_lock_info_def Let_def objects_listed_def shelves_def split: if_splits option.splits prod.splits
        dest!: w rm)
  show "destroy_cvar_info i s = Inr (rc, s') \<Longrightarrow> objects_listed s'"
    using l by (auto simp: destroy_cvar_info_def Let_def objects_listed_def shelves_def split: if_splits option.splits prod.splits
        dest!: w rm)
qed

lemma destroy_reclaims:
  "destroy_by_type ty i s = Inr (rc, s') \<Longrightarrow> reclaims s' = reclaims s \<and> reclaim_list s' = reclaim_list s"
proof -
  let ?same = "\<lambda>s'. reclaims s' = reclaims s \<and> reclaim_list s' = reclaim_list s"
  have "destroy_pipe_info i s = Inr (rc, s') \<Longrightarrow> ?same s'"
    by (auto simp: destroy_pipe_info_def Let_def split: if_splits option.splits prod.splits dest!: wake_loop_effect)
  moreover have "destroy_lock_info i s = Inr (rc, s') \<Longrightarrow> ?same s'"
    by (auto simp: destroy_lock_info_def Let_def split: if_splits option.splits prod.splits dest!: wake_loop_effect)
  moreover have "destroy_cvar_info i s = Inr (rc, s') \<Longrightarrow> ?same s'"
    by (auto simp: destroy_cvar_info_def Let_def split: if_splits option.splits prod.splits dest!: wake_loop_effect)
  ultimately show "destroy_by_type ty i s = Inr (rc, s') \<Longrightarrow> ?same s'" by (auto simp: destroy_by_type_def split: if_splits)
qed

lemma reclaim_listed:
  assumes l: "objects_listed s" and run: "sys_Reclaim uc s = Inr r"
  shows "objects_listed (kres_state r)"
proof -
  have d: "objects_listed s'" if "destroy_by_type ty i s = Inr (rc, s')" for ty i rc s'
    using that l destroy_listed [OF l] by (auto simp: destroy_by_type_def split: if_splits)
  let ?i = "sint (reg uc 0)"
  let ?find = "find_obj (reclaims s) (\<lambda>x. ?i = reclaim_id x) 1 (reclaim_list s)"
  show ?thesis
  proof (cases "?i < 0")
    case False
    then obtain f where f: "?find = Inr f" using run by (cases ?find) (simp_all add: sys_Reclaim_def Let_def)
    show ?thesis
    proof (cases f)
      case (Some pa)
      obtain pos a where pa: "pa = (pos, a)" by (cases pa)
      from f [unfolded Some pa] obtain x where x: "reclaims s a = Some x" by (rule find_obj_mem)
      have f': "?find = Inr (Some (pos, a))" using f Some pa by simp
      have e: "sys_Reclaim uc s = res_bind (destroy_by_type (reclaim_type x) ?i s) (\<lambda>(rc, s).
          if rc \<noteq> 0 then Inr (Done (Some ERROR) s)
          else Inr (Done (Some 0) (s\<lparr>reclaim_list := snd (klist_remove (reclaim_list s) pos), reclaims := (reclaims s)(a := None)\<rparr>)))"
        unfolding sys_Reclaim_def Let_def using False f' x by simp
      then obtain rc t where t: "destroy_by_type (reclaim_type x) ?i s = Inr (rc, t)" using run
        by (cases "destroy_by_type (reclaim_type x) ?i s") auto
      note k = d [OF t] and dr = destroy_reclaims [OF t]
      show ?thesis
      proof (cases "rc = 0")
        case True
        have "listed (reclaims t) (reclaim_list t) (malloc_cnt t)" using k by (simp add: objects_listed_def)
        with f' dr have "listed ((reclaims t)(a := None)) (snd (klist_remove (reclaim_list t) pos)) (malloc_cnt t)"
          using listed_remove(1) [of "reclaims t" _ "reclaim_list t" pos a "malloc_cnt t"] by (metis prod.collapse)
        moreover have "r = Done (Some 0) (t\<lparr>reclaim_list := snd (klist_remove (reclaim_list t) pos), reclaims := (reclaims t)(a := None)\<rparr>)"
          using run t True unfolding e by simp
        ultimately show ?thesis using k by (simp add: objects_listed_def)
      qed (use run t k e in auto)
    qed (use run False f l in \<open>auto simp: sys_Reclaim_def Let_def\<close>)
  qed (use run l in \<open>auto simp: sys_Reclaim_def Let_def\<close>)
qed

section \<open>Calls that leave the objects alone\<close>

definition objects_kept :: "kstate \<Rightarrow> kstate \<Rightarrow> bool" where
  "objects_kept s s' \<longleftrightarrow> shelves s' = shelves s \<and> malloc_cnt s \<le> malloc_cnt s'"

lemma objects_kept_trans: "objects_kept s t \<Longrightarrow> objects_kept t u \<Longrightarrow> objects_kept s u"
  by (simp add: objects_kept_def)

lemma objects_kept_listed: "objects_listed s \<Longrightarrow> objects_kept s s' \<Longrightarrow> objects_listed s'"
  using objects_listed_cong by (simp add: objects_kept_def)

lemma brk_objects_kept: "sys_Brk uc s = Inr r \<Longrightarrow> objects_kept s (kres_state r)"
  by (auto simp: sys_Brk_def objects_kept_def Let_def set_pcb_def split: if_splits)

lemma exec_objects_kept: "sys_Exec fs uc s = Inr r \<Longrightarrow> objects_kept s (kres_state r)"
proof -
  assume run: "sys_Exec fs uc s = Inr r"
  then obtain me where "deref_ptr (pcbs s) (active_proc s) = Inr me" by (auto simp: sys_Exec_def)
  then obtain a where a: "active_proc s = Some a" "pcbs s a = Some me" by (cases "active_proc s") auto
  have load: "objects_kept s s1" if "load_program fs nm as a s = Inr (rc, s1)" for nm as rc s1
    using moves_load_program [OF a(2) that] by (auto simp: moves_def keeps_def objects_kept_def)
  have refl: "objects_kept s s" by (simp add: objects_kept_def)
  show ?thesis
    using run a refl by (auto simp: sys_Exec_def return_initial_state_def copy_frame_def Let_def objects_kept_def
        split: if_splits dest!: load)
qed

lemma init_stack_pages_kept: "init_stack_pages is a s = Inr s' \<Longrightarrow> objects_kept s s'"
proof (induction "is" arbitrary: s)
  case (Cons i "is")
  obtain f t where g: "grab_a_frame s = (f, t)" by (cases "grab_a_frame s")
  let ?u = "set_pcb a (\<lambda>p. p\<lparr>k_stack_pt := (k_stack_pt p)[i := fresh_entry f]\<rparr>) t"
  let ?v = "copy_frame f (pfn (initial_ks ?u ! i)) ?u"
  have run: "init_stack_pages is a ?v = Inr s'" using Cons.prems g by (simp add: Let_def split: if_splits)
  have "objects_kept s ?v" using g by (auto simp: objects_kept_def copy_frame_def grab_a_frame_grab set_pcb_def)
  then show ?case using Cons.IH [OF run] by (rule objects_kept_trans)
qed (simp add: objects_kept_def)

lemma init_proc_kernel_kept: "init_proc_kernel a s = Inr s' \<Longrightarrow> objects_kept s s'"
proof -
  assume "init_proc_kernel a s = Inr s'"
  then have "init_stack_pages [0, 1] a (set_pcb a (\<lambda>p. p\<lparr>kctxt := initial_kc s\<rparr>) s) = Inr s'"
    by (auto simp: init_proc_kernel_def simp del: init_stack_pages.simps)
  moreover have "objects_kept s (set_pcb a (\<lambda>p. p\<lparr>kctxt := initial_kc s\<rparr>) s)" by (simp add: objects_kept_def set_pcb_def)
  ultimately show ?thesis using init_stack_pages_kept objects_kept_trans by blast
qed

lemma fork_objects_kept: "mem_ok s \<Longrightarrow> sys_Fork uc s = Inr r \<Longrightarrow> objects_kept s (kres_state r)"
proof -
  assume ok: "mem_ok s" and run: "sys_Fork uc s = Inr r"
  have c: "shelves s' = shelves s \<and> malloc_cnt s' = malloc_cnt s" if "copy_pages t s = (b, u, s')" for t s b u s'
    using copy_pages_frames [OF that] by auto
  have i: "shelves s' = shelves s \<and> malloc_cnt s \<le> malloc_cnt s'" if "init_proc_kernel a s = Inr s'" for a s s'
    using init_proc_kernel_kept [OF that] by (simp add: objects_kept_def)
  show ?thesis using run ok
    by (auto simp: sys_Fork_def objects_kept_def klist_append_eq ready_insert_eq malloc_def mem_ok_def set_pcb_def Let_def
        split: if_splits option.splits prod.splits dest!: c i)
qed

lemma orphan_kept: "orphan_children cs s = Inr s' \<Longrightarrow> objects_kept s s'"
proof (induction cs arbitrary: s)
  case (Cons c cs)
  then obtain a where r: "orphan_children cs (set_pcb a (\<lambda>p. p\<lparr>ppid := -1\<rparr>) s) = Inr s'" by auto
  have "objects_kept s (set_pcb a (\<lambda>p. p\<lparr>ppid := -1\<rparr>) s)" by (simp add: objects_kept_def set_pcb_def)
  then show ?case using Cons.IH [OF r] by (rule objects_kept_trans)
qed (simp add: objects_kept_def)

lemma report_kept: "report_to_parent me st s = Inr (rc, s') \<Longrightarrow> objects_kept s s'"
  by (auto simp: report_to_parent_def insert_dead_list_def klist_append_eq malloc_def Let_def objects_kept_def set_pcb_def
      split: if_splits option.splits)

lemma free_table_kept: "free_table t s = (u, s') \<Longrightarrow> objects_kept s s'"
  using free_table_effect [of t s u s'] by (auto simp: objects_kept_def)

lemma free_proc_kept: "objects_kept s (free_proc a p s)"
proof -
  obtain t s1 where f1: "free_table (u_page_table p) s = (t, s1)" by (cases "free_table (u_page_table p) s")
  obtain k s2 where f2: "free_table (k_stack_pt p) s1 = (k, s2)" by (cases "free_table (k_stack_pt p) s1")
  have "objects_kept s s2" using free_table_kept [OF f1] free_table_kept [OF f2] by (rule objects_kept_trans)
  then show ?thesis using f1 f2 by (simp add: free_proc_def objects_kept_def set_pcb_def)
qed

lemma wake_parent_kept: "wake_parent pp s = Inr (rc, s') \<Longrightarrow> objects_kept s s'"
  by (auto simp: wake_parent_def ready_insert_eq objects_kept_def split: option.splits prod.splits)

lemma exit_objects_kept:
  assumes run: "sys_Exit uc mode s = Inr r"
  shows "objects_kept s (kres_state r)"
proof -
  from run obtain me s1 rc s2 where me: "deref_ptr (pcbs s) (active_proc s) = Inr me"
    and o: "orphan_children (children me) s = Inr s1"
    and rp: "report_to_parent me (if mode = 0 then sint (reg uc 0) else ERROR) s1 = Inr (rc, s2)"
    by (auto simp: sys_Exit_def Let_def)
  have k2: "objects_kept s s2" using orphan_kept [OF o] report_kept [OF rp] by (rule objects_kept_trans)
  show ?thesis
  proof (cases "rc = 0")
    case False
    then show ?thesis using run me o rp k2 by (auto simp: sys_Exit_def Let_def)
  next
    case True
    with run me o rp obtain a rc' s3 where w: "wake_parent (ppid me) (free_proc a me s2) = Inr (rc', s3)"
      and r: "kres_state r = s3 \<or> kres_state r = s3\<lparr>active_proc := None\<rparr>"
      by (auto simp: sys_Exit_def Let_def split: if_splits)
    have "objects_kept s s3" using objects_kept_trans [OF k2 objects_kept_trans [OF free_proc_kept wake_parent_kept [OF w]]] .
    then show ?thesis using r by (auto simp: objects_kept_def)
  qed
qed

lemma memory_objects_kept: "trap_memory_hdl uc s = Inr r \<Longrightarrow> objects_kept s (kres_state r)"
  using exit_objects_kept [of uc 1 s] by (auto simp: trap_memory_hdl_def objects_kept_def set_pcb_def Let_def split: if_splits)

lemma receive_scan_kept: "receive_scan fuel t p s = Some (Inr s') \<Longrightarrow> objects_kept s s'"
proof (induction fuel t p s rule: receive_scan.induct)
  case (3 fuel t a s)
  then consider "s' = snd (ready_insert a (s\<lparr>io_list := snd (klist_remove (io_list s) 1)\<rparr>))" | "objects_kept s s'"
    by (auto split: sum.splits if_splits)
  then show ?case by cases (simp_all add: objects_kept_def ready_insert_eq)
qed (simp_all add: objects_kept_def)

lemma tty_receive_kept: "trap_tty_receive_hdl fuel l uc s = Some (Inr s') \<Longrightarrow> objects_kept s s'"
  by (auto simp: trap_tty_receive_hdl_def Let_def objects_kept_def split: if_splits dest!: receive_scan_kept)

lemma tty_transmit_kept: "trap_tty_transmit_hdl uc s = Inr s' \<Longrightarrow> objects_kept s s'"
  by (auto simp: trap_tty_transmit_hdl_def Let_def objects_kept_def ready_insert_eq split: if_splits option.splits)

section \<open>The clock and the scheduler\<close>

text \<open>The position that the loop counts is that of the record it looks at, so it is this one that is removed.\<close>

lemma update_sleep_listed:
  assumes "objects_listed s" and "sleep_list s = ps @ l" and "i = 1 + int (length ps)" and "update_sleep l i s = Inr (rc, s')"
  shows "objects_listed s'"
  using assms
proof (induction l arbitrary: i ps s)
  case (Cons a rest)
  from Cons.prems(4) obtain si where si: "sleeps s a = Some si" by auto
  let ?t = "s\<lparr>sleeps := (sleeps s)(a \<mapsto> si\<lparr>ticks_left := ticks_left si - 1\<rparr>)\<rparr>"
  have t: "objects_listed ?t" using Cons.prems(1) by (simp add: objects_listed_def listed_upd)
  show ?case
  proof (cases "ticks_left si - 1 \<le> 0")
    case False
    have run: "update_sleep rest (i + 1) ?t = Inr (rc, s')" using Cons.prems si False by (simp add: Let_def)
    show ?thesis by (rule Cons.IH [OF t _ _ run, of "ps @ [a]"]) (use Cons.prems in simp_all)
  next
    case True
    let ?v = "snd (ready_insert (sleep_pcb si) (set_pcb (sleep_pcb si) (\<lambda>p. p\<lparr>state := READY\<rparr>) ?t))"
    have x: "klist_remove (sleep_list s) i = (Some a, ps @ rest)"
      using klist_remove_mid [of ps a rest] Cons.prems(2,3) by simp
    let ?w = "?v\<lparr>sleep_list := ps @ rest, sleeps := (sleeps ?v)(a := None), ub_log := ub_log ?v @ [ReadFreedNode]\<rparr>"
    have sl: "sleep_list ?v = sleep_list s" by (simp add: ready_insert_eq set_pcb_def)
    have run: "update_sleep rest i ?w = Inr (rc, s')"
      using Cons.prems si True x sl by (auto simp: Let_def split_beta)
    have "listed (sleeps s) (ps @ a # rest) (malloc_cnt s)" using Cons.prems(1,2) by (simp add: objects_listed_def)
    then have "listed ((sleeps s)(a := None)) (ps @ rest) (Suc (malloc_cnt s))" by (intro listed_Suc listed_middle)
    then have "objects_listed ?w" using Cons.prems(1) by (simp add: objects_listed_def ready_insert_eq set_pcb_def listed_Suc)
    then show ?thesis using Cons.IH [OF _ _ _ run, of ps] Cons.prems(3) by simp
  qed
qed simp

lemma context_switch_kept:
  assumes run: "context_switch uc old new k s = Inr (k', s')"
  shows "objects_kept s s'"
proof -
  let ?s = "s\<lparr>active_proc := Some new\<rparr>"
  from run obtain s1 p s2 where s1: "(case old of None \<Rightarrow> Inr ?s | Some a \<Rightarrow>
      res_bind (deref (pcbs ?s) a) (\<lambda>_. Inr (set_pcb a (\<lambda>p. p\<lparr>uctxt := uc\<rparr>) ?s))) = Inr s1"
    and p: "pcbs s1 new = Some p"
    and s2: "(if pfn (k_stack_pt p ! 0) = 0 then init_proc_kernel new s1 else Inr s1) = Inr s2"
    and sw: "switch_kernel_context k old (Some new) s2 = Inr (k', s')"
    by (auto simp: context_switch_def Let_def)
  have "objects_kept s s1" using s1 by (auto simp: objects_kept_def set_pcb_def split: option.splits)
  moreover have "objects_kept s1 s2" using s2 init_proc_kernel_kept by (auto simp: objects_kept_def split: if_splits)
  moreover have "objects_kept s2 s'" using sw
    by (auto simp: objects_kept_def switch_kernel_context_def save_stack_def restore_stack_def copy_frame_def set_pcb_def Let_def
        split: option.splits)
  ultimately show ?thesis using objects_kept_trans by blast
qed

lemma normal_schedule_kept: "normal_schedule uc k s = Inr r \<Longrightarrow> objects_kept s (sched_state r)"
proof -
  have sw: "objects_kept s s'" if "context_switch uc old n k t = Inr (k', s')" "shelves t = shelves s" "malloc_cnt s \<le> malloc_cnt t"
    for old n k t k' s'
    using context_switch_kept [OF that(1)] that(2,3) by (simp add: objects_kept_def)
  show "normal_schedule uc k s = Inr r \<Longrightarrow> objects_kept s (sched_state r)"
    by (auto simp: normal_schedule_def Let_def ready_insert_eq split: if_splits option.splits prod.splits elim!: sw)
      (simp_all add: objects_kept_def)
qed

lemma do_scheduler_kept: "do_scheduler uc s = Inr r \<Longrightarrow> objects_kept s (sched_state r)"
proof -
  have sw: "objects_kept s s'" if "context_switch uc old n k t = Inr (k', s')" "shelves t = shelves s" "malloc_cnt s \<le> malloc_cnt t"
    for old n k t k' s'
    using context_switch_kept [OF that(1)] that(2,3) by (simp add: objects_kept_def)
  show "do_scheduler uc s = Inr r \<Longrightarrow> objects_kept s (sched_state r)"
    by (auto simp: do_scheduler_def Let_def ready_insert_eq split: if_splits option.splits prod.splits elim!: sw)
      (simp_all add: objects_kept_def)
qed

section \<open>Whole traps\<close>

text \<open>Both invariants together, because Fork and the objects' constructors need a working allocator.\<close>

definition objects_inv :: "kstate \<Rightarrow> bool" where
  "objects_inv s \<longleftrightarrow> kernel_inv s \<and> objects_listed s"

lemma objects_inv_kept: "objects_inv s \<Longrightarrow> kernel_inv s' \<Longrightarrow> objects_kept s s' \<Longrightarrow> objects_inv s'"
  using objects_kept_listed by (auto simp: objects_inv_def)

lemma call_objects:
  assumes inv: "objects_inv s" and run: "trap_kernel_hdl fs uc s = Inr r"
  shows "objects_inv (kres_state r)"
proof -
  have ok: "mem_ok s" and l: "objects_listed s" and k: "kernel_inv s" using inv by (simp_all add: objects_inv_def kernel_inv_def)
  have getpid: "res_bind (sys_Getpid s) (\<lambda>p. Inr (Done (Some p) s)) = Inr r \<Longrightarrow> objects_listed (kres_state r)" for r
    using l by auto
  have rel: "res_bind (sys_Release i s) (\<lambda>(rc, s). Inr (Done (Some rc) s)) = Inr r \<Longrightarrow> objects_listed (kres_state r)" for i r
    by (auto dest!: release_listed [OF l])
  note kept = objects_kept_listed [OF l]
  have "objects_listed (kres_state r)"
    using run unfolding trap_kernel_hdl_def Let_def
    by (elim if_branchE)
      (auto dest!: wait_listed [OF l] delay_listed [OF l] getpid tty_read_listed [OF l] tty_write_listed [OF l]
        init_listed [OF l ok] pipe_read_listed [OF l] pipe_write_listed [OF l] acquire_listed [OF l] rel signal_listed [OF l]
        broadcast_listed [OF l ok] cvar_wait_listed [OF l] reclaim_listed [OF l] sem_listed [OF l]
        kept [OF brk_objects_kept] kept [OF exec_objects_kept] kept [OF fork_objects_kept [OF ok]] kept [OF exit_objects_kept])
  then show ?thesis using kernel_call_inv [OF k run] by (simp add: objects_inv_def)
qed

lemma resume_objects:
  assumes inv: "objects_inv s" and run: "resume_k k uc s = Inr r"
  shows "objects_inv (kres_state r)"
proof -
  have l: "objects_listed s" and kv: "kernel_inv s" using inv by (simp_all add: objects_inv_def)
  have st: "kres_state (cvar_rc r) = kres_state r" for r by (cases r rule: cvar_rc.cases) simp_all
  have "objects_listed (kres_state r)" using run l
    by (cases k) (auto simp: st dest!: wait_resume_listed [OF l] tty_read_resume_listed [OF l] tty_loop_listed [OF l]
        pipe_resume_listed [OF l] acquire_resume_listed [OF l] cvar_resume_listed [OF l])
  then show ?thesis using resume_inv [OF kv run] by (simp add: objects_inv_def)
qed

lemma switched_in_objects: "objects_inv s \<Longrightarrow> switched_in s = Inr (uc, s') \<Longrightarrow> objects_inv s'"
  using quiet_inv switched_in_quiet by (fastforce simp: switched_in_def objects_inv_def objects_listed_def)

lemma run_objects:
  assumes "objects_inv (kres_state r)" and "run fuel uc r = Some (Inr (uc', s'))"
  shows "objects_inv s'"
  using assms
proof (induction fuel uc r rule: run.induct)
  case (2 fuel uc s)
  then show ?case using switched_in_objects by auto
next
  case (4 fuel uc k s)
  then obtain sr where sr: "normal_schedule uc k s = Inr sr" by (auto split: sum.splits)
  have inv: "objects_inv (sched_state sr)"
    using objects_inv_kept [OF _ normal_schedule_inv [OF _ sr] normal_schedule_kept [OF sr]] "4.prems"(1) by (simp add: objects_inv_def)
  show ?case
  proof (cases sr)
    case (SchedErr t)
    then show ?thesis using "4.prems"(2) sr inv by simp
  next
    case (NoSwitch t)
    then obtain x where "resume_k k uc t = Inr x" "run fuel uc x = Some (Inr (uc', s'))"
      using "4.prems"(2) sr by (auto split: sum.splits)
    then show ?thesis using "4.IH"(1) [OF sr] NoSwitch resume_objects inv by fastforce
  next
    case (Switched k' t)
    then obtain uc1 t1 x where sw: "switched_in t = Inr (uc1, t1)" and x: "resume_k k' uc1 t1 = Inr x"
      "run fuel uc1 x = Some (Inr (uc', s'))"
      using "4.prems"(2) sr by (auto split: sum.splits prod.splits)
    have "objects_inv t1" using switched_in_objects [OF _ sw] inv Switched by simp
    then have "objects_inv (kres_state x)" using resume_objects x(1) by blast
    then show ?thesis using "4.IH"(2) [OF sr Switched sw refl x(1)] x(2) by simp
  qed
qed auto

lemma run_res_objects:
  assumes "\<And>x. r = Inr x \<Longrightarrow> objects_inv (kres_state x)" and "run_res fuel uc r = Some (Inr (uc', s'))"
  shows "objects_inv s'"
  using assms run_objects by (auto simp: run_res_def split: sum.splits)

lemma clock_objects:
  assumes inv: "objects_inv s" and run: "run_sched fuel uc (trap_clock_hdl uc s) = Some (Inr (uc', s'))"
  shows "objects_inv s'"
proof -
  from run obtain sr where sr: "trap_clock_hdl uc s = Inr sr" by (auto simp: run_sched_def split: sum.splits)
  then obtain rc t where u: "update_sleep (sleep_list s) 1 s = Inr (rc, t)" and d: "do_scheduler uc t = Inr sr"
    by (auto simp: trap_clock_hdl_def update_sleep_list_def)
  have "objects_listed t" using update_sleep_listed [OF _ _ _ u, of "[]"] inv by (simp add: objects_inv_def)
  then have t: "objects_inv t" using quiet_inv [OF _ update_sleep_quiet [OF u]] inv by (simp add: objects_inv_def)
  have inv': "objects_inv (sched_state sr)"
    using objects_inv_kept [OF t do_scheduler_inv [OF _ d] do_scheduler_kept [OF d]] t by (simp add: objects_inv_def)
  show ?thesis
  proof (cases sr)
    case (Switched k v)
    with run sr obtain uc1 t1 where sw: "switched_in v = Inr (uc1, t1)"
      and r: "run_res fuel uc1 (resume_k k uc1 t1) = Some (Inr (uc', s'))"
      by (auto simp: run_sched_def split: sum.splits)
    have "objects_inv t1" using switched_in_objects [OF _ sw] inv' Switched by simp
    then show ?thesis using run_res_objects [OF _ r] resume_objects by blast
  qed (use run sr inv' in \<open>auto simp: run_sched_def\<close>)
qed

lemma trap_objects:
  assumes inv: "objects_inv s" and run: "int_vector fs fuel line uc s = Some (Inr (uc', s'))"
  shows "objects_inv s'"
proof -
  have kv: "kernel_inv s" using inv by (simp add: objects_inv_def)
  note kept = objects_inv_kept [OF inv]
  have k: "run_res fuel uc (trap_kernel_hdl fs uc s) = Some (Inr (uc', s')) \<Longrightarrow> objects_inv s'"
    by (rule run_res_objects [OF call_objects [OF inv]])
  have m: "run_res fuel uc (trap_memory_hdl uc s) = Some (Inr (uc', s')) \<Longrightarrow> objects_inv s'"
    by (rule run_res_objects [OF kept [OF memory_inv [OF kv] memory_objects_kept]])
  have e: "run_res fuel uc (sys_Exit uc 1 s) = Some (Inr (uc', s')) \<Longrightarrow> objects_inv s'"
    by (rule run_res_objects [OF kept [OF exit_inv [OF kv] exit_objects_kept]])
  have d: "run_res fuel uc (trap_disk_hdl uc s) = Some (Inr (uc', s')) \<Longrightarrow> objects_inv s'"
    using inv by (auto simp: trap_disk_hdl_def run_res_def)
  have r: "map_option (\<lambda>r. res_bind r (\<lambda>s. Inr (uc, s))) (trap_tty_receive_hdl fuel line uc s) = Some (Inr (uc', s'))
      \<Longrightarrow> objects_inv s'"
    using kept [OF quiet_inv [OF kv tty_receive_quiet] tty_receive_kept] by auto
  have t: "Some (res_bind (trap_tty_transmit_hdl uc s) (\<lambda>s. Inr (uc, s))) = Some (Inr (uc', s')) \<Longrightarrow> objects_inv s'"
    using kept [OF quiet_inv [OF kv tty_transmit_quiet] tty_transmit_kept] by auto
  show ?thesis
    using run unfolding int_vector_def Let_def trap_illegal_hdl_def trap_math_hdl_def trap_undefined_hdl_def
    by (elim if_branchE)
      (erule k, erule clock_objects [OF inv], erule e, erule m, erule e, erule r, erule t, erule d, erule e, simp)
qed

end
