(* ===== verification/Object_Properties.thy ===== *)
theory Object_Properties
  imports Live_Objects Boot_Frames
begin

text \<open>The lists of objects never hold a freed object, in any state of the running machine.\<close>

lemma start_objects:
  assumes "switched_on s" and "shelves t = shelves (start n s)"
  shows "objects_listed t" and "sem_list t = []"
proof -
  let ?s0 = "s\<lparr>total_frames := uint (drop_bit PAGESHIFT n), next_pid := 0, next_sem := 0,
       vmem_enabled := False, busy_terminal := replicate (nat NUM_TERMINALS) 0\<rparr>"
  have ok: "mem_ok ?s0" "mem_ok (init_int_vector (init_queues ?s0))"
    using assms by (simp_all add: switched_on_def powered_on_def mem_ok_def init_int_vector_def init_queues_ok)
  from gather_free_frames_effect [OF ok(2)] obtain m ff where
    e: "start n s = (init_int_vector (init_queues ?s0))\<lparr>malloc_cnt := m, free_frames := ff\<rparr>"
    unfolding start_def by blast
  then show "objects_listed t" "sem_list t = []"
    using assms(2) ok(1) by (simp_all add: objects_listed_def shelves_def init_int_vector_def init_queues_ok)
qed

lemma kernel_brk_kept: "SetKernelBrk a s = Inr (rc, s') \<Longrightarrow> objects_kept s s'"
  by (auto simp: SetKernelBrk_def objects_kept_def Let_def split: if_splits)

lemma reachable_objects:
  assumes "reachable fs argl n uc s t" and on: "switched_on s" "130 \<le> uint n div 8192"
  shows "objects_inv t"
  using assms(1)
proof (induction rule: reachable.induct)
  case (boot uc' t)
  have "kernel_inv t" using reachable_inv [OF reachable.boot [OF boot] on] .
  then show ?case using start_objects(1) [OF on(1) boot_frame(1) [OF boot]] by (simp add: objects_inv_def)
next
  case (user t m)
  have "kernel_inv (t\<lparr>pmem := m\<rparr>)" by (rule reachable_inv [OF reachable.user [OF user(1)] on])
  moreover have "objects_kept t (t\<lparr>pmem := m\<rparr>)" by (simp add: objects_kept_def)
  ultimately show ?case by (rule objects_inv_kept [OF user(2)])
next
  case (kernel_brk t a rc u)
  have "kernel_inv t" using kernel_brk(3) by (simp add: objects_inv_def)
  from kernel_brk_inv [OF this kernel_brk(2)] show ?case
    by (rule objects_inv_kept [OF kernel_brk(3) _ kernel_brk_kept [OF kernel_brk(2)]])
next
  case (trap t fuel line uc1 uc2 u)
  show ?case by (rule trap_objects [OF trap(3,2)])
qed

text \<open>A search of such a list comes to an end.\<close>

lemma listed_facts:
  assumes "listed m xs n"
  shows "distinct xs \<and> set xs \<subseteq> dom m \<and> (\<exists>r. find_obj m P 1 xs = Inr r)"
proof -
  have "live m xs" using assms by (simp add: listed_def live_def)
  then obtain r where "find_obj m P 1 xs = Inr r" using find_obj_total [of m xs P 1] by (cases "find_obj m P 1 xs") simp_all
  moreover have "set xs \<subseteq> dom m" using assms unfolding listed_def by blast
  ultimately show ?thesis using assms by (simp add: listed_def)
qed

text \<open>
C14: no dangling objects. Let malloc never fail. In every state that a run without a kernel fault reaches
after boot, by any sequence of traps, the lists of pipes, locks, condition variables, semaphores and sleeping processes hold no object twice and
only objects that exist: an object that Reclaim or the clock frees leaves its list in the same step. So
no search of the kernel for the id of an object ever follows a freed or dangling pointer.
\<close>

theorem object_lists_live:
  assumes "powered_on s0" and "malloc_fails s0 = (\<lambda>_. False)" and "130 \<le> uint n div 8192" and "reachable fs argl n uc s0 s"
  shows "distinct (pipe_list s) \<and> set (pipe_list s) \<subseteq> dom (pipes s) \<and> (\<exists>r. find_obj (pipes s) P 1 (pipe_list s) = Inr r) \<and>
     distinct (lock_list s) \<and> set (lock_list s) \<subseteq> dom (locks s) \<and> (\<exists>r. find_obj (locks s) Q 1 (lock_list s) = Inr r) \<and>
     distinct (cvar_list s) \<and> set (cvar_list s) \<subseteq> dom (cvars s) \<and> (\<exists>r. find_obj (cvars s) R 1 (cvar_list s) = Inr r) \<and>
     distinct (sem_list s) \<and> set (sem_list s) \<subseteq> dom (sems s) \<and> (\<exists>r. find_obj (sems s) S 1 (sem_list s) = Inr r) \<and>
     distinct (reclaim_list s) \<and> set (reclaim_list s) \<subseteq> dom (reclaims s) \<and>
     (\<exists>r. find_obj (reclaims s) T 1 (reclaim_list s) = Inr r) \<and>
     distinct (sleep_list s) \<and> set (sleep_list s) \<subseteq> dom (sleeps s)"
proof -
  have l: "objects_listed s" using reachable_objects [OF assms(4) switched_onI [OF assms(1,2)] assms(3)] by (simp add: objects_inv_def)
  then have "listed (sleeps s) (sleep_list s) (malloc_cnt s)" "listed (pipes s) (pipe_list s) (malloc_cnt s)"
    "listed (locks s) (lock_list s) (malloc_cnt s)" "listed (cvars s) (cvar_list s) (malloc_cnt s)"
    "listed (sems s) (sem_list s) (malloc_cnt s)" "listed (reclaims s) (reclaim_list s) (malloc_cnt s)"
    by (simp_all add: objects_listed_def)
  note facts = this [THEN listed_facts]
  show ?thesis
    using facts(1) facts(2) [of P] facts(3) [of Q] facts(4) [of R] facts(5) [of S] facts(6) [of T] by simp
qed

theorem object_lists_live_witness:
  "\<exists>s a. reachable (\<lambda>_. None) [[0x69]] 0x400000 sample_uc cold s \<and> sem_list s = [a] \<and> sems s a \<noteq> None"
proof -
  obtain uc' s a p ff where b: "KernelStart (\<lambda>_. None) [[0x69]] 0x400000 sample_uc cold = Inr (uc', s)"
    and "active_proc s = Some a" and "pcbs s a = Some p" and "u_page_table p = replicate 128 null_pte"
    and "next_heap_pn p = 4" and "free_frames s = 507 # ff"
    by (rule cold_boot_state)
  have n: "130 \<le> uint (0x400000 :: u32) div 8192" by simp
  have boot: "reachable (\<lambda>_. None) [[0x69]] 0x400000 sample_uc cold s" by (rule reachable.boot [OF b])
  have ok: "malloc_fails s = (\<lambda>_. False)"
    using reachable_inv [OF boot cold_on n] by (simp add: kernel_inv_def mem_ok_def)
  let ?uc = "sample_uc\<lparr>uc_code := uint YALNIX_CUSTOM_0\<rparr>"
  have "\<exists>v u. sys_Custom_0 ?uc s = Inr (Done v u) \<and> sem_list u = sem_list s @ [malloc_cnt s]"
    using ok by (simp add: sys_Custom_0_def malloc_def klist_append_eq Let_def)
  then obtain v u where u: "sys_Custom_0 ?uc s = Inr (Done v u)" "sem_list u = sem_list s @ [malloc_cnt s]" by blast
  have "trap_kernel_hdl (\<lambda>_. None) ?uc s = sys_Custom_0 ?uc s" by (simp add: trap_kernel_hdl_def)
  then have "\<exists>uc2. int_vector (\<lambda>_. None) 0 [] ?uc s = Some (Inr (uc2, u))"
    using u(1) by (simp add: int_vector_def run_res_def sample_uc_def)
  then have r: "reachable (\<lambda>_. None) [[0x69]] 0x400000 sample_uc cold u" using reachable.trap [OF boot] by blast
  have "sem_list s = []" by (rule start_objects(2) [OF cold_on boot_frame(1) [OF b]])
  then show ?thesis using object_lists_live [OF cold_powered n r, of "\<lambda>_. True" "\<lambda>_. True" "\<lambda>_. True" "\<lambda>_. True" "\<lambda>_. True"] r u(2) by auto
qed

end
