(* ===== verification/Pointer_Properties.thy ===== *)
theory Pointer_Properties
  imports Samples Pipes Locks Processes Loader
begin

text \<open>What the calls that write a result for the user do with a pointer into the kernel's own memory.\<close>

lemma user_store_kernel:
  assumes "active_proc s = Some a" and "pcbs s a = Some p" and "uint x < 0x100000"
  shows "user_store x (int_bytes v) s = Inl KernelMemAccess"
proof -
  have "nat (uint x) < nat 0x100000" using assms(3) by (simp only: nat_less_eq_zless uint_ge_0)
  then have "unat x < 0x100000" unfolding unat_eq_nat_uint by (simp only: nat_numeral)
  then have "translate t need x = Inl KernelMemAccess" for t need by (simp add: translate_def Let_def)
  then show ?thesis using assms(1,2) by (simp add: user_store_def int_bytes_def upt_rec)
qed

lemma kernel_addr_refused: "uint x < 0x100000 \<Longrightarrow> \<not> user_addr_ok x p"
  by (simp add: user_addr_ok_def sint_small)

text \<open>
C35: PipeInit, LockInit and CvarInit follow a pointer into the kernel. Given an address of region 0, where
the kernel keeps its data, they store the new id there without any check, after they have allocated the
object (malloc does not fail); in the model this is the fault that ends a run. Wait and Exec, given the
same address for their pointer, refuse it with ERROR and change nothing.
\<close>

theorem init_calls_write_kernel:
  assumes "malloc_fails s = (\<lambda>_. False)" and "active_proc s = Some a" and "pcbs s a = Some p"
    and "uint (reg uc 0) < 0x100000" and "uint (reg uc 1) < 0x100000"
  shows "sys_PipeInit uc s = Inl KernelMemAccess \<and> sys_LockInit uc s = Inl KernelMemAccess \<and>
     sys_CvarInit uc s = Inl KernelMemAccess \<and> sys_Wait uc s = Inr (Done (Some ERROR) s) \<and>
     sys_Exec fs uc s = Inr (Done (Some ERROR) s)"
proof (intro conjI)
  have st: "user_store (reg uc 0) (int_bytes v) t = Inl KernelMemAccess" if "active_proc t = Some a" "pcbs t a = Some p" for v t
    using user_store_kernel [OF that assms(4)] .
  show "sys_PipeInit uc s = Inl KernelMemAccess" using assms(1-3) st by (simp add: sys_PipeInit_def malloc_def Let_def)
  show "sys_LockInit uc s = Inl KernelMemAccess" using assms(1-3) st by (simp add: sys_LockInit_def malloc_def Let_def)
  show "sys_CvarInit uc s = Inl KernelMemAccess" using assms(1-3) st by (simp add: sys_CvarInit_def malloc_def Let_def)
  show "sys_Wait uc s = Inr (Done (Some ERROR) s)" using assms(2,3) kernel_addr_refused [OF assms(4)] by (simp add: sys_Wait_def Let_def)
  show "sys_Exec fs uc s = Inr (Done (Some ERROR) s)" using assms(2,3) kernel_addr_refused [OF assms(5)] by (simp add: sys_Exec_def Let_def)
qed

theorem init_calls_write_kernel_witness:
  "sys_LockInit (args 0x20010 0x20010 0) sample = Inl KernelMemAccess \<and>
   sys_Wait (args 0x20010 0x20010 0) sample = Inr (Done (Some ERROR) sample)"
  using init_calls_write_kernel [of sample 10 "(sample_pcb 0 200)\<lparr>u_page_table := sample_table\<rparr>" "args 0x20010 0x20010 0"] by simp

end
